(* ===== verification/Prelude.thy ===== *)
theory Prelude
  imports Complex_Main "HOL-Library.Word" "HOL-Library.Multiset" "HOL-Library.Sublist"
begin

text \<open>
  Shared vocabulary of the development: the machine integer types of the sources, the outcome
  type of C++ code that may throw or run into undefined behaviour, the fact collections, and
  the generic lemmas on lists, multisets and words that the component theories use.

  \<^item> \<open>byte\<close>, \<open>u16\<close>, \<open>u32\<close>, \<open>u64\<close> are the unsigned integers of the sources, with
    wrap-around. \<open>int\<close> stands for the C type \<open>int\<close> where the value cannot leave its range
    (or where a hypothesis of the theorem says so); \<open>nat\<close> stands for \<open>std::size_t\<close> sizes
    of containers that live in memory.
  \<^item> \<open>outcome\<close> is the result of a C++ function: a value, a thrown exception, or undefined
    behaviour (an out-of-range access, a division by zero, a \<open>pop_front\<close> of an empty deque).
\<close>

type_synonym byte = "8 word"
type_synonym u16 = "16 word"
type_synonym u32 = "32 word"
type_synonym u64 = "64 word"

datatype ('e, 'a) outcome = Ok 'a | Throw 'e | Undef

text \<open>\<open>vec.at\<close>-free indexing: \<open>v[i]\<close> is undefined behaviour outside the vector.\<close>

definition nth_ub :: "'a list \<Rightarrow> nat \<Rightarrow> 'a option" where
  "nth_ub xs i = (if i < length xs then Some (xs ! i) else None)"

text \<open>\<open>v[i] = x\<close>, undefined outside the vector.\<close>

definition upd_ub :: "'a list \<Rightarrow> nat \<Rightarrow> 'a \<Rightarrow> 'a list option" where
  "upd_ub xs i x = (if i < length xs then Some (xs[i := x]) else None)"

text \<open>\<open>std::to_string\<close> of an unsigned and of a signed integer.\<close>

definition digit_char :: "nat \<Rightarrow> char" where
  "digit_char d = char_of (48 + d)"

fun nat_to_string :: "nat \<Rightarrow> string" where
  "nat_to_string n = (if n < 10 then [digit_char n] else nat_to_string (n div 10) @ [digit_char (n mod 10)])"

declare nat_to_string.simps [simp del]

definition int_to_string :: "int \<Rightarrow> string" where
  "int_to_string k = (if k < 0 then CHR 0x2D # nat_to_string (nat (- k)) else nat_to_string (nat k))"

text \<open>A loop over a list whose body may run into undefined behaviour.\<close>

fun for_each :: "('v \<Rightarrow> 's \<Rightarrow> 's option) \<Rightarrow> 'v list \<Rightarrow> 's \<Rightarrow> 's option" where
  "for_each f [] s = Some s"
| "for_each f (v # vs) s = (case f v s of None \<Rightarrow> None | Some t \<Rightarrow> for_each f vs t)"

named_theorems inv_intros "preservation of the component invariants"
named_theorems codec_simps "byte and field packing"

subsection \<open>Options\<close>

lemma case_option_Some_iff:
  "(case m of None \<Rightarrow> None | Some x \<Rightarrow> f x) = Some y \<longleftrightarrow> (\<exists>x. m = Some x \<and> f x = Some y)"
  by (cases m) auto

lemma if_None_Some_iff: "(if b then None else e) = Some y \<longleftrightarrow> \<not> b \<and> e = Some y"
  by simp

lemmas opt_iffs = case_option_Some_iff if_None_Some_iff

lemma nth_ub_Some_iff [simp]: "nth_ub xs i = Some x \<longleftrightarrow> i < length xs \<and> x = xs ! i"
  by (auto simp: nth_ub_def)

lemma nth_ub_in [simp]: "i < length xs \<Longrightarrow> nth_ub xs i = Some (xs ! i)"
  by (simp add: nth_ub_def)

lemma upd_ub_in [simp]: "i < length xs \<Longrightarrow> upd_ub xs i x = Some (xs[i := x])"
  by (simp add: upd_ub_def)

lemma upd_ub_Some_iff: "upd_ub xs i x = Some ys \<longleftrightarrow> i < length xs \<and> ys = xs[i := x]"
  by (auto simp: upd_ub_def)

subsection \<open>Lists\<close>

lemma for_each_append:
  "for_each f (xs @ ys) s = (case for_each f xs s of None \<Rightarrow> None | Some t \<Rightarrow> for_each f ys t)"
  by (induction xs arbitrary: s) (auto split: option.splits)

lemma subseq_snoc: "subseq xs ys \<Longrightarrow> subseq (xs @ [a]) (ys @ [a])"
  by (simp add: list_emb_append_mono)

lemma subseq_appendI: "subseq xs ys \<Longrightarrow> subseq xs (ys @ zs)"
  by (simp add: subseq_order.order_trans [OF _ subseq_rev_drop_many])

lemma subseq_set_subset: "subseq xs ys \<Longrightarrow> set xs \<subseteq> set ys"
  by (induction rule: list_emb.induct) auto

lemma sorted_wrt_subseq: "subseq xs ys \<Longrightarrow> sorted_wrt P ys \<Longrightarrow> sorted_wrt P xs"
  by (induction rule: list_emb.induct) (auto dest: subseq_set_subset)

lemma take_Suc_snoc: "n < length xs \<Longrightarrow> take (Suc n) xs = take n xs @ [xs ! n]"
  by (rule take_Suc_conv_app_nth)

lemma sorted_hd_le: "sorted xs \<Longrightarrow> x \<in> set xs \<Longrightarrow> hd xs \<le> x"
  by (cases xs) auto

lemma sorted_le_last: "sorted xs \<Longrightarrow> x \<in> set xs \<Longrightarrow> x \<le> last xs"
  by (induction xs) (auto split: if_splits)

subsection \<open>Words\<close>

lemma unat_of_nat_small: "n < 2 ^ LENGTH('a) \<Longrightarrow> unat (of_nat n :: 'a::len word) = n"
  by (simp add: unat_of_nat)

end
