(* ===== verification/Frame_Queue.thy ===== *)
theory Frame_Queue
  imports Prelude
begin

text \<open>
  The bounded frame queue of the GStreamer project
  (\<^verbatim>\<open>gstreamer-multithread-pipeline/include/gstpipe/frame_queue.hpp\<close>): a deque under a
  mutex that drops its oldest entry on overflow, with push / pop / drop counters.

  Every public operation holds the mutex from its first to its last access of the deque, so an
  execution of several threads is a sequence of these operations; \<open>q_run\<close> runs such a
  sequence. \<open>fq_pop\<close> is the body of \<open>pop()\<close> after its wait: \<open>None\<close> says that the wait
  predicate is false and the caller blocks (the waiting itself is modelled in \<open>Queue_Threads\<close>).
  \<open>fq_push\<close> returns \<open>None\<close> where the C++ code has undefined behaviour: \<open>pop_front\<close> of an
  empty deque, which a capacity of 0 leads to.

  The locale \<open>drop_oldest_queue\<close> is the contract the pipeline and the RTSP server rely on; its
  lemmas hold for every implementation of the contract and are interpreted on \<open>FrameQueue\<close>.
\<close>

subsection \<open>The queue\<close>

record 'a frame_queue =
  fq_q :: "'a list"
  fq_capacity :: nat
  fq_closed :: bool
  fq_pushed :: u64
  fq_popped :: u64
  fq_dropped :: u64

definition fq_new :: "nat \<Rightarrow> 'a frame_queue" where
  "fq_new capacity =
     \<lparr>fq_q = [], fq_capacity = capacity, fq_closed = False, fq_pushed = 0, fq_popped = 0, fq_dropped = 0\<rparr>"

definition fq_push :: "'a \<Rightarrow> 'a frame_queue \<Rightarrow> (bool \<times> 'a frame_queue) option" where
  "fq_push v s =
     (if fq_closed s then Some (False, s)
      else if fq_capacity s \<le> length (fq_q s)
      then (case fq_q s of
              [] \<Rightarrow> None
            | _ # rest \<Rightarrow> Some (False, s\<lparr>fq_q := rest @ [v], fq_dropped := fq_dropped s + 1,
                                          fq_pushed := fq_pushed s + 1\<rparr>))
      else Some (True, s\<lparr>fq_q := fq_q s @ [v], fq_pushed := fq_pushed s + 1\<rparr>))"

definition fq_pop_ready :: "'a frame_queue \<Rightarrow> bool" where
  "fq_pop_ready s \<longleftrightarrow> fq_q s \<noteq> [] \<or> fq_closed s"

definition fq_try_pop :: "'a frame_queue \<Rightarrow> 'a option \<times> 'a frame_queue" where
  "fq_try_pop s =
     (case fq_q s of
        [] \<Rightarrow> (None, s)
      | v # rest \<Rightarrow> (Some v, s\<lparr>fq_q := rest, fq_popped := fq_popped s + 1\<rparr>))"

definition fq_pop :: "'a frame_queue \<Rightarrow> ('a option \<times> 'a frame_queue) option" where
  "fq_pop s =
     (if fq_pop_ready s
      then Some (case fq_q s of
                   [] \<Rightarrow> (None, s)
                 | v # rest \<Rightarrow> (Some v, s\<lparr>fq_q := rest, fq_popped := fq_popped s + 1\<rparr>))
      else None)"

definition fq_close :: "'a frame_queue \<Rightarrow> 'a frame_queue" where
  "fq_close s = s\<lparr>fq_closed := True\<rparr>"

definition fq_size :: "'a frame_queue \<Rightarrow> nat" where
  "fq_size s = length (fq_q s)"

subsection \<open>Sequences of operations\<close>

datatype 'a qop = QPush 'a | QPop | QTryPop | QClose

text \<open>A sequence of completed operations: the frames delivered, in order, and the final queue.
  A blocked pop and an undefined push do not complete.\<close>

fun q_run :: "('a \<Rightarrow> 's \<Rightarrow> (bool \<times> 's) option) \<Rightarrow> ('s \<Rightarrow> ('a option \<times> 's) option) \<Rightarrow> ('s \<Rightarrow> 'a option \<times> 's) \<Rightarrow>
    ('s \<Rightarrow> 's) \<Rightarrow> 'a qop list \<Rightarrow> 's \<Rightarrow> ('a list \<times> 's) option" where
  "q_run push pop tpop close [] s = Some ([], s)"
| "q_run push pop tpop close (QPush v # ops) s =
     (case push v s of None \<Rightarrow> None | Some (_, s') \<Rightarrow> q_run push pop tpop close ops s')"
| "q_run push pop tpop close (QPop # ops) s =
     (case pop s of
        None \<Rightarrow> None
      | Some (r, s') \<Rightarrow> (case q_run push pop tpop close ops s' of
                           None \<Rightarrow> None
                         | Some (vs, t) \<Rightarrow> Some ((case r of None \<Rightarrow> vs | Some v \<Rightarrow> v # vs), t)))"
| "q_run push pop tpop close (QTryPop # ops) s =
     (case tpop s of
        (r, s') \<Rightarrow> (case q_run push pop tpop close ops s' of
                      None \<Rightarrow> None
                    | Some (vs, t) \<Rightarrow> Some ((case r of None \<Rightarrow> vs | Some v \<Rightarrow> v # vs), t)))"
| "q_run push pop tpop close (QClose # ops) s = q_run push pop tpop close ops (close s)"

text \<open>The frames a sequence offers while the queue is open.\<close>

fun accepted :: "bool \<Rightarrow> 'a qop list \<Rightarrow> 'a list" where
  "accepted c [] = []"
| "accepted c (QPush v # ops) = (if c then accepted c ops else v # accepted c ops)"
| "accepted c (QClose # ops) = accepted True ops"
| "accepted c (_ # ops) = accepted c ops"

definition fq_run :: "'a qop list \<Rightarrow> 'a frame_queue \<Rightarrow> ('a list \<times> 'a frame_queue) option" where
  "fq_run ops s = q_run fq_push fq_pop fq_try_pop fq_close ops s"

text \<open>The accounting invariant of the counters, and the size bound.\<close>

definition fq_inv :: "'a frame_queue \<Rightarrow> bool" where
  "fq_inv s \<longleftrightarrow> 0 < fq_capacity s \<and> length (fq_q s) \<le> fq_capacity s
     \<and> fq_pushed s = fq_popped s + fq_dropped s + of_nat (length (fq_q s))"

subsection \<open>The contract\<close>

locale drop_oldest_queue =
  fixes push :: "'a \<Rightarrow> 's \<Rightarrow> (bool \<times> 's) option"
    and pop :: "'s \<Rightarrow> ('a option \<times> 's) option"
    and tpop :: "'s \<Rightarrow> 'a option \<times> 's"
    and close :: "'s \<Rightarrow> 's"
    and content :: "'s \<Rightarrow> 'a list"
    and cap :: "'s \<Rightarrow> nat"
    and closed :: "'s \<Rightarrow> bool"
  assumes push_closed: "closed s \<Longrightarrow> push v s = Some (False, s)"
    and push_room: "\<not> closed s \<Longrightarrow> length (content s) < cap s \<Longrightarrow>
      \<exists>s'. push v s = Some (True, s') \<and> content s' = content s @ [v] \<and> cap s' = cap s \<and> \<not> closed s'"
    and push_full: "\<not> closed s \<Longrightarrow> length (content s) = cap s \<Longrightarrow> 0 < cap s \<Longrightarrow>
      \<exists>s'. push v s = Some (False, s') \<and> content s' = tl (content s) @ [v] \<and> cap s' = cap s \<and> \<not> closed s'"
    and pop_cons: "content s = v # vs \<Longrightarrow>
      \<exists>s'. pop s = Some (Some v, s') \<and> content s' = vs \<and> cap s' = cap s \<and> closed s' = closed s"
    and pop_drained: "content s = [] \<Longrightarrow> closed s \<Longrightarrow> pop s = Some (None, s)"
    and pop_blocks: "content s = [] \<Longrightarrow> \<not> closed s \<Longrightarrow> pop s = None"
    and tpop_cons: "content s = v # vs \<Longrightarrow>
      \<exists>s'. tpop s = (Some v, s') \<and> content s' = vs \<and> cap s' = cap s \<and> closed s' = closed s"
    and tpop_empty: "content s = [] \<Longrightarrow> tpop s = (None, s)"
    and close_content [simp]: "content (close s) = content s"
    and close_cap [simp]: "cap (close s) = cap s"
    and close_closed [simp]: "closed (close s)"
begin

definition fits :: "'s \<Rightarrow> bool" where
  "fits s \<longleftrightarrow> 0 < cap s \<and> length (content s) \<le> cap s"

lemma push_total:
  assumes "fits s"
  obtains b s' where "push v s = Some (b, s')" "fits s'" "cap s' = cap s" "closed s' = closed s"
    "content s' = (if closed s then content s
       else if length (content s) < cap s then content s @ [v] else tl (content s) @ [v])"
proof -
  consider (c) "closed s" | (r) "\<not> closed s" "length (content s) < cap s"
    | (f) "\<not> closed s" "length (content s) = cap s" "0 < cap s"
    using assms by (force simp: fits_def)
  then show thesis
  proof cases
    case c
    with push_closed [of s v] that assms show thesis by auto
  next
    case r
    with push_room [of s v] that show thesis by (fastforce simp: fits_def)
  next
    case f
    with push_full [of s v] that show thesis by (fastforce simp: fits_def)
  qed
qed

lemma pop_cases:
  assumes "pop s = Some (r, s')"
  obtains v where "r = Some v" "content s = v # content s'" "cap s' = cap s" "closed s' = closed s"
  | "r = None" "s' = s" "content s = []" "closed s"
proof (cases "content s")
  case Nil
  with assms pop_blocks [of s] pop_drained [of s] that(2) show thesis by (cases "closed s") auto
next
  case (Cons v vs)
  with pop_cons [of s v vs] assms that(1) show thesis by auto
qed

lemma tpop_cases:
  assumes "tpop s = (r, s')"
  obtains v where "r = Some v" "content s = v # content s'" "cap s' = cap s" "closed s' = closed s"
  | "r = None" "s' = s" "content s = []"
proof (cases "content s")
  case Nil
  with assms tpop_empty [of s] that(2) show thesis by auto
next
  case (Cons v vs)
  with tpop_cons [of s v vs] assms that(1) show thesis by auto
qed

text \<open>What is stored is always the newest part of what was accepted; what was delivered is a
  subsequence of the part before it.\<close>

definition window :: "'a list \<Rightarrow> 'a list \<Rightarrow> 'a list \<Rightarrow> bool" where
  "window hist out cont \<longleftrightarrow> (\<exists>n \<le> length hist. cont = drop n hist \<and> subseq out (take n hist))"

lemma window_deliver: "window hist out (v # cont) \<Longrightarrow> window hist (out @ [v]) cont"
proof -
  assume "window hist out (v # cont)"
  then obtain n where n: "n \<le> length hist" "v # cont = drop n hist" "subseq out (take n hist)"
    by (auto simp: window_def)
  from n have lt: "n < length hist" by (metis drop_all leI list.distinct(1))
  with n have "v = hist ! n" "cont = drop (Suc n) hist" by (metis Cons_nth_drop_Suc list.inject)+
  moreover have "subseq (out @ [hist ! n]) (take (Suc n) hist)"
    using subseq_snoc [OF n(3)] lt by (simp add: take_Suc_snoc)
  ultimately show ?thesis using lt unfolding window_def by (intro exI [of _ "Suc n"]) simp
qed

lemma window_tl: "window hist out cont \<Longrightarrow> cont \<noteq> [] \<Longrightarrow> window hist out (tl cont)"
proof -
  assume w: "window hist out cont" and "cont \<noteq> []"
  then obtain v vs where c: "cont = v # vs" by (cases cont) auto
  then obtain n where n: "n \<le> length hist" "v # vs = drop n hist" "subseq out (take n hist)"
    using w by (auto simp: window_def)
  from n have lt: "n < length hist" by (metis drop_all leI list.distinct(1))
  then have "vs = drop (Suc n) hist" using n by (metis Cons_nth_drop_Suc list.inject)
  moreover have "subseq out (take (Suc n) hist)"
    using n(3) lt by (simp add: take_Suc_snoc subseq_appendI)
  ultimately show ?thesis using c lt unfolding window_def by (intro exI [of _ "Suc n"]) simp
qed

lemma window_snoc: "window hist out cont \<Longrightarrow> window (hist @ [v]) out (cont @ [v])"
  unfolding window_def by (elim exE conjE, rule_tac x = n in exI) simp

lemma run_window:
  assumes "q_run push pop tpop close ops s = Some (outs, t)" "fits s" "window hist out0 (content s)"
  shows "window (hist @ accepted (closed s) ops) (out0 @ outs) (content t) \<and> fits t \<and> cap t = cap s"
  using assms
proof (induction ops arbitrary: s outs hist out0)
  case Nil
  then show ?case by simp
next
  case (Cons op ops)
  show ?case
  proof (cases op)
    case (QPush v)
    obtain b s' where s': "push v s = Some (b, s')" "fits s'" "cap s' = cap s" "closed s' = closed s"
      "content s' = (if closed s then content s
         else if length (content s) < cap s then content s @ [v] else tl (content s) @ [v])"
      using push_total [OF Cons.prems(2)] by blast
    let ?hist = "if closed s then hist else hist @ [v]"
    have ne: "content s \<noteq> []" if "\<not> length (content s) < cap s"
      using that Cons.prems(2) by (auto simp: fits_def)
    have "window ?hist out0 (content s')"
      using Cons.prems(3) s'(5) ne by (auto intro: window_snoc window_tl)
    from Cons.IH [OF _ s'(2) this, of outs] show ?thesis
      using Cons.prems(1) QPush s' by (auto split: if_splits)
  next
    case QPop
    from Cons.prems(1) QPop obtain r s' vs where
      p: "pop s = Some (r, s')" "q_run push pop tpop close ops s' = Some (vs, t)"
         "outs = (case r of None \<Rightarrow> vs | Some v \<Rightarrow> v # vs)"
      by (auto split: option.splits prod.splits)
    from p(1) show ?thesis
    proof (cases rule: pop_cases)
      case (1 v)
      from Cons.prems(3) have "window hist (out0 @ [v]) (content s')" unfolding 1(2) by (rule window_deliver)
      moreover have "fits s'" using Cons.prems(2) 1 by (auto simp: fits_def)
      ultimately show ?thesis using Cons.IH [OF p(2)] p(3) 1 QPop by fastforce
    next
      case 2
      with Cons.IH [OF p(2)] Cons.prems p(3) QPop show ?thesis by auto
    qed
  next
    case QTryPop
    from Cons.prems(1) QTryPop obtain r s' vs where
      p: "tpop s = (r, s')" "q_run push pop tpop close ops s' = Some (vs, t)"
         "outs = (case r of None \<Rightarrow> vs | Some v \<Rightarrow> v # vs)"
      by (auto split: option.splits prod.splits)
    from p(1) show ?thesis
    proof (cases rule: tpop_cases)
      case (1 v)
      from Cons.prems(3) have "window hist (out0 @ [v]) (content s')" unfolding 1(2) by (rule window_deliver)
      moreover have "fits s'" using Cons.prems(2) 1 by (auto simp: fits_def)
      ultimately show ?thesis using Cons.IH [OF p(2)] p(3) 1 QTryPop by fastforce
    next
      case 2
      with Cons.IH [OF p(2)] Cons.prems p(3) QTryPop show ?thesis by auto
    qed
  next
    case QClose
    with Cons.IH [of "close s" outs hist out0] Cons.prems show ?thesis by (auto simp: fits_def)
  qed
qed

text \<open>A producer that nobody drains keeps exactly the newest \<open>cap\<close> frames.\<close>

lemma push_only:
  assumes "q_run push pop tpop close (map QPush vs) s = Some (outs, t)" "fits s" "\<not> closed s"
  shows "content t = drop (length (content s) + length vs - cap s) (content s @ vs) \<and> outs = []"
  using assms
proof (induction vs arbitrary: s)
  case Nil
  then show ?case by (simp add: fits_def)
next
  case (Cons v vs)
  obtain b s' where s': "push v s = Some (b, s')" "fits s'" "cap s' = cap s" "closed s' = closed s"
      "content s' = (if closed s then content s
         else if length (content s) < cap s then content s @ [v] else tl (content s) @ [v])"
    using push_total [OF Cons.prems(2)] by blast
  have IH: "content t = drop (length (content s') + length vs - cap s') (content s' @ vs) \<and> outs = []"
    using Cons.IH [of s'] Cons.prems s' by auto
  show ?case
  proof (cases "length (content s) < cap s")
    case True
    then show ?thesis using IH s' Cons.prems(3) by auto
  next
    case False
    then have len: "length (content s) = cap s" "0 < cap s" using Cons.prems(2) by (auto simp: fits_def)
    then obtain a as where c: "content s = a # as" by (cases "content s") auto
    have "drop (length vs - length as) [v] @ drop (length vs - cap s) vs = drop (length vs - length as) ([v] @ vs)"
      using len(1) c by (simp only: drop_append) auto
    then show ?thesis using IH s' len Cons.prems(3) by (simp add: c)
  qed
qed

text \<open>After a close, a consumer that pops until it gets nothing receives exactly the frames left,
  in order, and then stops: no pop blocks.\<close>

lemma drain_closed:
  assumes "closed s"
  shows "\<exists>t. q_run push pop tpop close (replicate (Suc (length (content s))) QPop) s = Some (content s, t)
     \<and> content t = [] \<and> pop t = Some (None, t)"
  using assms
proof (induction "content s" arbitrary: s)
  case Nil
  then have "content s = []" by simp
  then show ?case using Nil.prems pop_drained [of s] by auto
next
  case (Cons v vs)
  obtain s' where s': "pop s = Some (Some v, s')" "content s' = vs" "closed s'"
    using pop_cons [of s v vs] Cons.hyps(2) Cons.prems by auto
  have l: "length (content s) = Suc (length (content s'))" using Cons.hyps(2) s'(2) by (metis length_Cons)
  from Cons.hyps(1) [of s'] s' obtain t where
    t: "q_run push pop tpop close (replicate (Suc (length (content s'))) QPop) s' = Some (content s', t)"
       "content t = []" "pop t = Some (None, t)" by blast
  have "q_run push pop tpop close (replicate (Suc (length (content s))) QPop) s = Some (v # content s', t)"
    unfolding l using t(1) s'(1) by (simp del: replicate_Suc add: replicate_Suc [of "Suc _"])
  then show ?case using t Cons.hyps(2) s'(2) by metis
qed

end

subsection \<open>The contract holds for FrameQueue\<close>

lemmas fq_defs = fq_push_def fq_pop_def fq_pop_ready_def fq_try_pop_def fq_close_def fq_size_def

interpretation fq: drop_oldest_queue fq_push fq_pop fq_try_pop fq_close fq_q fq_capacity fq_closed
  by unfold_locales (auto simp: fq_defs split: list.splits)

lemma fits_fq_new [simp]: "0 < cap \<Longrightarrow> fq.fits (fq_new cap)"
  by (simp add: fq.fits_def fq_new_def)

lemma window_fq_new [simp]: "fq.window [] [] (fq_q (fq_new cap))"
  by (simp add: fq.window_def fq_new_def)

subsection \<open>Counters\<close>

lemma fq_inv_new [inv_intros]: "0 < cap \<Longrightarrow> fq_inv (fq_new cap)"
  by (simp add: fq_inv_def fq_new_def)

lemma fq_inv_push [inv_intros]: "fq_inv s \<Longrightarrow> fq_push v s = Some (b, t) \<Longrightarrow> fq_inv t"
  by (auto simp: fq_inv_def fq_push_def split: if_splits list.splits)

lemma fq_inv_try_pop [inv_intros]: "fq_inv s \<Longrightarrow> fq_try_pop s = (r, t) \<Longrightarrow> fq_inv t"
  by (auto simp: fq_inv_def fq_try_pop_def split: list.splits)

lemma fq_inv_pop [inv_intros]: "fq_inv s \<Longrightarrow> fq_pop s = Some (r, t) \<Longrightarrow> fq_inv t"
  by (auto simp: fq_inv_def fq_pop_def split: if_splits list.splits)

lemma fq_inv_close [inv_intros]: "fq_inv s \<Longrightarrow> fq_inv (fq_close s)"
  by (simp add: fq_inv_def fq_close_def)

lemma fq_inv_run: "fq_inv s \<Longrightarrow> q_run fq_push fq_pop fq_try_pop fq_close ops s = Some (outs, t) \<Longrightarrow> fq_inv t"
proof (induction ops arbitrary: s outs)
  case (Cons op ops)
  show ?case
  proof (cases op)
    case (QPush v)
    with Cons show ?thesis by (auto split: option.splits prod.splits dest: fq_inv_push)
  next
    case QPop
    with Cons show ?thesis by (force split: option.splits prod.splits dest: fq_inv_pop)
  next
    case QTryPop
    with Cons show ?thesis by (force split: option.splits prod.splits dest: fq_inv_try_pop)
  next
    case QClose
    with Cons show ?thesis by (auto dest: fq_inv_close)
  qed
qed simp

lemma fq_push_defined: "0 < fq_capacity s \<Longrightarrow> \<exists>b t. fq_push v s = Some (b, t)"
  by (cases "fq_q s") (auto simp: fq_push_def)

lemma fq_run_counts:
  assumes "q_run fq_push fq_pop fq_try_pop fq_close ops s = Some (outs, t)"
  shows "fq_pushed t = fq_pushed s + of_nat (length (accepted (fq_closed s) ops))
    \<and> fq_popped t = fq_popped s + of_nat (length outs)"
  using assms
proof (induction ops arbitrary: s outs)
  case (Cons op ops)
  show ?case
  proof (cases op)
    case (QPush v)
    with Cons.prems obtain b s' where p: "fq_push v s = Some (b, s')"
      and r: "q_run fq_push fq_pop fq_try_pop fq_close ops s' = Some (outs, t)"
      by (auto split: option.splits)
    from p Cons.IH [OF r] QPush show ?thesis
      by (auto simp: fq_push_def split: if_splits list.splits)
  next
    case QPop
    with Cons.prems obtain r s' vs where p: "fq_pop s = Some (r, s')"
      and r: "q_run fq_push fq_pop fq_try_pop fq_close ops s' = Some (vs, t)"
      and o: "outs = (case r of None \<Rightarrow> vs | Some v \<Rightarrow> v # vs)"
      by (auto split: option.splits prod.splits)
    from p o Cons.IH [OF r] QPop show ?thesis
      by (auto simp: fq_pop_def split: if_splits list.splits)
  next
    case QTryPop
    with Cons.prems obtain r s' vs where p: "fq_try_pop s = (r, s')"
      and r: "q_run fq_push fq_pop fq_try_pop fq_close ops s' = Some (vs, t)"
      and o: "outs = (case r of None \<Rightarrow> vs | Some v \<Rightarrow> v # vs)"
      by (auto split: option.splits prod.splits)
    from p o Cons.IH [OF r] QTryPop show ?thesis
      by (auto simp: fq_try_pop_def split: if_splits list.splits)
  next
    case QClose
    with Cons.prems Cons.IH [of "fq_close s" outs] show ?thesis by (simp add: fq_close_def)
  qed
qed simp

subsection \<open>Properties\<close>

text \<open>C1: The frame queue refines a sliding window over the accepted frames. After any
  interleaving of completed push / pop / try-pop / close operations on a fresh queue of positive
  capacity, the queue holds a suffix of the frames accepted so far, at most \<open>capacity\<close> of them,
  and the frames delivered to consumers are, in order and without repetition of a position, a
  subsequence of the accepted frames before that suffix: nothing is reordered, duplicated or
  invented, and what is lost is always older than what is kept.\<close>

theorem fq_refines_window:
  assumes "0 < cap" and "fq_run ops (fq_new cap) = Some (outs, t)"
  shows "\<exists>n \<le> length (accepted False ops). fq_q t = drop n (accepted False ops)
     \<and> subseq outs (take n (accepted False ops)) \<and> length (fq_q t) \<le> cap"
proof -
  have "fq.window (accepted False ops) outs (fq_q t) \<and> fq.fits t \<and> fq_capacity t = cap"
    using fq.run_window [of ops "fq_new cap" outs t "[]" "[]"] assms
    by (simp add: fq_run_def) (simp add: fq_new_def)
  then show ?thesis by (auto simp: fq.window_def fq.fits_def)
qed

theorem fq_refines_window_witness:
  "fq_run [QPush 1, QPush 2, QPush 3, QPop, QClose, QPush 4] (fq_new 2)
     = Some ([2::nat], \<lparr>fq_q = [3], fq_capacity = 2, fq_closed = True, fq_pushed = 3, fq_popped = 1, fq_dropped = 1\<rparr>)
   \<and> (\<exists>n \<le> length [1::nat, 2, 3]. [3::nat] = drop n [1, 2, 3] \<and> subseq [2] (take n [1::nat, 2, 3]) \<and> length [3::nat] \<le> 2)"
proof -
  have run: "fq_run [QPush 1, QPush 2, QPush 3, QPop, QClose, QPush 4] (fq_new 2)
     = Some ([2::nat], \<lparr>fq_q = [3], fq_capacity = 2, fq_closed = True, fq_pushed = 3, fq_popped = 1, fq_dropped = 1\<rparr>)"
    by (simp add: fq_run_def fq_new_def fq_defs)
  show ?thesis using run fq_refines_window [OF _ run] by simp
qed

text \<open>C30: The telemetry counters account for every frame. After any sequence of operations on a
  fresh queue, \<open>pushed()\<close> is the number of accepted frames and \<open>popped()\<close> the number of
  delivered ones, both modulo 2 to the 64, and \<open>pushed = popped + dropped + size\<close> holds as an
  equation of 64-bit words, so it survives wrap-around.\<close>

theorem fq_counters_account:
  assumes "0 < cap" and "fq_run ops (fq_new cap) = Some (outs, t)"
  shows "fq_pushed t = of_nat (length (accepted False ops)) \<and> fq_popped t = of_nat (length outs)
     \<and> fq_pushed t = fq_popped t + fq_dropped t + of_nat (fq_size t)"
proof -
  have "fq_inv t" using fq_inv_run [OF fq_inv_new] assms by (simp add: fq_run_def)
  moreover have "fq_pushed t = of_nat (length (accepted False ops)) \<and> fq_popped t = of_nat (length outs)"
    using fq_run_counts [of ops "fq_new cap" outs t] assms(2) by (simp add: fq_run_def fq_new_def)
  ultimately show ?thesis by (simp add: fq_inv_def fq_size_def)
qed

theorem fq_counters_account_witness:
  "fq_run [QPush 5, QPush 6, QTryPop] (fq_new 1)
     = Some ([6::nat], \<lparr>fq_q = [], fq_capacity = 1, fq_closed = False, fq_pushed = 2, fq_popped = 1, fq_dropped = 1\<rparr>)
   \<and> (2::u64) = 1 + 1 + of_nat 0"
proof -
  have run: "fq_run [QPush 5, QPush 6, QTryPop] (fq_new 1)
     = Some ([6::nat], \<lparr>fq_q = [], fq_capacity = 1, fq_closed = False, fq_pushed = 2, fq_popped = 1, fq_dropped = 1\<rparr>)"
    by (simp add: fq_run_def fq_new_def fq_defs)
  show ?thesis using run fq_counters_account [OF _ run] by (simp add: fq_size_def)
qed

text \<open>A push has undefined behaviour exactly when the queue is open, empty and of capacity 0
  (\<open>pop_front\<close> of an empty deque); in every other state it returns, and its result is true
  exactly when the frame went in without dropping another one.\<close>

lemma fq_push_behaviour:
  "(fq_push v s = None \<longleftrightarrow> \<not> fq_closed s \<and> fq_q s = [] \<and> fq_capacity s = 0)
   \<and> (\<forall>b t. fq_push v s = Some (b, t) \<longrightarrow>
        (b \<longleftrightarrow> \<not> fq_closed s \<and> length (fq_q s) < fq_capacity s)
      \<and> (fq_closed s \<longrightarrow> t = s)
      \<and> (\<not> fq_closed s \<longrightarrow> fq_q t = (if b then fq_q s else tl (fq_q s)) @ [v]))"
  by (cases "fq_q s") (auto simp: fq_push_def split: if_splits)

text \<open>C31: Closing the queue unblocks its consumers. From any closed state, popping once more than
  the queue has frames always completes: it delivers exactly the frames left, in order, and then
  reports the end; afterwards every further pop reports the end again.\<close>

theorem fq_close_drains:
  assumes "fq_closed s"
  shows "\<exists>t. fq_run (replicate (Suc (fq_size s)) QPop) s = Some (fq_q s, t) \<and> fq_q t = []
     \<and> fq_pop t = Some (None, t)"
  using fq.drain_closed [OF assms] by (simp only: fq_run_def fq_size_def)

theorem fq_close_drains_witness:
  "\<exists>t. fq_run [QPop, QPop, QPop] ((fq_close (fq_new 4))\<lparr>fq_q := [8, 9::nat]\<rparr>) = Some ([8, 9], t) \<and> fq_q t = []
     \<and> fq_pop t = Some (None, t)"
proof -
  let ?s = "(fq_close (fq_new 4))\<lparr>fq_q := [8, 9::nat]\<rparr>"
  have c: "fq_closed ?s" and n: "replicate (Suc (fq_size ?s)) QPop = [QPop, QPop, QPop]"
    by (simp_all add: fq_close_def fq_size_def numeral_2_eq_2)
  show ?thesis using fq_close_drains [OF c] unfolding n by simp
qed

end
