(* ===== verification/Transitions.thy ===== *)
theory Transitions
  imports Prelude
begin

text \<open>
  What the step relations of the development share: an invariant of all reachable states, and the bound on the work of one
  thread that runs interleaved with others. The interleaving models (the queue's threads, the frames of the detector, the RTSP feeder)
  interpret these contracts on their own steps.
\<close>

locale invariant_system =
  fixes step :: "'s \<Rightarrow> 's \<Rightarrow> bool" and start :: 's and inv :: "'s \<Rightarrow> bool"
  assumes inv_start: "inv start"
    and inv_step: "step s t \<Longrightarrow> inv s \<Longrightarrow> inv t"
begin

lemma inv_steps: "step\<^sup>*\<^sup>* s t \<Longrightarrow> inv s \<Longrightarrow> inv t"
  by (induction rule: rtranclp_induct) (auto intro: inv_step)

lemma inv_reachable: "step\<^sup>*\<^sup>* start t \<Longrightarrow> inv t"
  using inv_steps inv_start by blast

end

text \<open>An execution in which the thread \<open>own\<close> takes \<open>n\<close> steps and the rest of the program any number.\<close>

inductive interleaving :: "('s \<Rightarrow> 's \<Rightarrow> bool) \<Rightarrow> ('s \<Rightarrow> 's \<Rightarrow> bool) \<Rightarrow> nat \<Rightarrow> 's \<Rightarrow> 's \<Rightarrow> bool" for own env where
  none: "interleaving own env 0 s s"
| mine: "interleaving own env n s t \<Longrightarrow> own t u \<Longrightarrow> interleaving own env (Suc n) s u"
| other: "interleaving own env n s t \<Longrightarrow> env t u \<Longrightarrow> interleaving own env n s u"

text \<open>A thread whose remaining work shrinks with every step of its own and is not raised by the others, and that is never
  stuck before the end, as long as \<open>live\<close> holds.\<close>

locale bounded_thread =
  fixes own env :: "'s \<Rightarrow> 's \<Rightarrow> bool" and live :: "'s \<Rightarrow> bool" and left :: "'s \<Rightarrow> nat"
  assumes own_less: "live s \<Longrightarrow> own s t \<Longrightarrow> left t < left s \<and> live t"
    and env_keeps: "live s \<Longrightarrow> env s t \<Longrightarrow> left t \<le> left s \<and> live t"
    and not_stuck: "live s \<Longrightarrow> 0 < left s \<Longrightarrow> \<exists>t. own s t"
begin

lemma work_bounded: "interleaving own env n s t \<Longrightarrow> live s \<Longrightarrow> n + left t \<le> left s \<and> live t"
proof (induction rule: interleaving.induct)
  case (mine n s t u)
  then show ?case using own_less [of t u] by auto
next
  case (other n s t u)
  then show ?case using env_keeps [of t u] by auto
qed simp

lemma can_finish: "live s \<Longrightarrow> \<exists>n t. interleaving own env n s t \<and> left t = 0"
proof -
  assume "live s"
  have "\<exists>n u. interleaving own env n s u \<and> left u = 0" if "interleaving own env m s t" "live t" for m t
    using that
  proof (induction "left t" arbitrary: m t rule: less_induct)
    case less
    show ?case
    proof (cases "left t")
      case (Suc k)
      then obtain u where "own t u" using not_stuck [OF less.prems(2)] by auto
      note step = own_less [OF less.prems(2) this]
      show ?thesis
        using less.hyps [OF conjunct1 [OF step] interleaving.mine [OF less.prems(1) \<open>own t u\<close>] conjunct2 [OF step]] .
    next
      case 0
      with less.prems(1) show ?thesis by (intro exI conjI)
    qed
  qed
  from this [OF interleaving.none \<open>live s\<close>] show ?thesis .
qed

end

end
