(* ===== verification/Queue_Threads.thy ===== *)
theory Queue_Threads
  imports Frame_Queue Transitions
begin

text \<open>
  The threads around one frame queue: producers that call \<open>push()\<close>, a controller that calls
  \<open>close()\<close>, and consumers blocked in the condition variable of \<open>pop()\<close>
  (\<^verbatim>\<open>frame_queue.hpp\<close>, \<open>push\<close>, \<open>pop\<close>, \<open>close\<close>).

  The lock-protected parts are atomic steps. \<open>notify_one\<close> and \<open>notify_all\<close> are separate
  steps, because the code calls them after the mutex is released: between the two, a producer
  holds a pending notification. A blocked consumer becomes runnable by a notification or
  spuriously, re-acquires the mutex and evaluates the wait predicate again. Consumers are
  interchangeable, so the state keeps the multiset of their program counters.
\<close>

subsection \<open>States and steps\<close>

datatype consumer_pc =
    Running   \<comment> \<open>outside \<open>pop()\<close>\<close>
  | Blocked   \<comment> \<open>in \<open>cv_.wait\<close>, not notified\<close>
  | Woken     \<comment> \<open>notified (or spuriously awake), has to re-acquire the mutex\<close>
  | Finished  \<comment> \<open>\<open>pop()\<close> returned \<open>nullopt\<close>; the consumer left its loop\<close>

record 'a threads =
  th_queue :: "'a frame_queue"
  th_consumers :: "consumer_pc multiset"
  th_notify_one :: nat
  th_notify_all :: nat

definition move :: "consumer_pc \<Rightarrow> consumer_pc \<Rightarrow> consumer_pc multiset \<Rightarrow> consumer_pc multiset" where
  "move a b m = add_mset b (m - {#a#})"

definition after_pop :: "'a option \<Rightarrow> consumer_pc" where
  "after_pop r = (case r of None \<Rightarrow> Finished | Some _ \<Rightarrow> Running)"

inductive th_step :: "'a threads \<Rightarrow> 'a threads \<Rightarrow> bool" where
  push_open: "\<not> fq_closed (th_queue s) \<Longrightarrow> fq_push v (th_queue s) = Some (b, q') \<Longrightarrow>
     th_step s (s\<lparr>th_queue := q', th_notify_one := Suc (th_notify_one s)\<rparr>)"
| push_shut: "fq_closed (th_queue s) \<Longrightarrow> fq_push v (th_queue s) = Some (b, q') \<Longrightarrow>
     th_step s (s\<lparr>th_queue := q'\<rparr>)"
| notify_one_hit: "th_notify_one s = Suc n \<Longrightarrow> Blocked \<in># th_consumers s \<Longrightarrow>
     th_step s (s\<lparr>th_notify_one := n, th_consumers := move Blocked Woken (th_consumers s)\<rparr>)"
| notify_one_miss: "th_notify_one s = Suc n \<Longrightarrow> Blocked \<notin># th_consumers s \<Longrightarrow>
     th_step s (s\<lparr>th_notify_one := n\<rparr>)"
| close_queue: "th_step s (s\<lparr>th_queue := fq_close (th_queue s), th_notify_all := Suc (th_notify_all s)\<rparr>)"
| notify_all: "th_notify_all s = Suc n \<Longrightarrow>
     th_step s (s\<lparr>th_notify_all := n,
        th_consumers := image_mset (\<lambda>c. if c = Blocked then Woken else c) (th_consumers s)\<rparr>)"
| pop_take: "c \<in># th_consumers s \<Longrightarrow> c = Running \<or> c = Woken \<Longrightarrow> fq_pop (th_queue s) = Some (r, q') \<Longrightarrow>
     th_step s (s\<lparr>th_queue := q', th_consumers := move c (after_pop r) (th_consumers s)\<rparr>)"
| pop_wait: "c \<in># th_consumers s \<Longrightarrow> c = Running \<or> c = Woken \<Longrightarrow> fq_pop (th_queue s) = None \<Longrightarrow>
     th_step s (s\<lparr>th_consumers := move c Blocked (th_consumers s)\<rparr>)"
| spurious: "Blocked \<in># th_consumers s \<Longrightarrow>
     th_step s (s\<lparr>th_consumers := move Blocked Woken (th_consumers s)\<rparr>)"

definition th_init :: "nat \<Rightarrow> nat \<Rightarrow> 'a threads" where
  "th_init cap n = \<lparr>th_queue = fq_new cap, th_consumers = replicate_mset n Running,
     th_notify_one = 0, th_notify_all = 0\<rparr>"

inductive th_reachable :: "nat \<Rightarrow> nat \<Rightarrow> 'a threads \<Rightarrow> bool" for cap n where
  start: "th_reachable cap n (th_init cap n)"
| step: "th_reachable cap n s \<Longrightarrow> th_step s t \<Longrightarrow> th_reachable cap n t"

text \<open>While a consumer is blocked, every stored frame is matched by a notification that is still
  on its way or by a consumer that is awake; and a closed queue still owes a \<open>notify_all\<close>.\<close>

definition wake_inv :: "'a threads \<Rightarrow> bool" where
  "wake_inv s \<longleftrightarrow> (Blocked \<in># th_consumers s \<longrightarrow>
      length (fq_q (th_queue s)) \<le> th_notify_one s + count (th_consumers s) Woken
    \<and> (fq_closed (th_queue s) \<longrightarrow> 0 < th_notify_all s))"

subsection \<open>The invariant\<close>

lemma fq_push_shut_id: "fq_closed q \<Longrightarrow> fq_push v q = Some (b, q') \<Longrightarrow> q' = q"
  by (simp add: fq_push_def)

lemma fq_push_open_facts:
  "\<not> fq_closed q \<Longrightarrow> fq_push v q = Some (b, q') \<Longrightarrow>
     length (fq_q q') \<le> Suc (length (fq_q q)) \<and> \<not> fq_closed q'"
  by (auto simp: fq_push_def split: if_splits list.splits)

lemma fq_pop_facts:
  "fq_pop q = Some (r, q') \<Longrightarrow> fq_closed q' = fq_closed q \<and> length (fq_q q') = length (fq_q q) - 1
     \<and> (r = None \<longleftrightarrow> fq_q q = [])"
  by (auto simp: fq_pop_def split: if_splits list.splits)

lemma fq_pop_None: "fq_pop q = None \<longleftrightarrow> fq_q q = [] \<and> \<not> fq_closed q"
  by (simp add: fq_pop_def fq_pop_ready_def)

lemma count_move:
  "c \<in># m \<Longrightarrow> count (move c d m) Woken =
     count m Woken - (if c = Woken then 1 else 0) + (if d = Woken then 1 else 0)"
  by (auto simp: move_def)

lemma blocked_move: "Blocked \<in># move c d m \<Longrightarrow> d = Blocked \<or> Blocked \<in># m"
  by (auto simp: move_def dest: in_diffD)

lemma after_pop_cases: "after_pop r = Running \<or> after_pop r = Finished"
  by (cases r) (auto simp: after_pop_def)

lemma wake_inv_init: "wake_inv (th_init cap n)"
  by (simp add: wake_inv_def th_init_def)

lemma wake_inv_take:
  assumes "wake_inv s" "c \<in># th_consumers s" "c = Running \<or> c = Woken" "fq_pop (th_queue s) = Some (r, q')"
  shows "wake_inv (s\<lparr>th_queue := q', th_consumers := move c (after_pop r) (th_consumers s)\<rparr>)"
proof -
  have ap: "after_pop r \<noteq> Blocked" "after_pop r \<noteq> Woken" using after_pop_cases [of r] by auto
  have "count (th_consumers s) Woken \<le> Suc (count (move c (after_pop r) (th_consumers s)) Woken)"
    using assms(2) ap by (auto simp: count_move)
  then show ?thesis
    using assms(1) fq_pop_facts [OF assms(4)] ap by (auto simp: wake_inv_def dest!: blocked_move)
qed

lemma wake_inv_step: "th_step s t \<Longrightarrow> wake_inv s \<Longrightarrow> wake_inv t"
proof (induction rule: th_step.induct)
  case (push_open s v b q')
  then show ?case using fq_push_open_facts [of "th_queue s" v b q'] by (auto simp: wake_inv_def)
next
  case (push_shut s v b q')
  then show ?case using fq_push_shut_id [OF push_shut.hyps] by simp
next
  case (pop_take c s r q')
  then show ?case by (simp add: wake_inv_take)
next
  case (notify_all s n)
  then show ?case by (auto simp: wake_inv_def split: if_splits)
qed (auto simp: wake_inv_def count_move fq_close_def fq_pop_None dest!: blocked_move)

interpretation wake: invariant_system th_step "th_init cap n" wake_inv
  by unfold_locales (rule wake_inv_init, rule wake_inv_step)

lemma th_reachable_steps: "th_reachable cap n s \<Longrightarrow> th_step\<^sup>*\<^sup>* (th_init cap n) s"
  by (induction rule: th_reachable.induct) auto

lemma wake_inv_reachable: "th_reachable cap n s \<Longrightarrow> wake_inv s"
  using wake.inv_reachable th_reachable_steps by blast

text \<open>No thread appears or vanishes.\<close>

lemma size_move: "c \<in># m \<Longrightarrow> size (move c d m) = size m"
  by (simp add: move_def size_Diff_singleton_if)
     (metis Suc_pred nonempty_has_size empty_iff set_mset_empty)

lemma th_step_size: "th_step s t \<Longrightarrow> size (th_consumers t) = size (th_consumers s)"
  by (induction rule: th_step.induct) (auto simp: size_move)

lemma th_reachable_size: "th_reachable cap n s \<Longrightarrow> size (th_consumers s) = n"
  by (induction rule: th_reachable.induct) (auto simp: th_init_def th_step_size)

subsection \<open>Properties\<close>

text \<open>C2: No wake-up is lost. In every reachable state of any number of producers and consumers
  in which no notification is pending and no consumer is awake inside \<open>pop()\<close>, a consumer that
  is blocked is blocked for a reason: the queue is empty and open. So a stored frame, or a
  close, never leaves a consumer asleep for ever.\<close>

theorem no_lost_wakeup:
  assumes "th_reachable cap n s" and "Blocked \<in># th_consumers s"
    and "th_notify_one s = 0" and "th_notify_all s = 0" and "Woken \<notin># th_consumers s"
  shows "fq_q (th_queue s) = [] \<and> \<not> fq_closed (th_queue s)"
  using wake_inv_reachable [OF assms(1)] assms(2-5)
  by (auto simp: wake_inv_def not_in_iff)

theorem no_lost_wakeup_witness:
  "th_reachable 2 1 ((th_init 2 1)\<lparr>th_consumers := {#Blocked#}\<rparr> :: nat threads)
   \<and> fq_q (fq_new 2 :: nat frame_queue) = [] \<and> \<not> fq_closed (fq_new 2 :: nat frame_queue)"
proof -
  let ?t = "(th_init 2 1)\<lparr>th_consumers := {#Blocked#}\<rparr> :: nat threads"
  have "th_step (th_init 2 1) ?t"
    using th_step.pop_wait [of Running "th_init 2 1 :: nat threads"]
    by (simp add: th_init_def move_def fq_pop_None fq_new_def)
  then have r: "th_reachable 2 1 ?t" by (rule th_reachable.step [OF th_reachable.start])
  show ?thesis using r no_lost_wakeup [OF r] by (simp add: th_init_def)
qed

end
