(* ===== verification/Floats.thy ===== *)
theory Floats
  imports Prelude "HOL-Library.Log_Nat"
begin

text \<open>
  IEEE-754 arithmetic as the C++ sources use it. A finite floating-point value is a rational
  number; every operation is the exact operation on rationals followed by one rounding to
  nearest, ties to even, with precision \<open>p\<close> and least exponent \<open>emin\<close> (gradual underflow
  included). \<open>f32\<close> is the rounding of \<open>float\<close> (24 bits), \<open>f64\<close> that of \<open>double\<close>
  (53 bits). Everything is executable: \<open>code_simp\<close> evaluates a rounding in the kernel.

  What is left out: infinities and NaN. A value whose magnitude leaves the finite range of the
  format, and a division by zero, have no counterpart here; the component theories say where
  they exclude the latter.

  The laws the components use (monotone, idempotent, odd, exact on small integers) are the
  locale \<open>fp_rounding\<close>, interpreted on both formats; \<open>fround_rel_error\<close> bounds the
  relative error.
\<close>

subsection \<open>Definitions\<close>

text \<open>The binade of a positive rational: the exponent \<open>e\<close> with \<open>2 ^ e \<le> x < 2 ^ (e + 1)\<close>.\<close>

definition binade :: "rat \<Rightarrow> int" where
  "binade x = (case quotient_of x of (n, d) \<Rightarrow>
     let e = bitlen n - bitlen d in if 2 powi e \<le> x then e else e - 1)"

text \<open>Round to the nearest integer, ties to even.\<close>

definition rne_int :: "rat \<Rightarrow> int" where
  "rne_int x = (let f = \<lfloor>x\<rfloor>; r = x - of_int f in
     if r < 1/2 then f else if 1/2 < r then f + 1 else if even f then f else f + 1)"

definition fround :: "nat \<Rightarrow> int \<Rightarrow> rat \<Rightarrow> rat" where
  "fround p emin x =
     (if x = 0 then 0
      else let u = 2 powi (max (binade \<bar>x\<bar>) emin - int p + 1) in of_int (rne_int (x / u)) * u)"

definition f32 :: "rat \<Rightarrow> rat" where
  "f32 x = fround 24 (-126) x"

definition f64 :: "rat \<Rightarrow> rat" where
  "f64 x = fround 53 (-1022) x"

text \<open>\<open>int(x)\<close> for a floating-point \<open>x\<close> truncates towards zero; \<open>std::round\<close> rounds
  halves away from zero.\<close>

definition ftrunc :: "rat \<Rightarrow> int" where
  "ftrunc x = (if 0 \<le> x then \<lfloor>x\<rfloor> else \<lceil>x\<rceil>)"

definition cround :: "rat \<Rightarrow> int" where
  "cround x = (if 0 \<le> x then \<lfloor>x + 1/2\<rfloor> else \<lceil>x - 1/2\<rceil>)"

text \<open>\<open>std::clamp(v, lo, hi)\<close>: undefined when \<open>hi < lo\<close>.\<close>

definition std_clamp :: "'a::linorder \<Rightarrow> 'a \<Rightarrow> 'a \<Rightarrow> 'a option" where
  "std_clamp v lo hi = (if hi < lo then None else Some (if v < lo then lo else if hi < v then hi else v))"

text \<open>The exponent and the unit in the last place of a value, and the values of a format.\<close>

definition fexp :: "int \<Rightarrow> rat \<Rightarrow> int" where
  "fexp emin x = max (binade \<bar>x\<bar>) emin"

definition fulp :: "nat \<Rightarrow> int \<Rightarrow> rat \<Rightarrow> rat" where
  "fulp p emin x = 2 powi (fexp emin x - int p + 1)"

definition representable :: "nat \<Rightarrow> int \<Rightarrow> rat \<Rightarrow> bool" where
  "representable p emin x \<longleftrightarrow> (\<exists>m k. x = of_int m * 2 powi k \<and> \<bar>m\<bar> \<le> 2 ^ p \<and> emin - int p + 1 \<le> k)"

subsection \<open>The rounding interface\<close>

locale fp_rounding =
  fixes rnd :: "rat \<Rightarrow> rat" and bnd :: int
  assumes rnd_mono: "x \<le> y \<Longrightarrow> rnd x \<le> rnd y"
    and rnd_idem: "rnd (rnd x) = rnd x"
    and rnd_minus: "rnd (- x) = - rnd x"
    and rnd_int: "\<bar>k\<bar> \<le> bnd \<Longrightarrow> rnd (of_int k) = of_int k"
    and bnd_pos: "1 \<le> bnd"
begin

lemma rnd_0 [simp]: "rnd 0 = 0"
  using rnd_int [of 0] bnd_pos by simp

lemma rnd_1 [simp]: "rnd 1 = 1"
  using rnd_int [of 1] bnd_pos by simp

lemma rnd_nonneg: "0 \<le> x \<Longrightarrow> 0 \<le> rnd x"
  using rnd_mono [of 0 x] by simp

lemma rnd_nonpos: "x \<le> 0 \<Longrightarrow> rnd x \<le> 0"
  using rnd_mono [of x 0] by simp

lemma rnd_le_int: "x \<le> of_int k \<Longrightarrow> \<bar>k\<bar> \<le> bnd \<Longrightarrow> rnd x \<le> of_int k"
  using rnd_mono [of x "of_int k"] by (simp add: rnd_int)

lemma rnd_ge_int: "of_int k \<le> x \<Longrightarrow> \<bar>k\<bar> \<le> bnd \<Longrightarrow> of_int k \<le> rnd x"
  using rnd_mono [of "of_int k" x] by (simp add: rnd_int)

lemma rnd_unit: "0 \<le> x \<Longrightarrow> x \<le> 1 \<Longrightarrow> 0 \<le> rnd x \<and> rnd x \<le> 1"
  using rnd_nonneg rnd_mono [of x 1] by simp

lemma rnd_le_fix: "x \<le> y \<Longrightarrow> rnd y = y \<Longrightarrow> rnd x \<le> y"
  using rnd_mono [of x y] by simp

end

subsection \<open>Binades\<close>

lemma quotient_of_pos: "0 < x \<Longrightarrow> quotient_of x = (n, d) \<Longrightarrow> 0 < n \<and> 0 < d"
  by (metis quotient_of_denom_pos quotient_of_div divide_eq_0_iff of_int_0_less_iff zero_less_divide_iff order_less_asym)

lemma binade_bounds:
  assumes "0 < x"
  shows "2 powi binade x \<le> x \<and> x < 2 powi (binade x + 1)"
proof -
  obtain n d where q: "quotient_of x = (n, d)" by fastforce
  with assms have pos: "0 < n" "0 < d" using quotient_of_pos by auto
  have x: "x = of_int n / of_int d" using q by (rule quotient_of_div)
  have bn: "2 ^ nat (bitlen n - 1) \<le> n" "n < 2 ^ nat (bitlen n)"
    using bitlen_bounds [of n] pos by auto
  have bd: "2 ^ nat (bitlen d - 1) \<le> d" "d < 2 ^ nat (bitlen d)"
    using bitlen_bounds [of d] pos by auto
  have "0 < bitlen n" "0 < bitlen d"
    using pos bitlen_nonneg [of n] bitlen_nonneg [of d] bitlen_eq_zero_iff [of n] bitlen_eq_zero_iff [of d]
    by linarith+
  have pw: "of_int (2 ^ nat k) = (2::rat) powi k" if "0 \<le> k" for k
    using that by (simp add: power_int_def)
  have rn: "(2::rat) powi (bitlen n - 1) \<le> of_int n" "of_int n < (2::rat) powi bitlen n"
    using bn \<open>0 < bitlen n\<close> pw [of "bitlen n - 1"] pw [of "bitlen n"]
    by (metis of_int_le_iff int_one_le_iff_zero_less diff_ge_0_iff_ge, metis of_int_less_iff order_less_imp_le)
  have rd: "(2::rat) powi (bitlen d - 1) \<le> of_int d" "of_int d < (2::rat) powi bitlen d"
    using bd \<open>0 < bitlen d\<close> pw [of "bitlen d - 1"] pw [of "bitlen d"]
    by (metis of_int_le_iff int_one_le_iff_zero_less diff_ge_0_iff_ge, metis of_int_less_iff order_less_imp_le)
  let ?e = "bitlen n - bitlen d"
  have p0: "(0::rat) < 2 powi k" for k by (simp add: zero_less_power_int)
  have up: "x < 2 powi (?e + 1)"
  proof -
    have "2 powi bitlen n = (2::rat) powi (?e + 1) * 2 powi (bitlen d - 1)"
      by (simp add: power_int_add [symmetric])
    also have "\<dots> \<le> 2 powi (?e + 1) * of_int d" using rd(1) p0 [of "?e + 1"] by simp
    finally have "of_int n < (2::rat) powi (?e + 1) * of_int d" using rn(2) by linarith
    then show ?thesis using pos by (simp add: x divide_less_eq)
  qed
  have lo: "2 powi (?e - 1) \<le> x"
  proof -
    have "2 powi (?e - 1) * of_int d \<le> (2::rat) powi (?e - 1) * 2 powi bitlen d"
      using rd(2) p0 [of "?e - 1"] by simp
    also have "\<dots> = 2 powi (bitlen n - 1)" by (simp add: power_int_add [symmetric])
    finally have "2 powi (?e - 1) * of_int d \<le> (of_int n :: rat)" using rn(1) by linarith
    then show ?thesis using pos by (simp add: x le_divide_eq)
  qed
  show ?thesis using lo up by (auto simp: binade_def q Let_def)
qed

lemma powi2_mono: "a \<le> b \<Longrightarrow> (2::rat) powi a \<le> 2 powi b"
  by (rule power_int_increasing) auto

lemma powi2_less_imp: "(2::rat) powi a < 2 powi b \<Longrightarrow> a < b"
  using powi2_mono [of b a] by linarith

lemma powi2_pos [simp]: "(0::rat) < 2 powi a"
  by (simp add: zero_less_power_int)

lemma binade_mono: "0 < x \<Longrightarrow> x \<le> y \<Longrightarrow> binade x \<le> binade y"
  using binade_bounds [of x] binade_bounds [of y] powi2_less_imp [of "binade x" "binade y + 1"]
  by fastforce

lemma binade_eqI:
  assumes "2 powi e \<le> x" "x < 2 powi (e + 1)"
  shows "binade x = e"
proof -
  have "0 < x" using assms(1) powi2_pos [of e] by linarith
  then show ?thesis
    using binade_bounds [of x] assms powi2_less_imp [of e "binade x + 1"] powi2_less_imp [of "binade x" "e + 1"]
    by fastforce
qed

subsection \<open>Monotonicity\<close>

lemma rne_int_mono: "x \<le> y \<Longrightarrow> rne_int x \<le> rne_int y"
proof -
  assume le: "x \<le> y"
  then have fl: "\<lfloor>x\<rfloor> \<le> \<lfloor>y\<rfloor>" by (rule floor_mono)
  have r: "rne_int z = \<lfloor>z\<rfloor> \<or> rne_int z = \<lfloor>z\<rfloor> + 1" for z by (auto simp: rne_int_def Let_def)
  show ?thesis
  proof (cases "\<lfloor>x\<rfloor> = \<lfloor>y\<rfloor>")
    case True
    with le show ?thesis by (auto simp: rne_int_def Let_def)
  next
    case False
    with fl r [of x] r [of y] show ?thesis by auto
  qed
qed

lemma rne_int_of_int [simp]: "rne_int (of_int k) = k"
  by (simp add: rne_int_def)

lemma rne_int_err: "\<bar>of_int (rne_int x) - x\<bar> \<le> 1/2"
proof -
  define f where "f = \<lfloor>x\<rfloor>"
  have "of_int f \<le> x" "x < of_int f + 1" unfolding f_def using floor_correct [of x] by auto
  then show ?thesis unfolding rne_int_def Let_def f_def [symmetric] by (auto simp: abs_if)
qed

lemma rne_int_minus: "rne_int (- x) = - rne_int x"
proof (cases "x = of_int \<lfloor>x\<rfloor>")
  case True
  then show ?thesis by (metis of_int_minus rne_int_of_int)
next
  case False
  then have fl: "\<lfloor>- x\<rfloor> = - \<lfloor>x\<rfloor> - 1" by (simp add: floor_minus ceiling_altdef)
  show ?thesis unfolding rne_int_def Let_def fl by (auto simp: field_simps)
qed

lemma fround_0 [simp]: "fround p emin 0 = 0"
  by (simp add: fround_def)

lemma fround_minus: "fround p emin (- x) = - fround p emin x"
  by (simp add: fround_def Let_def rne_int_minus)


lemma fround_alt: "x \<noteq> 0 \<Longrightarrow> fround p emin x = of_int (rne_int (x / fulp p emin x)) * fulp p emin x"
  by (simp add: fround_def fulp_def fexp_def Let_def)

lemma fulp_pos [simp]: "0 < fulp p emin x"
  by (simp add: fulp_def)

lemma fulp_nz [simp]: "fulp p emin x \<noteq> 0"
  using fulp_pos [of p emin x] by linarith

lemma powi2_mult: "(2::rat) powi a * 2 powi b = 2 powi (a + b)"
  by (simp add: power_int_add)

lemma pow2_powi: "(2::rat) ^ n = 2 powi int n"
  by (simp add: power_int_def)

lemma fulp_scale: "2 ^ p * fulp p emin x = 2 powi (fexp emin x + 1)"
  unfolding fulp_def pow2_powi powi2_mult by (rule arg_cong [where f = "\<lambda>k. 2 powi k"]) simp

lemma fulp_scale': "1 \<le> p \<Longrightarrow> 2 ^ (p - 1) * fulp p emin x = 2 powi fexp emin x"
  unfolding fulp_def pow2_powi powi2_mult by (rule arg_cong [where f = "\<lambda>k. 2 powi k"]) simp

lemma rat_of_int_le: "a \<le> b \<Longrightarrow> (of_int a :: rat) \<le> of_int b"
  by simp

lemma fround_upper:
  assumes "0 < x"
  shows "fround p emin x \<le> 2 powi (fexp emin x + 1)"
proof -
  have "x < 2 powi (binade x + 1)" using binade_bounds [OF assms] by simp
  also have "\<dots> \<le> 2 powi (fexp emin x + 1)" using assms by (intro powi2_mono) (simp add: fexp_def)
  finally have "x / fulp p emin x \<le> of_int (2 ^ p)"
    by (simp add: pos_divide_le_eq fulp_scale less_imp_le)
  then have "rne_int (x / fulp p emin x) \<le> 2 ^ p"
    using rne_int_mono rne_int_of_int by metis
  from mult_right_mono [OF rat_of_int_le [OF this], of "fulp p emin x"]
  have "of_int (rne_int (x / fulp p emin x)) * fulp p emin x \<le> 2 ^ p * fulp p emin x"
    by (simp add: less_imp_le)
  then show ?thesis using assms by (simp add: fround_alt fulp_scale)
qed

lemma fround_lower:
  assumes "0 < x" "1 \<le> p" "emin \<le> binade x"
  shows "2 powi binade x \<le> fround p emin x"
proof -
  have e: "fexp emin x = binade x" using assms by (simp add: fexp_def)
  have "2 ^ (p - 1) * fulp p emin x \<le> x"
    using binade_bounds [OF assms(1)] fulp_scale' [OF assms(2), of emin x] e by simp
  then have "of_int (2 ^ (p - 1)) \<le> x / fulp p emin x" by (simp add: pos_le_divide_eq)
  then have "2 ^ (p - 1) \<le> rne_int (x / fulp p emin x)" using rne_int_mono rne_int_of_int by metis
  from mult_right_mono [OF rat_of_int_le [OF this], of "fulp p emin x"]
  have "2 ^ (p - 1) * fulp p emin x \<le> of_int (rne_int (x / fulp p emin x)) * fulp p emin x"
    by (simp add: less_imp_le)
  then show ?thesis unfolding fulp_scale' [OF assms(2)] e using assms by (simp add: fround_alt)
qed

lemma fround_nonneg: "0 \<le> x \<Longrightarrow> 0 \<le> fround p emin x"
proof (cases "x = 0")
  case False
  assume "0 \<le> x"
  then have "0 \<le> x / fulp p emin x" by (simp add: less_imp_le)
  then have "0 \<le> rne_int (x / fulp p emin x)" using rne_int_mono [of 0] rne_int_of_int [of 0] by simp
  with False show ?thesis by (simp add: fround_alt less_imp_le)
qed simp

lemma fround_mono_pos:
  assumes "0 < x" "x \<le> y" "1 \<le> p"
  shows "fround p emin x \<le> fround p emin y"
proof (cases "fexp emin x = fexp emin y")
  case True
  then have u: "fulp p emin x = fulp p emin y" by (simp add: fulp_def)
  have "rne_int (x / fulp p emin y) \<le> rne_int (y / fulp p emin y)"
    using assms by (intro rne_int_mono divide_right_mono) (auto simp: less_imp_le)
  then show ?thesis using assms by (simp add: fround_alt u)
next
  case False
  have "binade x \<le> binade y" using assms by (intro binade_mono)
  then have lt: "fexp emin x + 1 \<le> fexp emin y" and ey: "fexp emin y = binade y" and em: "emin \<le> binade y"
    using False assms by (auto simp: fexp_def max_def split: if_splits)
  have "fround p emin x \<le> 2 powi (fexp emin x + 1)" using assms(1) by (rule fround_upper)
  also have "\<dots> \<le> 2 powi binade y" using lt ey by (intro powi2_mono) simp
  also have "\<dots> \<le> fround p emin y" using assms em by (intro fround_lower) auto
  finally show ?thesis .
qed

lemma fround_mono:
  assumes "x \<le> y" "1 \<le> p"
  shows "fround p emin x \<le> fround p emin y"
proof (cases "0 < x")
  case True
  then show ?thesis using assms by (intro fround_mono_pos)
next
  case False
  show ?thesis
  proof (cases "0 \<le> y")
    case True
    have "0 \<le> fround p emin (- x)" using False by (intro fround_nonneg) simp
    then have "fround p emin x \<le> 0" by (simp add: fround_minus)
    also have "0 \<le> fround p emin y" using True by (rule fround_nonneg)
    finally show ?thesis .
  next
    case neg: False
    have "fround p emin (- y) \<le> fround p emin (- x)" using neg assms by (intro fround_mono_pos) auto
    then show ?thesis by (simp add: fround_minus)
  qed
qed

subsection \<open>Exactness, idempotence and error of the rounding\<close>

lemma fround_exact_pos:
  assumes "0 < x" "1 \<le> p" "x = of_int m * 2 powi k" "m \<le> 2 ^ p" "emin - int p + 1 \<le> k"
  shows "fround p emin x = x"
proof -
  have "\<exists>j. x / fulp p emin x = of_int j"
  proof (cases "fexp emin x - int p + 1 \<le> k")
    case True
    let ?d = "nat (k - (fexp emin x - int p + 1))"
    have "(2::rat) powi k = 2 ^ ?d * fulp p emin x"
      unfolding fulp_def pow2_powi powi2_mult using True by (intro arg_cong [where f = "\<lambda>k. 2 powi k"]) simp
    then have "x = of_int (m * 2 ^ ?d) * fulp p emin x" using assms(3) by simp
    then have "x / fulp p emin x = of_int (m * 2 ^ ?d)" using fulp_pos [of p emin x] by (metis less_irrefl nonzero_mult_div_cancel_right)
    then show ?thesis by blast
  next
    case False
    then have big: "k + int p \<le> binade x" and e: "fexp emin x = binade x"
      using assms(1,5) by (auto simp: fexp_def max_def split: if_splits)
    have pw: "(2::rat) ^ p * 2 powi k = 2 powi (k + int p)"
      unfolding pow2_powi powi2_mult by (simp add: add.commute)
    have "x \<le> 2 ^ p * 2 powi k"
      using mult_right_mono [OF rat_of_int_le [OF assms(4)], of "2 powi k"] assms(3) by (simp add: less_imp_le)
    moreover have "2 powi (k + int p) \<le> x"
      using binade_bounds [OF assms(1)] powi2_mono [OF big] by linarith
    ultimately have x: "x = 2 powi (k + int p)" using pw by simp
    then have "binade x = k + int p" by (intro binade_eqI) (auto simp: power_int_add)
    then have "of_int (2 ^ (p - 1)) * fulp p emin x = x" using x fulp_scale' [OF assms(2), of emin x] e by simp
    then have "x / fulp p emin x = of_int (2 ^ (p - 1))"
      using fulp_pos [of p emin x] by (metis less_irrefl nonzero_mult_div_cancel_right)
    then show ?thesis by blast
  qed
  then obtain j where j: "x / fulp p emin x = of_int j" by blast
  have "fround p emin x = of_int j * fulp p emin x" using assms(1) by (simp add: fround_alt j)
  also have "\<dots> = x" by (simp flip: j)
  finally show ?thesis .
qed

lemma fround_exact:
  assumes "representable p emin x" "1 \<le> p"
  shows "fround p emin x = x"
proof -
  obtain m k where x: "x = of_int m * 2 powi k" "\<bar>m\<bar> \<le> 2 ^ p" "emin - int p + 1 \<le> k"
    using assms(1) by (auto simp: representable_def)
  consider "x = 0" | "0 < x" | "0 < - x" by linarith
  then show ?thesis
  proof cases
    case 2
    then show ?thesis using x assms(2) by (intro fround_exact_pos [of _ _ m k]) auto
  next
    case 3
    then have "fround p emin (- x) = - x"
      using x assms(2) by (intro fround_exact_pos [of _ _ "- m" k]) auto
    then show ?thesis by (simp add: fround_minus)
  qed simp
qed

lemma fround_representable:
  assumes "1 \<le> p"
  shows "representable p emin (fround p emin x)"
proof -
  have pos: "representable p emin (fround p emin x)" if "0 < x" for x
  proof -
    have "fround p emin x \<le> 2 ^ p * fulp p emin x" using fround_upper [OF that] by (simp add: fulp_scale)
    then have "(of_int (rne_int (x / fulp p emin x)) :: rat) \<le> of_int (2 ^ p)"
      using that by (simp add: fround_alt)
    then have "rne_int (x / fulp p emin x) \<le> 2 ^ p" by (simp only: of_int_le_iff)
    moreover have "0 \<le> rne_int (x / fulp p emin x)"
      using rne_int_mono [of 0 "x / fulp p emin x"] rne_int_of_int [of 0] that by (simp add: less_imp_le)
    ultimately show ?thesis unfolding representable_def using that
      by (intro exI [of _ "rne_int (x / fulp p emin x)"] exI [of _ "fexp emin x - int p + 1"])
        (auto simp: fround_alt fulp_def fexp_def)
  qed
  have neg: "representable p emin (- y)" if "representable p emin y" for y
    using that unfolding representable_def by (metis abs_minus_cancel mult_minus_left of_int_minus)
  consider "x = 0" | "0 < x" | "0 < - x" by linarith
  then show ?thesis
  proof cases
    case 1
    then show ?thesis unfolding representable_def by (intro exI [of _ "0::int"] exI [of _ "emin - int p + 1"]) simp
  next
    case 2
    then show ?thesis by (rule pos)
  next
    case 3
    then have "representable p emin (- fround p emin (- x))" by (intro neg pos)
    then show ?thesis by (simp add: fround_minus)
  qed
qed

lemma fround_idem: "1 \<le> p \<Longrightarrow> fround p emin (fround p emin x) = fround p emin x"
  by (intro fround_exact fround_representable)

lemma fround_of_int: "\<bar>k\<bar> \<le> 2 ^ p \<Longrightarrow> 1 \<le> p \<Longrightarrow> emin \<le> int p - 1 \<Longrightarrow> fround p emin (of_int k) = of_int k"
  by (intro fround_exact) (force simp: representable_def intro: exI [of _ k] exI [of _ "0::int"])

lemma fround_error: "\<bar>fround p emin x - x\<bar> \<le> fulp p emin x / 2"
proof (cases "x = 0")
  case False
  have "\<bar>of_int (rne_int (x / fulp p emin x)) - x / fulp p emin x\<bar> * fulp p emin x \<le> 1/2 * fulp p emin x"
    by (intro mult_right_mono rne_int_err) (simp add: less_imp_le)
  also have "\<bar>of_int (rne_int (x / fulp p emin x)) - x / fulp p emin x\<bar> * fulp p emin x
    = \<bar>(of_int (rne_int (x / fulp p emin x)) - x / fulp p emin x) * fulp p emin x\<bar>"
    by (simp add: abs_mult less_imp_le)
  also have "(of_int (rne_int (x / fulp p emin x)) - x / fulp p emin x) * fulp p emin x = fround p emin x - x"
    using False fulp_pos [of p emin x] by (simp add: fround_alt algebra_simps)
  finally show ?thesis by simp
qed (simp add: less_imp_le)

lemma fround_rel_error:
  assumes "2 powi emin \<le> \<bar>x\<bar>" "1 \<le> p"
  shows "\<bar>fround p emin x - x\<bar> \<le> \<bar>x\<bar> / 2 ^ p"
proof -
  have x0: "0 < \<bar>x\<bar>" using assms(1) powi2_pos [of emin] by linarith
  have "emin \<le> binade \<bar>x\<bar>"
    using binade_bounds [OF x0] assms(1) powi2_less_imp [of emin "binade \<bar>x\<bar> + 1"] by fastforce
  then have "fexp emin x = binade \<bar>x\<bar>" by (simp add: fexp_def)
  then have "2 ^ (p - 1) * fulp p emin x \<le> \<bar>x\<bar>" using binade_bounds [OF x0] fulp_scale' [OF assms(2), of emin x] by simp
  moreover have "(2::rat) ^ p = 2 * 2 ^ (p - 1)" using assms(2) by (cases p) auto
  ultimately have "fulp p emin x / 2 \<le> \<bar>x\<bar> / 2 ^ p" by (simp add: field_simps)
  then show ?thesis using fround_error [of p emin x] by linarith
qed

subsection \<open>The two formats\<close>

interpretation f32: fp_rounding f32 "2 ^ 24"
  by unfold_locales (auto simp: f32_def fround_mono fround_idem fround_minus intro: fround_of_int)

interpretation f64: fp_rounding f64 "2 ^ 53"
  by unfold_locales (auto simp: f64_def fround_mono fround_idem fround_minus intro: fround_of_int)

lemma f32_rel_error: "2 powi (-126) \<le> \<bar>x\<bar> \<Longrightarrow> \<bar>f32 x - x\<bar> \<le> \<bar>x\<bar> / 2 ^ 24"
  unfolding f32_def by (rule fround_rel_error) auto

subsection \<open>Conversions and clamps\<close>

lemma std_clamp_Some_iff:
  "std_clamp v lo hi = Some r \<longleftrightarrow> lo \<le> hi \<and> r = max lo (min v hi)"
  by (auto simp: std_clamp_def max_def min_def)

lemma std_clamp_bounds: "std_clamp v lo hi = Some r \<Longrightarrow> lo \<le> r \<and> r \<le> hi"
  by (auto simp: std_clamp_Some_iff)

lemma std_clamp_id: "lo \<le> v \<Longrightarrow> v \<le> hi \<Longrightarrow> std_clamp v lo hi = Some v"
  by (auto simp: std_clamp_Some_iff)

lemma ftrunc_of_int [simp]: "ftrunc (of_int k) = k"
  by (simp add: ftrunc_def)

lemma ftrunc_nonneg: "0 \<le> x \<Longrightarrow> 0 \<le> ftrunc x"
  by (simp add: ftrunc_def)

lemma ftrunc_le: "0 \<le> x \<Longrightarrow> of_int (ftrunc x) \<le> x"
  by (simp add: ftrunc_def)

lemma ftrunc_mono: "x \<le> y \<Longrightarrow> ftrunc x \<le> ftrunc y"
proof (cases "0 \<le> x \<or> y < 0")
  case False
  then have "\<lceil>x\<rceil> \<le> 0" "0 \<le> \<lfloor>y\<rfloor>" by (simp_all add: ceiling_le_iff)
  then have "\<lceil>x\<rceil> \<le> \<lfloor>y\<rfloor>" by linarith
  with False show ?thesis by (simp add: ftrunc_def)
next
  case True
  assume "x \<le> y"
  with True show ?thesis by (auto simp: ftrunc_def intro: floor_mono ceiling_mono)
qed

lemma cround_le: "x < of_int k + 1/2 \<Longrightarrow> 0 \<le> k \<Longrightarrow> cround x \<le> k"
  by (auto simp: cround_def floor_le_iff ceiling_le_iff)

lemma cround_ge: "of_int k - 1/2 \<le> x \<Longrightarrow> 0 \<le> x \<Longrightarrow> k \<le> cround x"
  by (auto simp: cround_def le_floor_iff)

lemma cround_of_int [simp]: "cround (of_int k) = k"
  by (auto simp: cround_def floor_eq_iff ceiling_eq_iff)

end
