(* ===== verification/Rolling_Window.thy ===== *)
theory Rolling_Window
  imports Floats
begin

text \<open>
  The rolling sample window shared by two classes of the repository: \<open>gstpipe::LatencyTracker\<close>
  and \<open>edge_ai::RollingStats\<close> keep the same ring buffer of doubles (append until the window is
  full, then overwrite at a cursor) with an all-time count and sum. The locale
  \<open>ring_window\<close> states what one \<open>add\<close> does to these fields; its lemmas relate the state after
  any sequence of samples to the sequence itself. Both classes interpret it.

  \<open>pct_index\<close> is the index \<open>std::min(n - 1, std::size_t(n * p))\<close> both classes use for a
  percentile, with the multiplication in double precision.
\<close>

subsection \<open>Definitions\<close>

definition fsum :: "rat list \<Rightarrow> rat" where
  "fsum xs = foldl (\<lambda>a v. f64 (a + v)) 0 xs"

text \<open>The last \<open>w\<close> samples.\<close>

definition newest :: "nat \<Rightarrow> 'v list \<Rightarrow> 'v list" where
  "newest w xs = drop (length xs - w) xs"

definition pct_index :: "rat \<Rightarrow> nat \<Rightarrow> nat" where
  "pct_index p n = min (n - 1) (nat (ftrunc (f64 (f64 (of_nat n) * p))))"

subsection \<open>Percentile index\<close>

lemma mset_rotate_id: "mset (rotate n xs) = mset xs"
  by (metis append_take_drop_id mset_append rotate_drop_take union_commute)

lemma pct_index_less: "0 < n \<Longrightarrow> pct_index p n < n"
  by (auto simp: pct_index_def)

lemma pct_index_mono: "p \<le> q \<Longrightarrow> pct_index p n \<le> pct_index q n"
proof -
  assume "p \<le> q"
  have "0 \<le> f64 (of_nat n)" by (intro f64.rnd_nonneg) simp
  with \<open>p \<le> q\<close> have "f64 (f64 (of_nat n) * p) \<le> f64 (f64 (of_nat n) * q)"
    by (intro f64.rnd_mono mult_left_mono)
  then have "nat (ftrunc (f64 (f64 (of_nat n) * p))) \<le> nat (ftrunc (f64 (f64 (of_nat n) * q)))"
    by (intro nat_mono ftrunc_mono)
  then show ?thesis by (simp add: pct_index_def)
qed

lemma sort_nth_pct_mono: "xs \<noteq> [] \<Longrightarrow> p \<le> q \<Longrightarrow> sort xs ! pct_index p (length xs) \<le> sort xs ! pct_index q (length xs)"
  by (intro sorted_nth_mono) (auto simp: pct_index_less pct_index_mono)

lemma sort_nth_pct_bounds:
  "xs \<noteq> [] \<Longrightarrow> hd (sort xs) \<le> sort xs ! pct_index p (length xs) \<and> sort xs ! pct_index p (length xs) \<le> last (sort xs)"
proof -
  assume "xs \<noteq> []"
  then have "sort xs ! pct_index p (length xs) \<in> set (sort xs)" by (intro nth_mem) (simp add: pct_index_less)
  then show ?thesis using sorted_hd_le [of "sort xs"] sorted_le_last [of "sort xs"] by simp
qed

lemma hd_sort_Min: "xs \<noteq> [] \<Longrightarrow> hd (sort xs) = Min (set xs)"
proof -
  assume "xs \<noteq> []"
  then have "hd (sort xs) \<in> set (sort xs)" by (intro hd_in_set) (metis set_empty set_sort)
  then show ?thesis using sorted_hd_le [of "sort xs"] by (intro Min_eqI [symmetric]) auto
qed

lemma last_sort_Max: "xs \<noteq> [] \<Longrightarrow> last (sort xs) = Max (set xs)"
proof -
  assume "xs \<noteq> []"
  then have "last (sort xs) \<in> set (sort xs)" by (intro last_in_set) (metis set_empty set_sort)
  then show ?thesis using sorted_le_last [of "sort xs"] by (intro Max_eqI [symmetric]) auto
qed

lemma newest_length: "length (newest w xs) = min (length xs) w"
  by (simp add: newest_def)

lemma fsum_snoc: "fsum (xs @ [v]) = f64 (fsum xs + v)"
  by (simp add: fsum_def)

subsection \<open>The ring buffer contract\<close>

locale ring_window =
  fixes add :: "rat \<Rightarrow> 's \<Rightarrow> 's option"
    and buf :: "'s \<Rightarrow> rat list"
    and win :: "'s \<Rightarrow> nat"
    and cursor :: "'s \<Rightarrow> nat"
    and total :: "'s \<Rightarrow> u64"
    and sum :: "'s \<Rightarrow> rat"
  assumes add_room: "length (buf s) < win s \<Longrightarrow>
      \<exists>t. add v s = Some t \<and> buf t = buf s @ [v] \<and> win t = win s \<and> cursor t = (cursor s + 1) mod win s
        \<and> total t = total s + 1 \<and> sum t = f64 (sum s + v)"
    and add_full: "length (buf s) = win s \<Longrightarrow> cursor s < win s \<Longrightarrow>
      \<exists>t. add v s = Some t \<and> buf t = (buf s)[cursor s := v] \<and> win t = win s
        \<and> cursor t = (cursor s + 1) mod win s \<and> total t = total s + 1 \<and> sum t = f64 (sum s + v)"
begin

definition ring :: "'s \<Rightarrow> rat list \<Rightarrow> bool" where
  "ring s xs \<longleftrightarrow> 0 < win s \<and> length (buf s) = min (length xs) (win s) \<and> cursor s = length xs mod win s
     \<and> (\<forall>k. length xs - win s \<le> k \<and> k < length xs \<longrightarrow> buf s ! (k mod win s) = xs ! k)
     \<and> total s = of_nat (length xs) \<and> sum s = fsum xs"

lemma ring_add:
  assumes "ring s xs"
  shows "\<exists>t. add v s = Some t \<and> ring t (xs @ [v]) \<and> win t = win s"
proof (cases "length xs < win s")
  case True
  with assms have "length (buf s) < win s" by (simp add: ring_def)
  then obtain t where t: "add v s = Some t" "buf t = buf s @ [v]" "win t = win s"
    "cursor t = (cursor s + 1) mod win s" "total t = total s + 1" "sum t = f64 (sum s + v)"
    using add_room by blast
  have "ring t (xs @ [v])"
    using assms True t by (auto simp: ring_def fsum_snoc nth_append mod_Suc_eq less_Suc_eq)
  with t show ?thesis by blast
next
  case False
  let ?n = "length xs" and ?w = "win s"
  have w: "0 < ?w" and l: "length (buf s) = ?w" and c: "cursor s = ?n mod ?w"
    using assms False by (auto simp: ring_def)
  then obtain t where t: "add v s = Some t" "buf t = (buf s)[cursor s := v]" "win t = ?w"
    "cursor t = (cursor s + 1) mod ?w" "total t = total s + 1" "sum t = f64 (sum s + v)"
    using add_full [OF l, of v] by auto
  have "buf t ! (k mod ?w) = (xs @ [v]) ! k" if k: "Suc ?n - ?w \<le> k" "k < Suc ?n" for k
  proof (cases "k = ?n")
    case True
    then show ?thesis using t c l w by simp
  next
    case ne: False
    then have lt: "k < ?n" "?n - ?w < k \<or> ?n - ?w \<le> k" "?n - k < ?w" using k False w by auto
    have "k mod ?w \<noteq> ?n mod ?w"
    proof
      assume "k mod ?w = ?n mod ?w"
      then have "?w dvd ?n - k" using mod_eq_dvd_iff_nat [of k ?n ?w] lt(1) by simp
      then show False using lt(1,3) by (auto dest: dvd_imp_le)
    qed
    then show ?thesis using assms lt k t c by (simp add: ring_def nth_append)
  qed
  then have "ring t (xs @ [v])"
    using assms False t l c w by (auto simp: ring_def fsum_snoc mod_Suc_eq min_def)
  with t show ?thesis by blast
qed

lemma ring_for_each:
  "ring s xs \<Longrightarrow> \<exists>t. for_each add vs s = Some t \<and> ring t (xs @ vs) \<and> win t = win s"
proof (induction vs arbitrary: s xs)
  case (Cons v vs)
  obtain t where "add v s = Some t" "ring t (xs @ [v])" "win t = win s" using ring_add [OF Cons.prems] by blast
  with Cons.IH [of t "xs @ [v]"] show ?case by auto
qed simp

text \<open>A full ring is the newest samples, rotated by the cursor.\<close>

lemma ring_rotate:
  assumes "ring s xs"
  shows "rotate (if length xs < win s then 0 else cursor s) (buf s) = newest (win s) xs"
proof (cases "length xs < win s")
  case True
  have "buf s = xs"
    using assms True by (intro nth_equalityI) (auto simp: ring_def)
  with True show ?thesis by (simp add: newest_def)
next
  case False
  let ?n = "length xs" and ?w = "win s"
  have w: "0 < ?w" "length (buf s) = ?w" "cursor s = ?n mod ?w" using assms False by (auto simp: ring_def)
  have "rotate (?n mod ?w) (buf s) ! i = newest ?w xs ! i" if "i < ?w" for i
  proof -
    have "rotate (?n mod ?w) (buf s) ! i = buf s ! ((?n + i) mod ?w)"
      using that w by (simp add: nth_rotate mod_add_left_eq)
    also have "(?n + i) mod ?w = (?n - ?w + i) mod ?w"
      using False by (metis add.commute add.left_commute le_add_diff_inverse2 linorder_not_less mod_add_self2)
    also have "buf s ! ((?n - ?w + i) mod ?w) = xs ! (?n - ?w + i)"
      using assms False that unfolding ring_def by (metis diff_add_inverse2 diff_less_mono2 le_add1 less_diff_conv linorder_not_less add.commute le_add_diff_inverse2 nat_add_left_cancel_less)
    finally show ?thesis using False that by (simp add: newest_def)
  qed
  then show ?thesis using w False by (intro nth_equalityI) (auto simp: newest_length)
qed

lemma ring_sort: "ring s xs \<Longrightarrow> sort (buf s) = sort (newest (win s) xs)"
proof -
  assume "ring s xs"
  from ring_rotate [OF this] have "mset (buf s) = mset (newest (win s) xs)" by (metis mset_rotate_id)
  then show ?thesis by (metis mset_sort properties_for_sort sorted_sort)
qed

lemma ring_buf_empty: "ring s xs \<Longrightarrow> buf s = [] \<longleftrightarrow> xs = []"
  by (auto simp: ring_def min_def split: if_splits)

lemma ring_length: "ring s xs \<Longrightarrow> length (buf s) = length (newest (win s) xs)"
  by (simp add: ring_def newest_length)

end

end
