(* ===== verification/Latency_Tracker.thy ===== *)
theory Latency_Tracker
  imports Rolling_Window
begin

text \<open>
  \<open>gstpipe::LatencyTracker\<close>
  (\<^verbatim>\<open>gstreamer-multithread-pipeline/include/gstpipe/latency_tracker.hpp\<close>): a ring buffer of
  latency samples in milliseconds and the snapshot the reporter thread prints. \<open>lt_add\<close> is
  undefined (\<open>None\<close>) for a window of 0, where the code writes outside the vector and divides by
  zero. Both operations hold the mutex throughout, so they are atomic.
\<close>

record latency_snapshot =
  ls_count :: u64
  ls_min_ms :: rat
  ls_max_ms :: rat
  ls_mean_ms :: rat
  ls_p95_ms :: rat

record latency_tracker =
  lt_samples :: "rat list"
  lt_window :: nat
  lt_cursor :: nat
  lt_total :: u64
  lt_sum :: rat

definition lt_new :: "nat \<Rightarrow> latency_tracker" where
  "lt_new window = \<lparr>lt_samples = [], lt_window = window, lt_cursor = 0, lt_total = 0, lt_sum = 0\<rparr>"

definition lt_add :: "rat \<Rightarrow> latency_tracker \<Rightarrow> latency_tracker option" where
  "lt_add ms s =
     (case (if length (lt_samples s) < lt_window s then Some (lt_samples s @ [ms])
            else upd_ub (lt_samples s) (lt_cursor s) ms) of
        None \<Rightarrow> None
      | Some samples \<Rightarrow>
          if lt_window s = 0 then None
          else Some (s\<lparr>lt_samples := samples, lt_cursor := (lt_cursor s + 1) mod lt_window s,
                       lt_total := lt_total s + 1, lt_sum := f64 (lt_sum s + ms)\<rparr>))"

definition lt_snapshot :: "latency_tracker \<Rightarrow> latency_snapshot" where
  "lt_snapshot s =
     (if lt_samples s = []
      then \<lparr>ls_count = lt_total s, ls_min_ms = 0, ls_max_ms = 0, ls_mean_ms = 0, ls_p95_ms = 0\<rparr>
      else let sorted = sort (lt_samples s);
               idx = pct_index (f64 (95/100)) (length sorted)
           in \<lparr>ls_count = lt_total s, ls_min_ms = hd sorted, ls_max_ms = last sorted,
               ls_mean_ms = f64 (lt_sum s / f64 (of_nat (unat (lt_total s)))), ls_p95_ms = sorted ! idx\<rparr>)"

interpretation lt: ring_window lt_add lt_samples lt_window lt_cursor lt_total lt_sum
  by unfold_locales (auto simp: lt_add_def split: if_splits)

lemma lt_ring_new [simp]: "0 < w \<Longrightarrow> lt.ring (lt_new w) []"
  by (simp add: lt.ring_def lt_new_def fsum_def)

lemma lt_add_window: "lt_add ms s = Some t \<Longrightarrow> lt_window t = lt_window s"
  by (auto simp: lt_add_def split: option.splits if_splits)

lemma lt_run:
  assumes "0 < w"
  obtains t where "for_each lt_add xs (lt_new w) = Some t" "lt.ring t xs" "lt_window t = w"
  using lt.ring_for_each [OF lt_ring_new [OF assms], of xs] that by (auto simp: lt_new_def)

lemma lt_samples_set: "lt_add ms s = Some t \<Longrightarrow> set (lt_samples t) \<subseteq> insert ms (set (lt_samples s))"
  by (auto simp: lt_add_def upd_ub_def split: if_splits dest: set_update_subset_insert [THEN subsetD])

subsection \<open>Properties\<close>

text \<open>C32: The snapshot describes the newest samples. After any samples \<open>xs\<close> a fresh tracker with
  a positive window never runs into undefined behaviour; its count is the number of samples, its
  minimum and maximum are those of the newest \<open>window\<close> samples, its 95th percentile is the
  order statistic of these samples at the computed index, which lies between the two.\<close>

theorem lt_snapshot_window:
  assumes "0 < w" and "xs \<noteq> []"
  shows "\<exists>t. for_each lt_add xs (lt_new w) = Some t
     \<and> ls_count (lt_snapshot t) = of_nat (length xs)
     \<and> ls_min_ms (lt_snapshot t) = Min (set (newest w xs))
     \<and> ls_max_ms (lt_snapshot t) = Max (set (newest w xs))
     \<and> ls_p95_ms (lt_snapshot t) = sort (newest w xs) ! pct_index (f64 (95/100)) (min (length xs) w)
     \<and> ls_min_ms (lt_snapshot t) \<le> ls_p95_ms (lt_snapshot t)
     \<and> ls_p95_ms (lt_snapshot t) \<le> ls_max_ms (lt_snapshot t)"
proof -
  obtain t where t: "for_each lt_add xs (lt_new w) = Some t" "lt.ring t xs" "lt_window t = w"
    using lt_run [OF assms(1)] by blast
  let ?ys = "newest w xs"
  have ne: "lt_samples t \<noteq> []" "?ys \<noteq> []"
    using lt.ring_buf_empty [OF t(2)] lt.ring_length [OF t(2)] t(3) assms by auto
  have s: "sort (lt_samples t) = sort ?ys" and l: "length (sort ?ys) = min (length xs) w"
    using lt.ring_sort [OF t(2)] t(3) by (auto simp: newest_length)
  have "lt_total t = of_nat (length xs)" using t(2) by (simp add: lt.ring_def)
  moreover have "lt_snapshot t = \<lparr>ls_count = lt_total t, ls_min_ms = hd (sort ?ys), ls_max_ms = last (sort ?ys),
      ls_mean_ms = f64 (lt_sum t / f64 (of_nat (unat (lt_total t)))),
      ls_p95_ms = sort ?ys ! pct_index (f64 (95/100)) (min (length xs) w)\<rparr>"
    using ne l by (simp add: lt_snapshot_def Let_def s newest_length)
  ultimately show ?thesis
    using t(1) sort_nth_pct_bounds [OF ne(2), of "f64 (95/100)"]
    by (simp add: hd_sort_Min [OF ne(2)] last_sort_Max [OF ne(2)] newest_length)
qed

theorem lt_snapshot_window_witness:
  "\<exists>t. for_each lt_add [9, 4, 6] (lt_new 2) = Some t
     \<and> ls_count (lt_snapshot t) = 3 \<and> ls_min_ms (lt_snapshot t) = 4 \<and> ls_max_ms (lt_snapshot t) = 6
     \<and> ls_p95_ms (lt_snapshot t) \<le> 6"
  using lt_snapshot_window [of 2 "[9, 4, 6]"] by (simp add: newest_def) metis

text \<open>The mean is not a rolling mean. It is the (rounded) sum of all samples ever recorded
  divided by their number, whatever the window: the window only limits minimum, maximum and
  percentile.\<close>

lemma lt_mean_all_time:
  assumes "0 < w" and "xs \<noteq> []" and "length xs < 2 ^ 53"
  shows "\<exists>t. for_each lt_add xs (lt_new w) = Some t
     \<and> ls_mean_ms (lt_snapshot t) = f64 (fsum xs / of_nat (length xs))"
proof -
  obtain t where t: "for_each lt_add xs (lt_new w) = Some t" "lt.ring t xs" "lt_window t = w"
    using lt_run [OF assms(1)] by blast
  have "lt_samples t \<noteq> []" using lt.ring_buf_empty [OF t(2)] assms(2) by simp
  moreover have "unat (lt_total t) = length xs" and "lt_sum t = fsum xs"
    using t(2) assms(3) by (simp_all add: lt.ring_def unat_of_nat_small)
  moreover have "f64 (of_nat (length xs)) = of_nat (length xs)"
    using f64.rnd_int [of "int (length xs)"] assms(3) by simp
  ultimately show ?thesis using t(1) by (simp add: lt_snapshot_def Let_def)
qed

end
