(* ===== verification/Effects.thy ===== *)
theory Effects
  imports Prelude
begin

text \<open>
  Imperative code as functions on an explicit world: an action takes the world and gives an
  outcome (a value, an exception, undefined behaviour) with the world after it, or \<open>None\<close> when
  it does not return. The components that talk to the kernel, to GStreamer or to TensorRT are
  written with it; their environment is a part of the world or an argument.

  \<open>hoare P m Q E\<close> is the partial-correctness triple: from a world in \<open>P\<close> the action \<open>m\<close> never has
  undefined behaviour, ends normally with a value and world in \<open>Q\<close>, or throws with a world in \<open>E\<close>.
  \<open>returns m\<close> is termination from every world. \<open>retry\<close> is the loop
  \<open>do r = call(); while (r == -1 && errno == EINTR)\<close>.
\<close>

type_synonym ('w, 'e, 'a) eff = "'w \<Rightarrow> (('e, 'a) outcome \<times> 'w) option"

definition ret :: "'a \<Rightarrow> ('w, 'e, 'a) eff" where
  "ret a w = Some (Ok a, w)"

definition raise :: "'e \<Rightarrow> ('w, 'e, 'a) eff" where
  "raise e w = Some (Throw e, w)"

definition undef :: "('w, 'e, 'a) eff" where
  "undef w = Some (Undef, w)"

definition bind :: "('w, 'e, 'a) eff \<Rightarrow> ('a \<Rightarrow> ('w, 'e, 'b) eff) \<Rightarrow> ('w, 'e, 'b) eff" where
  "bind m f w = (case m w of None \<Rightarrow> None
     | Some (Ok a, w') \<Rightarrow> f a w' | Some (Throw e, w') \<Rightarrow> Some (Throw e, w') | Some (Undef, w') \<Rightarrow> Some (Undef, w'))"

definition seq :: "('w, 'e, 'a) eff \<Rightarrow> ('w, 'e, 'b) eff \<Rightarrow> ('w, 'e, 'b) eff" where
  "seq m n = bind m (\<lambda>_. n)"

definition gets :: "('w \<Rightarrow> 'a) \<Rightarrow> ('w, 'e, 'a) eff" where
  "gets f w = Some (Ok (f w), w)"

definition modify :: "('w \<Rightarrow> 'w) \<Rightarrow> ('w, 'e, unit) eff" where
  "modify f w = Some (Ok (), f w)"

text \<open>\<open>if (c) throw e;\<close>\<close>

definition throw_if :: "bool \<Rightarrow> 'e \<Rightarrow> ('w, 'e, unit) eff" where
  "throw_if c e = (if c then raise e else ret ())"

text \<open>\<open>try { m } catch (...) { h }\<close>\<close>

definition try_catch :: "('w, 'e, 'a) eff \<Rightarrow> ('e \<Rightarrow> ('w, 'e, 'a) eff) \<Rightarrow> ('w, 'e, 'a) eff" where
  "try_catch m h w = (case m w of Some (Throw e, w') \<Rightarrow> h e w' | r \<Rightarrow> r)"

fun for_eff :: "('i \<Rightarrow> ('w, 'e, unit) eff) \<Rightarrow> 'i list \<Rightarrow> ('w, 'e, unit) eff" where
  "for_eff f [] = ret ()"
| "for_eff f (i # is) = seq (f i) (for_eff f is)"

definition EINTR :: int where
  "EINTR = 4"

partial_function (option) retry :: "('s \<Rightarrow> (int + 'r) \<times> 's) \<Rightarrow> 's \<Rightarrow> ((int + 'r) \<times> 's) option" where
  "retry call s = (case call s of (r, s') \<Rightarrow> if r = Inl EINTR then retry call s' else Some (r, s'))"

declare retry.simps [code]

subsection \<open>Triples\<close>

definition hoare :: "('w \<Rightarrow> bool) \<Rightarrow> ('w, 'e, 'a) eff \<Rightarrow> ('a \<Rightarrow> 'w \<Rightarrow> bool) \<Rightarrow> ('e \<Rightarrow> 'w \<Rightarrow> bool) \<Rightarrow> bool" where
  "hoare P m Q E \<longleftrightarrow> (\<forall>w r w'. P w \<longrightarrow> m w = Some (r, w') \<longrightarrow>
     (case r of Ok a \<Rightarrow> Q a w' | Throw e \<Rightarrow> E e w' | Undef \<Rightarrow> False))"

definition returns :: "('w, 'e, 'a) eff \<Rightarrow> bool" where
  "returns m \<longleftrightarrow> (\<forall>w. m w \<noteq> None)"

named_theorems hoare_rules "triples of the basic actions"
named_theorems returns_rules "termination of the basic actions"

lemmas eff_defs = ret_def raise_def undef_def bind_def seq_def gets_def modify_def throw_if_def try_catch_def

lemma hoareI:
  "(\<And>w r w'. P w \<Longrightarrow> m w = Some (r, w') \<Longrightarrow> (case r of Ok a \<Rightarrow> Q a w' | Throw e \<Rightarrow> E e w' | Undef \<Rightarrow> False)) \<Longrightarrow> hoare P m Q E"
  by (auto simp: hoare_def)

lemma hoareD: "hoare P m Q E \<Longrightarrow> P w \<Longrightarrow> m w = Some (r, w') \<Longrightarrow>
    (case r of Ok a \<Rightarrow> Q a w' | Throw e \<Rightarrow> E e w' | Undef \<Rightarrow> False)"
  by (auto simp: hoare_def)

lemma hoare_conseq:
  assumes "hoare P' m Q' E'" "\<And>w. P w \<Longrightarrow> P' w" "\<And>a w. Q' a w \<Longrightarrow> Q a w" "\<And>e w. E' e w \<Longrightarrow> E e w"
  shows "hoare P m Q E"
  unfolding hoare_def
proof (intro allI impI)
  fix w r w' assume "P w" "m w = Some (r, w')"
  then have "case r of Ok a \<Rightarrow> Q' a w' | Throw e \<Rightarrow> E' e w' | Undef \<Rightarrow> False"
    using hoareD [OF assms(1)] assms(2) by blast
  then show "case r of Ok a \<Rightarrow> Q a w' | Throw e \<Rightarrow> E e w' | Undef \<Rightarrow> False"
    using assms(3,4) by (cases r) auto
qed

lemma hoare_pre: "hoare P' m Q E \<Longrightarrow> (\<And>w. P w \<Longrightarrow> P' w) \<Longrightarrow> hoare P m Q E"
  by (rule hoare_conseq)

lemma hoare_conj_const:
  "hoare P m (\<lambda>_. Q) (\<lambda>_ _. False) \<Longrightarrow> hoare (\<lambda>w. P w \<and> b) m (\<lambda>_ w. Q w \<and> b) E"
  by (fastforce simp: hoare_def split: outcome.splits)

lemma hoare_ret [hoare_rules]: "hoare (Q a) (ret a) Q E"
  by (simp add: hoare_def ret_def)

lemma hoare_raise [hoare_rules]: "hoare (E e) (raise e) Q E"
  by (simp add: hoare_def raise_def)

lemma hoare_gets [hoare_rules]: "hoare (\<lambda>w. Q (f w) w) (gets f) Q E"
  by (simp add: hoare_def gets_def)

lemma hoare_modify [hoare_rules]: "hoare (\<lambda>w. Q () (f w)) (modify f) Q E"
  by (simp add: hoare_def modify_def)

lemma hoare_throw_if [hoare_rules]: "hoare (\<lambda>w. if c then E e w else Q () w) (throw_if c e) Q E"
  by (simp add: hoare_def throw_if_def raise_def ret_def)

lemma hoare_if: "(c \<Longrightarrow> hoare P m Q E) \<Longrightarrow> (\<not> c \<Longrightarrow> hoare P n Q E) \<Longrightarrow> hoare P (if c then m else n) Q E"
  by simp

lemma hoare_if_wp [hoare_rules]:
  "hoare P m Q E \<Longrightarrow> hoare P' n Q E \<Longrightarrow> hoare (\<lambda>w. if c then P w else P' w) (if c then m else n) Q E"
  by simp

lemma hoare_case_option [hoare_rules]:
  "hoare P m Q E \<Longrightarrow> (\<And>x. hoare (P' x) (f x) Q E) \<Longrightarrow>
   hoare (\<lambda>w. case v of None \<Rightarrow> P w | Some x \<Rightarrow> P' x w) (case v of None \<Rightarrow> m | Some x \<Rightarrow> f x) Q E"
  by (cases v) simp_all

lemma hoare_case_sum [hoare_rules]:
  "(\<And>x. hoare (P x) (f x) Q E) \<Longrightarrow> (\<And>y. hoare (P' y) (g y) Q E) \<Longrightarrow>
   hoare (\<lambda>w. case v of Inl x \<Rightarrow> P x w | Inr y \<Rightarrow> P' y w) (case v of Inl x \<Rightarrow> f x | Inr y \<Rightarrow> g y) Q E"
  by (cases v) simp_all

lemma hoare_case_prod [hoare_rules]:
  "(\<And>x y. hoare (P x y) (f x y) Q E) \<Longrightarrow> hoare (\<lambda>w. case v of (x, y) \<Rightarrow> P x y w) (case v of (x, y) \<Rightarrow> f x y) Q E"
  by (cases v) simp

lemma hoare_undef [hoare_rules]: "hoare (\<lambda>_. False) undef Q E"
  by (simp add: hoare_def)

lemma hoare_bind [hoare_rules]:
  assumes "\<And>a. hoare (R a) (f a) Q E" "hoare P m R E"
  shows "hoare P (bind m f) Q E"
  unfolding hoare_def
proof (intro allI impI)
  fix w r w' assume P: "P w" and run: "bind m f w = Some (r, w')"
  then obtain x v where m: "m w = Some (x, v)" by (auto simp: bind_def split: option.splits)
  then have "case x of Ok a \<Rightarrow> R a v | Throw e \<Rightarrow> E e v | Undef \<Rightarrow> False" using hoareD [OF assms(2) P] by blast
  then show "case r of Ok a \<Rightarrow> Q a w' | Throw e \<Rightarrow> E e w' | Undef \<Rightarrow> False"
    using m run hoareD [OF assms(1)] by (cases x) (auto simp: bind_def)
qed

text \<open>Reading a value that the precondition determines.\<close>

lemma hoare_gets_const:
  "(\<And>w. P w \<Longrightarrow> f w = c) \<Longrightarrow> hoare P (g c) Q E \<Longrightarrow> hoare P (bind (gets f) g) Q E"
  by (simp add: hoare_def bind_def gets_def)

lemma hoare_seq [hoare_rules]: "hoare R n Q E \<Longrightarrow> hoare P m (\<lambda>_. R) E \<Longrightarrow> hoare P (seq m n) Q E"
  unfolding seq_def by (rule hoare_bind)

lemma hoare_try [hoare_rules]:
  assumes "\<And>e. hoare (F e) (h e) Q E" "hoare P m Q F"
  shows "hoare P (try_catch m h) Q E"
  unfolding hoare_def
proof (intro allI impI)
  fix w r w' assume P: "P w" and run: "try_catch m h w = Some (r, w')"
  then obtain x v where m: "m w = Some (x, v)" by (auto simp: try_catch_def split: option.splits)
  then have "case x of Ok a \<Rightarrow> Q a v | Throw e \<Rightarrow> F e v | Undef \<Rightarrow> False" using hoareD [OF assms(2) P] by blast
  then show "case r of Ok a \<Rightarrow> Q a w' | Throw e \<Rightarrow> E e w' | Undef \<Rightarrow> False"
    using m run hoareD [OF assms(1)] by (cases x) (auto simp: try_catch_def)
qed

text \<open>A counting loop with an invariant indexed by the counter.\<close>

lemma hoare_for_upt:
  assumes "\<And>k. k < n \<Longrightarrow> hoare (I k) (f k) (\<lambda>_. I (Suc k)) E"
  shows "m \<le> n \<Longrightarrow> hoare (I m) (for_eff f [m..<n]) (\<lambda>_. I n) E"
proof (induction "n - m" arbitrary: m)
  case 0
  then show ?case by (simp add: hoare_def ret_def)
next
  case (Suc d)
  then have "m < n" by simp
  then have "[m..<n] = m # [Suc m..<n]" by (rule upt_conv_Cons)
  moreover have "hoare (I (Suc m)) (for_eff f [Suc m..<n]) (\<lambda>_. I n) E" using Suc by simp
  ultimately show ?case using hoare_seq [OF _ assms [OF \<open>m < n\<close>]] by simp
qed

lemma hoare_for_inv:
  assumes "\<And>i. i \<in> set is \<Longrightarrow> hoare I (f i) (\<lambda>_. I) E"
  shows "hoare I (for_eff f is) (\<lambda>_. I) E"
  using assms by (induction "is") (auto intro: hoare_seq simp: hoare_def [of _ "ret _"] ret_def)

lemma for_eff_map: "for_eff f (map g xs) = for_eff (\<lambda>x. f (g x)) xs"
  by (induction xs) simp_all

lemma hoare_for_list:
  assumes "\<And>k. k < length xs \<Longrightarrow> hoare (I k) (f (xs ! k)) (\<lambda>_. I (Suc k)) E"
  shows "hoare (I 0) (for_eff f xs) (\<lambda>_. I (length xs)) E"
  using hoare_for_upt [of "length xs" I "\<lambda>k. f (xs ! k)" E 0] assms for_eff_map [of f "(!) xs" "[0..<length xs]"] by (simp add: map_nth)

subsection \<open>Sequences\<close>

lemma seq_assoc: "seq (seq a b) c = seq a (seq b c)"
  by (rule ext) (auto simp: seq_def bind_def split: option.splits outcome.splits)

lemma for_eff_snoc: "for_eff f (xs @ [y]) = seq (for_eff f xs) (f y)"
proof (induction xs)
  case Nil
  then show ?case by (auto simp: seq_def bind_def ret_def fun_eq_iff split: option.splits outcome.splits)
next
  case (Cons a xs)
  then show ?case by (simp add: seq_assoc)
qed

subsection \<open>Termination\<close>

lemma returns_basic [returns_rules]:
  "returns (ret a)" "returns (raise e)" "returns (gets f)" "returns (modify g)" "returns (throw_if c e)" "returns undef"
  by (simp_all add: returns_def eff_defs)

lemma returns_bind [returns_rules]: "returns m \<Longrightarrow> (\<And>a. returns (f a)) \<Longrightarrow> returns (bind m f)"
  by (auto simp: returns_def bind_def split: option.splits outcome.splits)

lemma returns_seq [returns_rules]: "returns m \<Longrightarrow> returns n \<Longrightarrow> returns (seq m n)"
  by (simp add: seq_def returns_bind)

lemma returns_try [returns_rules]: "returns m \<Longrightarrow> (\<And>e. returns (h e)) \<Longrightarrow> returns (try_catch m h)"
  by (auto simp: returns_def try_catch_def split: option.splits outcome.splits)

lemma returns_for [returns_rules]: "(\<And>i. returns (f i)) \<Longrightarrow> returns (for_eff f is)"
  by (induction "is") (auto intro: returns_rules)

lemma returns_if [returns_rules]: "(c \<Longrightarrow> returns m) \<Longrightarrow> (\<not> c \<Longrightarrow> returns n) \<Longrightarrow> returns (if c then m else n)"
  by simp

subsection \<open>The retry loop\<close>

text \<open>The state after \<open>n\<close> interrupted calls.\<close>

definition after_calls :: "('s \<Rightarrow> (int + 'r) \<times> 's) \<Rightarrow> nat \<Rightarrow> 's \<Rightarrow> 's" where
  "after_calls call n s = ((\<lambda>t. snd (call t)) ^^ n) s"

definition interrupted :: "('s \<Rightarrow> (int + 'r) \<times> 's) \<Rightarrow> 's \<Rightarrow> bool" where
  "interrupted call s \<longleftrightarrow> fst (call s) = Inl EINTR"

lemma after_calls_Suc: "after_calls call (Suc n) s = after_calls call n (snd (call s))"
  by (simp add: after_calls_def funpow_Suc_right del: funpow.simps)

lemma retry_step:
  "retry call s = (if interrupted call s then retry call (snd (call s)) else Some (call s))"
  by (subst retry.simps) (auto simp: interrupted_def split: prod.splits)

lemma retry_after:
  "(\<forall>k < n. interrupted call (after_calls call k s)) \<Longrightarrow> \<not> interrupted call (after_calls call n s) \<Longrightarrow>
   retry call s = Some (call (after_calls call n s))"
proof (induction n arbitrary: s)
  case 0
  then show ?case by (simp add: after_calls_def retry_step [of call s])
next
  case (Suc n)
  have "interrupted call s" using Suc.prems(1) by (auto simp: after_calls_def dest: spec [of _ 0])
  moreover have "\<forall>k < n. interrupted call (after_calls call k (snd (call s)))"
    using Suc.prems(1) by (metis Suc_mono after_calls_Suc)
  ultimately show ?case using Suc by (simp add: retry_step [of call s] after_calls_Suc)
qed

lemma retry_result:
  fixes call :: "'a \<Rightarrow> (int + 'b) \<times> 'a"
  shows "retry call s = Some x \<Longrightarrow>
   \<exists>n. (\<forall>k < n. interrupted call (after_calls call k s)) \<and> call (after_calls call n s) = x \<and> fst x \<noteq> Inl EINTR"
proof (erule retry.raw_induct [rotated, where P = "\<lambda>call s x. \<exists>n. (\<forall>k < n. interrupted call (after_calls call k s)) \<and>
    call (after_calls call n s) = x \<and> fst x \<noteq> Inl EINTR"])
  fix f :: "('a \<Rightarrow> (int + 'b) \<times> 'a) \<Rightarrow> 'a \<Rightarrow> ((int + 'b) \<times> 'a) option" and call s x
  assume IH: "\<And>call s x. f call s = Some x \<Longrightarrow>
      \<exists>n. (\<forall>k < n. interrupted call (after_calls call k s)) \<and> call (after_calls call n s) = x \<and> fst x \<noteq> Inl EINTR"
    and step: "(case call s of (r, s') \<Rightarrow> if r = Inl EINTR then f call s' else Some (r, s')) = Some x"
  obtain r s' where c: "call s = (r, s')" by fastforce
  show "\<exists>n. (\<forall>k < n. interrupted call (after_calls call k s)) \<and> call (after_calls call n s) = x \<and> fst x \<noteq> Inl EINTR"
  proof (cases "r = Inl EINTR")
    case True
    with IH [of call s' x] step c obtain n where n: "\<forall>k < n. interrupted call (after_calls call k s')"
      "call (after_calls call n s') = x" "fst x \<noteq> Inl EINTR" by auto
    have "interrupted call (after_calls call k s)" if "k < Suc n" for k
      using that n(1) c True by (cases k) (auto simp: after_calls_Suc interrupted_def after_calls_def [of _ 0])
    with n c show ?thesis by (intro exI [of _ "Suc n"]) (simp add: after_calls_Suc)
  next
    case False
    with step c show ?thesis by (intro exI [of _ 0]) (auto simp: after_calls_def)
  qed
qed

text \<open>The loop returns exactly when the call is not interrupted forever.\<close>

lemma retry_returns_iff: "retry call s \<noteq> None \<longleftrightarrow> (\<exists>n. \<not> interrupted call (after_calls call n s))"
proof
  assume "retry call s \<noteq> None"
  then obtain r s' where "retry call s = Some (r, s')" by fastforce
  then show "\<exists>n. \<not> interrupted call (after_calls call n s)"
    using retry_result [of call s "(r, s')"] unfolding interrupted_def by metis
next
  assume ex: "\<exists>n. \<not> interrupted call (after_calls call n s)"
  define n where "n = (LEAST n. \<not> interrupted call (after_calls call n s))"
  have "\<not> interrupted call (after_calls call n s)" unfolding n_def using ex by (rule LeastI_ex)
  moreover have "\<forall>k < n. interrupted call (after_calls call k s)" unfolding n_def using not_less_Least by blast
  ultimately show "retry call s \<noteq> None" using retry_after [of n call s] by simp
qed

subsection \<open>What an action keeps\<close>

text \<open>An action keeps an observation of the world when it ends with the value it started with, normally or by
  an exception.\<close>

definition keeps :: "('w \<Rightarrow> 'v) \<Rightarrow> ('w, 'e, 'a) eff \<Rightarrow> bool" where
  "keeps g m \<longleftrightarrow> (\<forall>v. hoare (\<lambda>w. g w = v) m (\<lambda>_ w. g w = v) (\<lambda>_ w. g w = v))"

named_theorems keeps_rules "actions that keep an observation"

lemma keeps_ret [keeps_rules]: "keeps g (ret a)"
  by (simp add: keeps_def hoare_def ret_def)

lemma keeps_throw_if [keeps_rules]: "keeps g (throw_if c e)"
  by (simp add: keeps_def hoare_def throw_if_def ret_def raise_def)

lemma keeps_modify [keeps_rules]: "(\<And>w. g (f w) = g w) \<Longrightarrow> keeps g (modify f)"
  by (simp add: keeps_def hoare_def modify_def)

lemma keeps_seq [keeps_rules]: "keeps g m \<Longrightarrow> keeps g n \<Longrightarrow> keeps g (seq m n)"
  unfolding keeps_def by (blast intro: hoare_seq)

lemma keeps_gets [keeps_rules]: "(\<And>a. keeps g (h a)) \<Longrightarrow> keeps g (bind (gets f) h)"
  unfolding keeps_def by (auto simp: hoare_def bind_def gets_def)

lemma keepsD: "keeps g m \<Longrightarrow> m w = Some (r, w') \<Longrightarrow> r \<noteq> Undef \<and> g w' = g w"
  unfolding keeps_def using hoareD [of "\<lambda>x. g x = g w" m "\<lambda>_ x. g x = g w" "\<lambda>_ x. g x = g w" w r w'] by (cases r) auto

end
