(* ===== verification/V4l2_Capture.thy ===== *)
theory V4l2_Capture
  imports Effects Floats
begin

text \<open>
  The capture engine of \<open>src/zero-copy-v4l2-capture\<close> (\<open>v4l2_capture.hpp\<close>, \<open>v4l2_capture.cpp\<close>).

  The kernel is the parameter \<open>'s v4l2_os\<close>: one function per system call or ioctl the code uses,
  on an abstract kernel state, with the error number or the answer. Every method of
  \<open>V4L2Capture\<close> is an action on a world of the object, the kernel state and \<open>w_held\<close>, the
  descriptors and mappings the process holds: \<open>open\<close>, \<open>mmap\<close> and \<open>VIDIOC_EXPBUF\<close> add to it,
  \<open>close\<close> and \<open>munmap\<close> remove from it. A thrown \<open>SystemError\<close> carries its message and error
  number; indexing \<open>slots_\<close> out of range is undefined behaviour. Log output is left out.

  Lemma groups: FourCC packing, what each method holds (\<open>v_inv\<close>), termination under a kernel that
  answers, and the frame accounting of \<open>next\<close>.
\<close>

unbundle bit_operations_syntax

subsection \<open>Data\<close>

datatype io_method = Mmap | UserPtr
datatype v4l2_mem = MEM_MMAP | MEM_USERPTR
datatype resource = Fd int | Mapping nat u32

record v4l2_config =
  cfg_device :: string
  cfg_width :: u32
  cfg_height :: u32
  cfg_pixelformat :: u32
  cfg_buffer_count :: u32
  cfg_io :: io_method
  cfg_export_dmabuf :: bool

record pix_format =
  pix_width :: u32
  pix_height :: u32
  pix_pixelformat :: u32
  pix_field :: u32
  pix_bytesperline :: u32
  pix_sizeimage :: u32

record v4l2_buffer =
  buf_index :: u32
  buf_bytesused :: u32
  buf_flags :: u32
  buf_sequence :: u32
  buf_tv_sec :: int
  buf_tv_usec :: int

record v4l2_frame =
  fr_data :: nat
  fr_bytes :: nat
  fr_index :: u32
  fr_sequence :: u32
  fr_timestamp :: "int \<times> int"
  fr_dmabuf_fd :: int
  fr_had_error :: bool

record v4l2_stats =
  st_frames_captured :: u64
  st_frames_dropped :: u64
  st_frames_errored :: u64
  st_bytes_captured :: u64
  st_last_latency_ms :: rat
  st_avg_latency_ms :: rat

record buffer_slot =
  sl_start :: nat
  sl_length :: u32
  sl_dmabuf_fd :: int

record v4l2_capture =
  vc_cfg :: v4l2_config
  vc_fd :: int
  vc_fmt :: pix_format
  vc_slots :: "buffer_slot list"
  vc_stats :: v4l2_stats
  vc_last_sequence :: u32
  vc_have_last_sequence :: bool
  vc_latency_accum_ms :: rat
  vc_streaming :: bool

record 's v4l2_os =
  os_stat :: "string \<Rightarrow> 's \<Rightarrow> int + bool"
  os_open :: "string \<Rightarrow> 's \<Rightarrow> (int + int) \<times> 's"
  os_querycap :: "int \<Rightarrow> 's \<Rightarrow> (int + u32) \<times> 's"
  os_s_fmt :: "int \<Rightarrow> pix_format \<Rightarrow> 's \<Rightarrow> (int + pix_format) \<times> 's"
  os_reqbufs :: "int \<Rightarrow> v4l2_mem \<Rightarrow> u32 \<Rightarrow> 's \<Rightarrow> (int + u32) \<times> 's"
  os_querybuf :: "int \<Rightarrow> v4l2_mem \<Rightarrow> u32 \<Rightarrow> 's \<Rightarrow> (int + u32 \<times> u32) \<times> 's"
  os_expbuf :: "int \<Rightarrow> u32 \<Rightarrow> 's \<Rightarrow> (int + int) \<times> 's"
  os_qbuf :: "int \<Rightarrow> v4l2_mem \<Rightarrow> u32 \<Rightarrow> 's \<Rightarrow> (int + unit) \<times> 's"
  os_dqbuf :: "int \<Rightarrow> v4l2_mem \<Rightarrow> 's \<Rightarrow> (int + v4l2_buffer) \<times> 's"
  os_streamon :: "int \<Rightarrow> 's \<Rightarrow> (int + unit) \<times> 's"
  os_streamoff :: "int \<Rightarrow> 's \<Rightarrow> (int + unit) \<times> 's"
  os_poll :: "int \<Rightarrow> int \<Rightarrow> 's \<Rightarrow> (int + int \<times> u32) \<times> 's"
  os_mmap :: "int \<Rightarrow> u32 \<Rightarrow> u32 \<Rightarrow> 's \<Rightarrow> (int + nat) \<times> 's"
  os_munmap :: "nat \<Rightarrow> u32 \<Rightarrow> 's \<Rightarrow> 's"
  os_close :: "int \<Rightarrow> 's \<Rightarrow> 's"
  os_clock :: "'s \<Rightarrow> int \<times> int"

record 's v4l2_world =
  w_cap :: v4l2_capture
  w_os :: 's
  w_held :: "resource multiset"

type_synonym sys_error = "string \<times> int"
type_synonym ('s, 'a) vact = "('s v4l2_world, sys_error, 'a) eff"

definition EAGAIN :: int where "EAGAIN = 11"
definition EIO :: int where "EIO = 5"
definition ENOMEM :: int where "ENOMEM = 12"
definition ENODEV :: int where "ENODEV = 19"

subsection \<open>FourCC\<close>

text \<open>A \<open>std::string\<close> is the list of its bytes; \<open>conv\<close> is the conversion of \<open>char\<close> to \<open>__u32\<close>,
  which sign-extends on some platforms and zero-extends on others.\<close>

definition fourcc_char :: "byte list \<Rightarrow> nat \<Rightarrow> byte" where
  "fourcc_char s i = (if i < length s then s ! i else 0x20)"

definition fourcc_from_string :: "(byte \<Rightarrow> u32) \<Rightarrow> byte list \<Rightarrow> u32" where
  "fourcc_from_string conv s =
     (conv (fourcc_char s 0) OR push_bit 8 (conv (fourcc_char s 1)) OR
      push_bit 16 (conv (fourcc_char s 2)) OR push_bit 24 (conv (fourcc_char s 3)))"

definition fourcc_to_string :: "u32 \<Rightarrow> byte list" where
  "fourcc_to_string f = [ucast (f AND 0xff), ucast (drop_bit 8 f AND 0xff),
     ucast (drop_bit 16 f AND 0xff), ucast (drop_bit 24 f AND 0xff)]"

subsection \<open>Object\<close>

definition default_config :: v4l2_config where
  "default_config = \<lparr>cfg_device = ''/dev/video0'', cfg_width = 1280, cfg_height = 720, cfg_pixelformat = 0x56595559,
     cfg_buffer_count = 4, cfg_io = Mmap, cfg_export_dmabuf = False\<rparr>"

definition no_stats :: v4l2_stats where
  "no_stats = \<lparr>st_frames_captured = 0, st_frames_dropped = 0, st_frames_errored = 0, st_bytes_captured = 0,
     st_last_latency_ms = 0, st_avg_latency_ms = 0\<rparr>"

definition empty_slot :: buffer_slot where
  "empty_slot = \<lparr>sl_start = 0, sl_length = 0, sl_dmabuf_fd = -1\<rparr>"

definition vc_new :: "v4l2_config \<Rightarrow> v4l2_capture" where
  "vc_new cfg = \<lparr>vc_cfg = cfg, vc_fd = -1,
     vc_fmt = \<lparr>pix_width = 0, pix_height = 0, pix_pixelformat = 0, pix_field = 0, pix_bytesperline = 0, pix_sizeimage = 0\<rparr>,
     vc_slots = [], vc_stats = no_stats, vc_last_sequence = 0, vc_have_last_sequence = False,
     vc_latency_accum_ms = 0, vc_streaming = False\<rparr>"

definition set_cap :: "(v4l2_capture \<Rightarrow> v4l2_capture) \<Rightarrow> ('s, unit) vact" where
  "set_cap f = modify (\<lambda>w. w\<lparr>w_cap := f (w_cap w)\<rparr>)"

definition timeval_to_ms :: "int \<Rightarrow> int \<Rightarrow> rat" where
  "timeval_to_ms sec usec = f64 (f64 (f64 (of_int sec) * 1000) + f64 (f64 (of_int usec) / 1000))"

definition now_monotonic_ms :: "int \<times> int \<Rightarrow> rat" where
  "now_monotonic_ms ts = f64 (f64 (f64 (of_int (fst ts)) * 1000) + f64 (f64 (of_int (snd ts)) / 1000000))"

text \<open>\<open>xioctl\<close>: the call is retried on \<open>EINTR\<close>, any other failure is thrown.\<close>

definition xioctl :: "('s \<Rightarrow> (int + 'r) \<times> 's) \<Rightarrow> string \<Rightarrow> ('s, 'r) vact" where
  "xioctl call what w = (case retry call (w_os w) of None \<Rightarrow> None
     | Some (Inl e, s) \<Rightarrow> Some (Throw (what, e), w\<lparr>w_os := s\<rparr>)
     | Some (Inr x, s) \<Rightarrow> Some (Ok x, w\<lparr>w_os := s\<rparr>))"

definition sys_call :: "('s \<Rightarrow> (int + 'r) \<times> 's) \<Rightarrow> ('s, int + 'r) vact" where
  "sys_call call w = (case call (w_os w) of (r, s) \<Rightarrow> Some (Ok r, w\<lparr>w_os := s\<rparr>))"

definition hold :: "resource \<Rightarrow> ('s, unit) vact" where
  "hold r = modify (\<lambda>w. w\<lparr>w_held := add_mset r (w_held w)\<rparr>)"

definition sys_close :: "'s v4l2_os \<Rightarrow> int \<Rightarrow> ('s, unit) vact" where
  "sys_close os fd = modify (\<lambda>w. w\<lparr>w_os := os_close os fd (w_os w), w_held := w_held w - {#Fd fd#}\<rparr>)"

definition sys_munmap :: "'s v4l2_os \<Rightarrow> nat \<Rightarrow> u32 \<Rightarrow> ('s, unit) vact" where
  "sys_munmap os p n = modify (\<lambda>w. w\<lparr>w_os := os_munmap os p n (w_os w), w_held := w_held w - {#Mapping p n#}\<rparr>)"

subsection \<open>Setup\<close>

definition query_caps :: "'s v4l2_os \<Rightarrow> ('s, unit) vact" where
  "query_caps os =
     bind (gets (\<lambda>w. vc_fd (w_cap w))) (\<lambda>fd.
     bind (xioctl (os_querycap os fd) ''VIDIOC_QUERYCAP'') (\<lambda>caps.
     seq (throw_if (caps AND 0x00000001 = 0) (''device has no V4L2_CAP_VIDEO_CAPTURE'', ENODEV))
         (throw_if (caps AND 0x04000000 = 0) (''device has no V4L2_CAP_STREAMING (mmap/dmabuf unsupported)'', ENODEV))))"

definition set_format :: "'s v4l2_os \<Rightarrow> ('s, unit) vact" where
  "set_format os =
     bind (gets w_cap) (\<lambda>c.
     let cfg = vc_cfg c;
         req = (vc_fmt c)\<lparr>pix_width := cfg_width cfg, pix_height := cfg_height cfg,
                 pix_pixelformat := cfg_pixelformat cfg, pix_field := 0\<rparr> in
     seq (set_cap (\<lambda>c. c\<lparr>vc_fmt := req\<rparr>)) (
     bind (xioctl (os_s_fmt os (vc_fd c) req) ''VIDIOC_S_FMT'') (\<lambda>fmt.
     seq (set_cap (\<lambda>c. c\<lparr>vc_fmt := fmt\<rparr>)) (
     seq (if pix_pixelformat fmt \<noteq> cfg_pixelformat cfg
          then set_cap (\<lambda>c. c\<lparr>vc_cfg := (vc_cfg c)\<lparr>cfg_pixelformat := pix_pixelformat fmt\<rparr>\<rparr>) else ret ())
         (if pix_width fmt \<noteq> cfg_width cfg \<or> pix_height fmt \<noteq> cfg_height cfg
          then set_cap (\<lambda>c. c\<lparr>vc_cfg := (vc_cfg c)\<lparr>cfg_width := pix_width fmt, cfg_height := pix_height fmt\<rparr>\<rparr>)
          else ret ())))))"

text \<open>\<open>slots_.resize(n)\<close>.\<close>

definition resize_slots :: "nat \<Rightarrow> buffer_slot list \<Rightarrow> buffer_slot list" where
  "resize_slots n xs = take n xs @ replicate (n - length xs) empty_slot"

definition request_buffers :: "'s v4l2_os \<Rightarrow> ('s, unit) vact" where
  "request_buffers os =
     bind (gets w_cap) (\<lambda>c.
     let mem = (if cfg_io (vc_cfg c) = Mmap then MEM_MMAP else MEM_USERPTR) in
     bind (xioctl (os_reqbufs os (vc_fd c) mem (cfg_buffer_count (vc_cfg c))) ''VIDIOC_REQBUFS'') (\<lambda>count.
     seq (throw_if (count < 2) (''driver granted < 2 buffers, cannot stream'', ENOMEM))
         (set_cap (\<lambda>c. c\<lparr>vc_cfg := (vc_cfg c)\<lparr>cfg_buffer_count := count\<rparr>,
                         vc_slots := resize_slots (unat count) (vc_slots c)\<rparr>))))"

text \<open>\<open>slots_[i] = f(slots_[i])\<close>.\<close>

definition upd_slot :: "nat \<Rightarrow> (buffer_slot \<Rightarrow> buffer_slot) \<Rightarrow> ('s, unit) vact" where
  "upd_slot i f =
     bind (gets (\<lambda>w. vc_slots (w_cap w))) (\<lambda>xs.
     if i < length xs then set_cap (\<lambda>c. c\<lparr>vc_slots := xs[i := f (xs ! i)]\<rparr>) else undef)"

definition map_buffer :: "'s v4l2_os \<Rightarrow> nat \<Rightarrow> ('s, unit) vact" where
  "map_buffer os i =
     bind (gets w_cap) (\<lambda>c.
     bind (xioctl (os_querybuf os (vc_fd c) MEM_MMAP (of_nat i)) ''VIDIOC_QUERYBUF'') (\<lambda>(len, off).
     bind (sys_call (os_mmap os (vc_fd c) len off)) (\<lambda>r.
     case r of Inl e \<Rightarrow> raise (''mmap buffer '' @ nat_to_string i, e)
     | Inr p \<Rightarrow>
       seq (hold (Mapping p len)) (
       seq (upd_slot i (\<lambda>s. s\<lparr>sl_start := p, sl_length := len\<rparr>)) (
       if cfg_export_dmabuf (vc_cfg c)
       then bind (xioctl (os_expbuf os (vc_fd c) (of_nat i)) ''VIDIOC_EXPBUF'') (\<lambda>fd.
            seq (hold (Fd fd)) (upd_slot i (\<lambda>s. s\<lparr>sl_dmabuf_fd := fd\<rparr>)))
       else ret ())))))"

definition map_buffers :: "'s v4l2_os \<Rightarrow> ('s, unit) vact" where
  "map_buffers os = bind (gets (\<lambda>w. unat (cfg_buffer_count (vc_cfg (w_cap w))))) (\<lambda>n. for_eff (map_buffer os) [0..<n])"

definition queue_buffer :: "'s v4l2_os \<Rightarrow> u32 \<Rightarrow> ('s, unit) vact" where
  "queue_buffer os index =
     bind (gets (\<lambda>w. vc_fd (w_cap w))) (\<lambda>fd. xioctl (os_qbuf os fd MEM_MMAP index) ''VIDIOC_QBUF'')"

definition queue_all :: "'s v4l2_os \<Rightarrow> ('s, unit) vact" where
  "queue_all os = bind (gets (\<lambda>w. unat (cfg_buffer_count (vc_cfg (w_cap w))))) (\<lambda>n.
     for_eff (\<lambda>i. queue_buffer os (of_nat i)) [0..<n])"

definition v4l2_open :: "'s v4l2_os \<Rightarrow> ('s, unit) vact" where
  "v4l2_open os =
     bind (gets (\<lambda>w. cfg_device (vc_cfg (w_cap w)))) (\<lambda>dev.
     bind (gets (\<lambda>w. os_stat os dev (w_os w))) (\<lambda>st.
     case st of Inl e \<Rightarrow> raise (''stat('' @ dev @ '')'', e)
     | Inr is_chr \<Rightarrow>
       seq (throw_if (\<not> is_chr) (dev @ '' is not a character device'', ENODEV)) (
       bind (sys_call (os_open os dev)) (\<lambda>r.
       case r of Inl e \<Rightarrow> seq (set_cap (\<lambda>c. c\<lparr>vc_fd := -1\<rparr>)) (raise (''open('' @ dev @ '')'', e))
       | Inr fd \<Rightarrow>
         seq (seq (hold (Fd fd)) (set_cap (\<lambda>c. c\<lparr>vc_fd := fd\<rparr>))) (
         seq (query_caps os) (seq (set_format os) (seq (request_buffers os) (
         seq (map_buffers os) (queue_all os)))))))))"

subsection \<open>Streaming\<close>

definition v4l2_start :: "'s v4l2_os \<Rightarrow> ('s, unit) vact" where
  "v4l2_start os =
     bind (gets (\<lambda>w. vc_fd (w_cap w))) (\<lambda>fd.
     seq (xioctl (os_streamon os fd) ''VIDIOC_STREAMON'')
         (set_cap (\<lambda>c. c\<lparr>vc_streaming := True, vc_have_last_sequence := False\<rparr>)))"

text \<open>The bookkeeping of a dequeued buffer: errors, sequence gaps, latency, bytes.\<close>

definition note_gap :: "u32 \<Rightarrow> v4l2_capture \<Rightarrow> v4l2_capture" where
  "note_gap sequence c =
     (if vc_have_last_sequence c \<and> vc_last_sequence c + 1 < sequence
      then c\<lparr>vc_stats := (vc_stats c)\<lparr>st_frames_dropped :=
             st_frames_dropped (vc_stats c) + ucast (sequence - (vc_last_sequence c + 1))\<rparr>\<rparr>
      else c)"

definition note_buffer :: "int \<times> int \<Rightarrow> v4l2_buffer \<Rightarrow> v4l2_capture \<Rightarrow> v4l2_capture" where
  "note_buffer ts buf c0 =
     (let errored = (buf_flags buf AND 0x40 \<noteq> 0);
          c1 = (if errored then c0\<lparr>vc_stats := (vc_stats c0)\<lparr>st_frames_errored := st_frames_errored (vc_stats c0) + 1\<rparr>\<rparr> else c0);
          c2 = (note_gap (buf_sequence buf) c1)\<lparr>vc_last_sequence := buf_sequence buf, vc_have_last_sequence := True\<rparr>;
          latency = f64 (now_monotonic_ms ts - timeval_to_ms (buf_tv_sec buf) (buf_tv_usec buf));
          accum = f64 (vc_latency_accum_ms c2 + latency);
          s = vc_stats c2;
          captured = st_frames_captured s + 1
      in c2\<lparr>vc_latency_accum_ms := accum,
            vc_stats := s\<lparr>st_last_latency_ms := latency, st_frames_captured := captured,
              st_bytes_captured := st_bytes_captured s + ucast (buf_bytesused buf),
              st_avg_latency_ms := f64 (accum / f64 (of_nat (unat captured)))\<rparr>\<rparr>)"

definition frame_of :: "v4l2_buffer \<Rightarrow> buffer_slot \<Rightarrow> v4l2_frame" where
  "frame_of buf s = \<lparr>fr_data = sl_start s, fr_bytes = unat (buf_bytesused buf), fr_index = buf_index buf,
     fr_sequence = buf_sequence buf, fr_timestamp = (buf_tv_sec buf, buf_tv_usec buf),
     fr_dmabuf_fd = sl_dmabuf_fd s, fr_had_error = (buf_flags buf AND 0x40 \<noteq> 0)\<rparr>"

definition v4l2_next :: "'s v4l2_os \<Rightarrow> int \<Rightarrow> ('s, v4l2_frame option) vact" where
  "v4l2_next os timeout_ms =
     bind (gets (\<lambda>w. vc_fd (w_cap w))) (\<lambda>fd.
     bind (xioctl (os_poll os fd timeout_ms) ''poll'') (\<lambda>(pr, revents).
     if pr = 0 then ret None
     else seq (throw_if (revents AND 0x18 \<noteq> 0) (''poll reported POLLERR/POLLHUP'', EIO)) (
     bind (try_catch (bind (xioctl (os_dqbuf os fd MEM_MMAP) ''VIDIOC_DQBUF'') (\<lambda>b. ret (Some b)))
            (\<lambda>e. if snd e = EAGAIN then ret None else raise e)) (\<lambda>b.
     case b of None \<Rightarrow> ret None
     | Some buf \<Rightarrow>
       bind (gets (\<lambda>w. os_clock os (w_os w))) (\<lambda>ts.
       seq (set_cap (note_buffer ts buf)) (
       bind (gets (\<lambda>w. vc_slots (w_cap w))) (\<lambda>slots.
       if unat (buf_index buf) < length slots then ret (Some (frame_of buf (slots ! unat (buf_index buf)))) else undef)))))))"

definition v4l2_release :: "'s v4l2_os \<Rightarrow> v4l2_frame \<Rightarrow> ('s, unit) vact" where
  "v4l2_release os f = queue_buffer os (fr_index f)"

definition v4l2_stop :: "'s v4l2_os \<Rightarrow> ('s, unit) vact" where
  "v4l2_stop os =
     bind (gets w_cap) (\<lambda>c.
     if \<not> vc_streaming c \<or> vc_fd c = -1 then ret ()
     else seq (try_catch (xioctl (os_streamoff os (vc_fd c)) ''VIDIOC_STREAMOFF'') (\<lambda>_. ret ()))
              (set_cap (\<lambda>c. c\<lparr>vc_streaming := False\<rparr>)))"

subsection \<open>Teardown\<close>

definition unmap_slot :: "'s v4l2_os \<Rightarrow> nat \<Rightarrow> ('s, unit) vact" where
  "unmap_slot os i =
     bind (gets (\<lambda>w. vc_slots (w_cap w) ! i)) (\<lambda>s.
     seq (if 0 \<le> sl_dmabuf_fd s then seq (sys_close os (sl_dmabuf_fd s)) (upd_slot i (\<lambda>s. s\<lparr>sl_dmabuf_fd := -1\<rparr>)) else ret ())
         (if sl_start s \<noteq> 0 \<and> sl_length s \<noteq> 0
          then seq (sys_munmap os (sl_start s) (sl_length s)) (upd_slot i (\<lambda>s. s\<lparr>sl_start := 0, sl_length := 0\<rparr>)) else ret ()))"

definition unmap_buffers :: "'s v4l2_os \<Rightarrow> ('s, unit) vact" where
  "unmap_buffers os =
     bind (gets (\<lambda>w. length (vc_slots (w_cap w)))) (\<lambda>n.
     seq (for_eff (unmap_slot os) [0..<n]) (set_cap (\<lambda>c. c\<lparr>vc_slots := []\<rparr>)))"

definition v4l2_close :: "'s v4l2_os \<Rightarrow> ('s, unit) vact" where
  "v4l2_close os =
     seq (unmap_buffers os) (
     bind (gets (\<lambda>w. vc_fd (w_cap w))) (\<lambda>fd.
     if fd \<noteq> -1 then seq (sys_close os fd) (set_cap (\<lambda>c. c\<lparr>vc_fd := -1\<rparr>)) else ret ()))"

definition v4l2_destroy :: "'s v4l2_os \<Rightarrow> ('s, unit) vact" where
  "v4l2_destroy os = seq (try_catch (v4l2_stop os) (\<lambda>_. ret ())) (v4l2_close os)"

subsection \<open>The kernel's contract\<close>

text \<open>What the documentation of V4L2 and of the system calls promises. \<open>granted\<close> and \<open>queued\<close>
  read from the kernel state the number of buffers of the device and the indices on its incoming
  queue. A failed call and a call that is about neither leaves both alone; \<open>REQBUFS\<close> and
  \<open>STREAMOFF\<close> leave the queue empty; a descriptor is not negative, a mapping is neither at
  address zero nor empty.\<close>

type_synonym 's kernel_view = "('s \<Rightarrow> nat) \<times> ('s \<Rightarrow> nat set)"

definition kview :: "'s kernel_view \<Rightarrow> 's \<Rightarrow> nat \<times> nat set" where
  "kview k s = (fst k s, snd k s)"

text \<open>\<open>call_law k call upd\<close>: a failure leaves the view alone, an answer \<open>x\<close> changes it by \<open>upd x\<close>
  and satisfies \<open>ok\<close>.\<close>

definition call_law :: "'s kernel_view \<Rightarrow> ('s \<Rightarrow> (int + 'r) \<times> 's) \<Rightarrow> ('r \<Rightarrow> nat \<times> nat set \<Rightarrow> bool) \<Rightarrow>
    ('r \<Rightarrow> nat \<times> nat set \<Rightarrow> nat \<times> nat set) \<Rightarrow> bool" where
  "call_law k call ok upd \<longleftrightarrow> (\<forall>s r s'. call s = (r, s') \<longrightarrow>
     (case r of Inl e \<Rightarrow> kview k s' = kview k s | Inr x \<Rightarrow> ok x (kview k s) \<and> kview k s' = upd x (kview k s)))"

abbreviation quiet :: "'s kernel_view \<Rightarrow> ('s \<Rightarrow> (int + 'r) \<times> 's) \<Rightarrow> bool" where
  "quiet k call \<equiv> call_law k call (\<lambda>_ _. True) (\<lambda>_ v. v)"

definition v4l2_kernel :: "'s v4l2_os \<Rightarrow> 's kernel_view \<Rightarrow> bool" where
  "v4l2_kernel os k \<longleftrightarrow>
     (\<forall>d. call_law k (os_open os d) (\<lambda>fd _. 0 \<le> fd) (\<lambda>_ v. v)) \<and>
     (\<forall>f. quiet k (os_querycap os f)) \<and> (\<forall>f p. quiet k (os_s_fmt os f p)) \<and>
     (\<forall>f m n. call_law k (os_reqbufs os f m n) (\<lambda>_ _. True) (\<lambda>c v. (unat c, {}))) \<and>
     (\<forall>f m i. quiet k (os_querybuf os f m i)) \<and>
     (\<forall>f i. call_law k (os_expbuf os f i) (\<lambda>fd _. 0 \<le> fd) (\<lambda>_ v. v)) \<and>
     (\<forall>f n off. call_law k (os_mmap os f n off) (\<lambda>p _. p \<noteq> 0 \<and> n \<noteq> 0) (\<lambda>_ v. v)) \<and>
     (\<forall>f m i. call_law k (os_qbuf os f m i) (\<lambda>_ _. True) (\<lambda>_ (n, Q). (n, insert (unat i) Q))) \<and>
     (\<forall>f m. call_law k (os_dqbuf os f m) (\<lambda>b (n, Q). unat (buf_index b) \<in> Q \<and> unat (buf_index b) < n)
        (\<lambda>b (n, Q). (n, Q - {unat (buf_index b)}))) \<and>
     (\<forall>f. quiet k (os_streamon os f)) \<and>
     (\<forall>f. call_law k (os_streamoff os f) (\<lambda>_ _. True) (\<lambda>_ (n, Q). (n, {}))) \<and>
     (\<forall>f t. quiet k (os_poll os f t))"

subsection \<open>What the object holds\<close>

definition slot_held :: "buffer_slot \<Rightarrow> resource multiset" where
  "slot_held s = (if sl_start s \<noteq> 0 \<and> sl_length s \<noteq> 0 then {#Mapping (sl_start s) (sl_length s)#} else {#})
     + (if 0 \<le> sl_dmabuf_fd s then {#Fd (sl_dmabuf_fd s)#} else {#})"

definition cap_held :: "int \<Rightarrow> buffer_slot list \<Rightarrow> resource multiset" where
  "cap_held fd slots = (if fd \<noteq> -1 then {#Fd fd#} else {#}) + sum_list (map slot_held slots)"

text \<open>The part of the world that buffers and descriptors live in.\<close>

record vview =
  vv_fd :: int
  vv_slots :: "buffer_slot list"
  vv_count :: nat
  vv_held :: "resource multiset"
  vv_kernel :: "nat \<times> nat set"

definition view_of :: "'s kernel_view \<Rightarrow> 's v4l2_world \<Rightarrow> vview" where
  "view_of k w = \<lparr>vv_fd = vc_fd (w_cap w), vv_slots = vc_slots (w_cap w),
     vv_count = unat (cfg_buffer_count (vc_cfg (w_cap w))), vv_held = w_held w, vv_kernel = kview k (w_os w)\<rparr>"

definition v_inv :: "vview \<Rightarrow> bool" where
  "v_inv v \<longleftrightarrow> vv_held v = cap_held (vv_fd v) (vv_slots v)"

text \<open>Set up: a descriptor, and every buffer of the device mapped.\<close>

definition v_ready :: "vview \<Rightarrow> bool" where
  "v_ready v \<longleftrightarrow> v_inv v \<and> vv_fd v \<noteq> -1 \<and> 2 \<le> vv_count v \<and> length (vv_slots v) = vv_count v
     \<and> fst (vv_kernel v) = vv_count v \<and> (\<forall>s \<in> set (vv_slots v). sl_start s \<noteq> 0 \<and> sl_length s \<noteq> 0)"

lemma sum_list_update:
  fixes f :: "'a \<Rightarrow> 'b multiset"
  shows "i < length xs \<Longrightarrow> sum_list (map f (xs[i := y])) + f (xs ! i) = sum_list (map f xs) + f y"
  by (induction xs arbitrary: i) (auto simp: ac_simps split: nat.splits)

lemma sum_list_replicate_empty [simp]: "sum_list (replicate n {#}) = {#}"
  by (induction n) auto

lemma slot_held_empty [simp]: "slot_held empty_slot = {#}"
  by (simp add: slot_held_def empty_slot_def)

subsection \<open>Triples of the system calls\<close>

lemma retry_law:
  assumes "call_law k call ok upd" "retry call s = Some (r, s')"
  shows "case r of Inl e \<Rightarrow> kview k s' = kview k s | Inr x \<Rightarrow> ok x (kview k s) \<and> kview k s' = upd x (kview k s)"
proof -
  obtain n where n: "\<forall>j < n. interrupted call (after_calls call j s)" "call (after_calls call n s) = (r, s')"
    using retry_result [OF assms(2)] by auto
  have "m \<le> n \<Longrightarrow> kview k (after_calls call m s) = kview k s" for m
  proof (induction m)
    case (Suc m)
    then have "interrupted call (after_calls call m s)" using n(1) by simp
    then obtain t where "call (after_calls call m s) = (Inl EINTR, t)" by (metis interrupted_def prod.collapse)
    then show ?case using Suc assms(1) by (force simp: call_law_def after_calls_def)
  qed (simp add: after_calls_def)
  then have "kview k (after_calls call n s) = kview k s" by simp
  then show ?thesis using assms(1) [unfolded call_law_def, rule_format, OF n(2)] by (cases r) simp_all
qed

lemma hoare_xioctl:
  assumes "call_law k call ok upd"
  shows "hoare (\<lambda>w. \<forall>s'. (\<forall>x. ok x (kview k (w_os w)) \<longrightarrow> kview k s' = upd x (kview k (w_os w)) \<longrightarrow> Q x (w\<lparr>w_os := s'\<rparr>))
       \<and> (\<forall>e. kview k s' = kview k (w_os w) \<longrightarrow> E (what, e) (w\<lparr>w_os := s'\<rparr>))) (xioctl call what) Q E"
proof (rule hoareI)
  fix w r w'
  assume pre: "\<forall>s'. (\<forall>x. ok x (kview k (w_os w)) \<longrightarrow> kview k s' = upd x (kview k (w_os w)) \<longrightarrow> Q x (w\<lparr>w_os := s'\<rparr>))
       \<and> (\<forall>e. kview k s' = kview k (w_os w) \<longrightarrow> E (what, e) (w\<lparr>w_os := s'\<rparr>))"
    and run: "xioctl call what w = Some (r, w')"
  then obtain a s' where "retry call (w_os w) = Some (a, s')" by (auto simp: xioctl_def split: option.splits)
  then show "case r of Ok a \<Rightarrow> Q a w' | Throw e \<Rightarrow> E e w' | Undef \<Rightarrow> False"
    using run pre retry_law [OF assms] by (cases a) (force simp: xioctl_def)+
qed

lemma hoare_sys_call:
  assumes "call_law k call ok upd"
  shows "hoare (\<lambda>w. \<forall>s'. (\<forall>x. ok x (kview k (w_os w)) \<longrightarrow> kview k s' = upd x (kview k (w_os w)) \<longrightarrow> Q (Inr x) (w\<lparr>w_os := s'\<rparr>))
       \<and> (\<forall>e. kview k s' = kview k (w_os w) \<longrightarrow> Q (Inl e) (w\<lparr>w_os := s'\<rparr>))) (sys_call call) Q E"
proof (rule hoareI)
  fix w r w'
  assume pre: "\<forall>s'. (\<forall>x. ok x (kview k (w_os w)) \<longrightarrow> kview k s' = upd x (kview k (w_os w)) \<longrightarrow> Q (Inr x) (w\<lparr>w_os := s'\<rparr>))
       \<and> (\<forall>e. kview k s' = kview k (w_os w) \<longrightarrow> Q (Inl e) (w\<lparr>w_os := s'\<rparr>))"
    and run: "sys_call call w = Some (r, w')"
  obtain a s' where "call (w_os w) = (a, s')" by fastforce
  then show "case r of Ok a \<Rightarrow> Q a w' | Throw e \<Rightarrow> E e w' | Undef \<Rightarrow> False"
    using run pre assms by (cases a) (force simp: sys_call_def call_law_def)+
qed

lemma kernel_law:
  assumes "v4l2_kernel os k"
  shows "call_law k (os_open os d) (\<lambda>fd _. 0 \<le> fd) (\<lambda>_ v. v)"
    and "quiet k (os_querycap os f)" and "quiet k (os_s_fmt os f p)"
    and "call_law k (os_reqbufs os f m c) (\<lambda>_ _. True) (\<lambda>c v. (unat c, {}))"
    and "quiet k (os_querybuf os f m i)"
    and "call_law k (os_expbuf os f i) (\<lambda>fd _. 0 \<le> fd) (\<lambda>_ v. v)"
    and "call_law k (os_mmap os f len off) (\<lambda>p _. p \<noteq> 0 \<and> len \<noteq> 0) (\<lambda>_ v. v)"
    and "call_law k (os_qbuf os f m i) (\<lambda>_ _. True) (\<lambda>_ (n, Q). (n, insert (unat i) Q))"
    and "call_law k (os_dqbuf os f m) (\<lambda>b (n, Q). unat (buf_index b) \<in> Q \<and> unat (buf_index b) < n)
        (\<lambda>b (n, Q). (n, Q - {unat (buf_index b)}))"
    and "quiet k (os_streamon os f)"
    and "call_law k (os_streamoff os f) (\<lambda>_ _. True) (\<lambda>_ (n, Q). (n, {}))"
    and "quiet k (os_poll os f t)"
  using assms by (simp_all add: v4l2_kernel_def)

lemma hoare_set_cap [hoare_rules]: "hoare (\<lambda>w. Q () (w\<lparr>w_cap := f (w_cap w)\<rparr>)) (set_cap f) Q E"
  unfolding set_cap_def by (rule hoare_modify)

lemma hoare_hold [hoare_rules]: "hoare (\<lambda>w. Q () (w\<lparr>w_held := add_mset r (w_held w)\<rparr>)) (hold r) Q E"
  unfolding hold_def by (rule hoare_modify)

lemma hoare_sys_close [hoare_rules]:
  "hoare (\<lambda>w. Q () (w\<lparr>w_os := os_close os fd (w_os w), w_held := w_held w - {#Fd fd#}\<rparr>)) (sys_close os fd) Q E"
  unfolding sys_close_def by (rule hoare_modify)

lemma hoare_sys_munmap [hoare_rules]:
  "hoare (\<lambda>w. Q () (w\<lparr>w_os := os_munmap os p n (w_os w), w_held := w_held w - {#Mapping p n#}\<rparr>)) (sys_munmap os p n) Q E"
  unfolding sys_munmap_def by (rule hoare_modify)

lemma hoare_upd_slot [hoare_rules]:
  "hoare (\<lambda>w. i < length (vc_slots (w_cap w)) \<and>
      Q () (w\<lparr>w_cap := (w_cap w)\<lparr>vc_slots := (vc_slots (w_cap w))[i := f (vc_slots (w_cap w) ! i)]\<rparr>\<rparr>)) (upd_slot i f) Q E"
  by (simp add: hoare_def upd_slot_def eff_defs set_cap_def)

subsection \<open>Triples of the methods\<close>

abbreviation at_view :: "'s kernel_view \<Rightarrow> vview \<Rightarrow> 's v4l2_world \<Rightarrow> bool" where
  "at_view k v w \<equiv> view_of k w = v"

lemma query_caps_keeps:
  "v4l2_kernel os k \<Longrightarrow> hoare (at_view k v) (query_caps os) (\<lambda>_. at_view k v) (\<lambda>_. at_view k v)"
  unfolding query_caps_def
  by (rule hoare_pre, (rule hoare_rules hoare_xioctl [OF kernel_law(2)] | assumption)+) (auto simp: view_of_def)

lemma set_format_keeps:
  "v4l2_kernel os k \<Longrightarrow> hoare (at_view k v) (set_format os) (\<lambda>_. at_view k v) (\<lambda>_. at_view k v)"
  unfolding set_format_def Let_def
  by (rule hoare_pre, (rule hoare_rules hoare_xioctl [OF kernel_law(3)] | assumption)+) (auto simp: view_of_def)

lemma request_buffers_grants:
  "v4l2_kernel os k \<Longrightarrow> vv_slots v = [] \<Longrightarrow>
   hoare (at_view k v) (request_buffers os)
     (\<lambda>_ w. \<exists>n \<ge> 2. at_view k (v\<lparr>vv_slots := replicate n empty_slot, vv_count := n, vv_kernel := (n, {})\<rparr>) w)
     (\<lambda>_ w. \<exists>K. at_view k (v\<lparr>vv_kernel := K\<rparr>) w)"
  unfolding request_buffers_def Let_def
  by (rule hoare_pre, (rule hoare_rules hoare_xioctl [OF kernel_law(4)] | assumption)+)
    (auto simp: view_of_def resize_slots_def word_less_nat_alt not_less)

lemma queue_buffer_queues:
  "v4l2_kernel os k \<Longrightarrow>
   hoare (at_view k v) (queue_buffer os i)
     (\<lambda>_. at_view k (v\<lparr>vv_kernel := (fst (vv_kernel v), insert (unat i) (snd (vv_kernel v)))\<rparr>)) (\<lambda>_. at_view k v)"
  unfolding queue_buffer_def
  by (rule hoare_pre, (rule hoare_rules hoare_xioctl [OF kernel_law(8)] | assumption)+)
    (auto simp: view_of_def split: prod.splits)

lemma queue_all_queues:
  assumes "v4l2_kernel os k" "vv_count v < 2 ^ 32" "vv_kernel v = (vv_count v, {})"
  shows "hoare (at_view k v) (queue_all os)
     (\<lambda>_. at_view k (v\<lparr>vv_kernel := (vv_count v, {..<vv_count v})\<rparr>)) (\<lambda>_ w. \<exists>K. at_view k (v\<lparr>vv_kernel := K\<rparr>) w)"
proof -
  let ?I = "\<lambda>j. at_view k (v\<lparr>vv_kernel := (vv_count v, {..<j})\<rparr>)"
  let ?E = "\<lambda>_ w. \<exists>K. at_view k (v\<lparr>vv_kernel := K\<rparr>) w"
  have "hoare (?I j) (queue_buffer os (of_nat j)) (\<lambda>_. ?I (Suc j)) ?E" if "j < vv_count v" for j
    by (rule hoare_conseq [OF queue_buffer_queues [OF assms(1)]])
      (use that assms(2) in \<open>auto simp: unat_of_nat_small lessThan_Suc\<close>)
  then have "hoare (?I 0) (for_eff (\<lambda>i. queue_buffer os (of_nat i)) [0..<vv_count v]) (\<lambda>_. ?I (vv_count v)) ?E"
    by (intro hoare_for_upt) auto
  moreover have "v\<lparr>vv_kernel := (vv_count v, {})\<rparr> = v" using assms(3) by simp
  ultimately show ?thesis
    unfolding queue_all_def by (intro hoare_gets_const [where c = "vv_count v"]) (auto simp: view_of_def)
qed

lemma map_slot_held:
  assumes "i < length xs" "xs ! i = empty_slot" "H = cap_held fd xs" "p \<noteq> 0" "len \<noteq> 0"
  shows "add_mset (Mapping p len) H = cap_held fd (xs[i := empty_slot\<lparr>sl_start := p, sl_length := len\<rparr>])"
    "0 \<le> dfd \<Longrightarrow> add_mset (Fd dfd) (add_mset (Mapping p len) H)
       = cap_held fd (xs[i := empty_slot\<lparr>sl_start := p, sl_length := len, sl_dmabuf_fd := dfd\<rparr>])"
proof -
  have "sum_list (map slot_held (xs[i := y])) = sum_list (map slot_held xs) + slot_held y" for y
    using sum_list_update [OF assms(1), of slot_held y] assms(2) by simp
  then show "add_mset (Mapping p len) H = cap_held fd (xs[i := empty_slot\<lparr>sl_start := p, sl_length := len\<rparr>])"
    "0 \<le> dfd \<Longrightarrow> add_mset (Fd dfd) (add_mset (Mapping p len) H)
       = cap_held fd (xs[i := empty_slot\<lparr>sl_start := p, sl_length := len, sl_dmabuf_fd := dfd\<rparr>])"
    using assms(3-5) by (simp_all add: cap_held_def slot_held_def empty_slot_def)
qed

text \<open>The buffers below \<open>i\<close> are mapped, the others still empty.\<close>

definition mapped_upto :: "vview \<Rightarrow> nat \<Rightarrow> vview \<Rightarrow> bool" where
  "mapped_upto v i v' \<longleftrightarrow> v_inv v' \<and> vv_fd v' = vv_fd v \<and> vv_count v' = vv_count v \<and> vv_kernel v' = vv_kernel v
     \<and> length (vv_slots v') = vv_count v \<and> (\<forall>j < i. sl_start (vv_slots v' ! j) \<noteq> 0 \<and> sl_length (vv_slots v' ! j) \<noteq> 0)
     \<and> (\<forall>j < vv_count v. i \<le> j \<longrightarrow> vv_slots v' ! j = empty_slot)"

lemma mapped_upto_step:
  assumes "mapped_upto v i v'" "i < vv_count v" "p \<noteq> 0" "len \<noteq> 0"
  shows "mapped_upto v (Suc i) (v'\<lparr>vv_slots := (vv_slots v')[i := (vv_slots v' ! i)\<lparr>sl_start := p, sl_length := len\<rparr>],
      vv_held := add_mset (Mapping p len) (vv_held v')\<rparr>)"
    and "0 \<le> dfd \<Longrightarrow> mapped_upto v (Suc i) (v'\<lparr>vv_slots := (vv_slots v')[i := (vv_slots v' ! i)\<lparr>sl_start := p, sl_length := len, sl_dmabuf_fd := dfd\<rparr>],
      vv_held := add_mset (Fd dfd) (add_mset (Mapping p len) (vv_held v'))\<rparr>)"
  using assms map_slot_held(1) [of i "vv_slots v'" "vv_held v'" "vv_fd v'" p len]
    map_slot_held(2) [of i "vv_slots v'" "vv_held v'" "vv_fd v'" p len dfd]
  by (auto simp: mapped_upto_def v_inv_def nth_list_update less_Suc_eq)

lemma map_buffer_maps:
  assumes "v4l2_kernel os k" "i < vv_count v"
  shows "hoare (\<lambda>w. mapped_upto v i (view_of k w)) (map_buffer os i)
     (\<lambda>_ w. mapped_upto v (Suc i) (view_of k w)) (\<lambda>_ w. v_inv (view_of k w))"
  unfolding map_buffer_def
proof (rule hoare_pre, (rule hoare_rules hoare_xioctl [OF kernel_law(5) [OF assms(1)]] hoare_sys_call [OF kernel_law(7) [OF assms(1)]]
      hoare_xioctl [OF kernel_law(6) [OF assms(1)]])+, goal_cases)
  case (1 w)
  have len: "i < length (vc_slots (w_cap w))" using 1 assms(2) by (simp add: mapped_upto_def view_of_def)
  note step = mapped_upto_step [OF 1 assms(2)]
  have "v_inv (view_of k w)" using 1 by (simp add: mapped_upto_def)
  moreover have inv: "mapped_upto v j x \<Longrightarrow> v_inv x" for j x by (simp add: mapped_upto_def)
  ultimately show ?case
    using len step step [THEN inv] by (auto simp: view_of_def v_inv_def)
qed

lemma map_buffers_maps:
  assumes "v4l2_kernel os k" "v_inv v" "vv_slots v = replicate (vv_count v) empty_slot"
  shows "hoare (at_view k v) (map_buffers os)
     (\<lambda>_ w. mapped_upto v (vv_count v) (view_of k w)) (\<lambda>_ w. v_inv (view_of k w))"
proof -
  have "hoare (\<lambda>w. mapped_upto v 0 (view_of k w)) (for_eff (map_buffer os) [0..<vv_count v])
     (\<lambda>_ w. mapped_upto v (vv_count v) (view_of k w)) (\<lambda>_ w. v_inv (view_of k w))"
    using map_buffer_maps [OF assms(1)] by (intro hoare_for_upt) auto
  then have "hoare (at_view k v) (for_eff (map_buffer os) [0..<vv_count v])
     (\<lambda>_ w. mapped_upto v (vv_count v) (view_of k w)) (\<lambda>_ w. v_inv (view_of k w))"
    by (rule hoare_pre) (use assms(2,3) in \<open>auto simp: mapped_upto_def\<close>)
  then show ?thesis
    unfolding map_buffers_def by (intro hoare_gets_const [where c = "vv_count v"]) (auto simp: view_of_def)
qed

lemma hoare_ex_pre: "(\<And>x. hoare (P x) m Q E) \<Longrightarrow> hoare (\<lambda>w. \<exists>x. P x w) m Q E"
  by (auto simp: hoare_def)

lemma hoare_conj_pre: "(b \<Longrightarrow> hoare P m Q E) \<Longrightarrow> hoare (\<lambda>w. b \<and> P w) m Q E"
  by (auto simp: hoare_def)

text \<open>From a mapped device with an empty queue to every buffer queued.\<close>

lemma queue_mapped:
  assumes "v4l2_kernel os k" "2 \<le> vv_count v" "vv_fd v \<noteq> -1" "vv_kernel v = (vv_count v, {})" "vv_count v < 2 ^ 32"
  shows "hoare (\<lambda>w. mapped_upto v (vv_count v) (view_of k w)) (queue_all os)
     (\<lambda>_ w. v_ready (view_of k w) \<and> snd (vv_kernel (view_of k w)) = {..<vv_count (view_of k w)}) (\<lambda>_ w. v_inv (view_of k w))"
proof -
  have "hoare (\<lambda>w. \<exists>u. mapped_upto v (vv_count v) u \<and> at_view k u w) (queue_all os)
     (\<lambda>_ w. v_ready (view_of k w) \<and> snd (vv_kernel (view_of k w)) = {..<vv_count (view_of k w)}) (\<lambda>_ w. v_inv (view_of k w))"
    by (intro hoare_ex_pre hoare_conj_pre, rule hoare_conseq [OF queue_all_queues [OF assms(1)]])
      (use assms(2-5) in \<open>auto simp: mapped_upto_def v_ready_def v_inv_def in_set_conv_nth\<close>)
  then show ?thesis by simp
qed

lemma setup_ready:
  assumes "v4l2_kernel os k" "v_inv v" "vv_slots v = []" "vv_fd v \<noteq> -1"
  shows "hoare (at_view k v) (seq (query_caps os) (seq (set_format os) (seq (request_buffers os) (seq (map_buffers os) (queue_all os)))))
     (\<lambda>_ w. v_ready (view_of k w) \<and> snd (vv_kernel (view_of k w)) = {..<vv_count (view_of k w)}) (\<lambda>_ w. v_inv (view_of k w))"
proof -
  let ?Q = "\<lambda>_ w. v_ready (view_of k w) \<and> snd (vv_kernel (view_of k w)) = {..<vv_count (view_of k w)}"
  let ?E = "\<lambda>_ w. v_inv (view_of k w)"
  define u where "u n = v\<lparr>vv_slots := replicate n empty_slot, vv_count := n, vv_kernel := (n, {})\<rparr>" for n
  have "hoare (\<lambda>w. n < 2 ^ 32 \<and> 2 \<le> n \<and> at_view k (u n) w) (seq (map_buffers os) (queue_all os)) ?Q ?E" for n
  proof (intro hoare_conj_pre)
    assume n: "n < 2 ^ 32" "2 \<le> n"
    have "v_inv (u n)" using assms(2,3) by (simp add: v_inv_def u_def cap_held_def)
    then show "hoare (at_view k (u n)) (seq (map_buffers os) (queue_all os)) ?Q ?E"
      using map_buffers_maps [OF assms(1), of "u n"] queue_mapped [OF assms(1), of "u n"] n assms(4)
      by (intro hoare_seq [where R = "\<lambda>w. mapped_upto (u n) n (view_of k w)"]) (auto simp: u_def)
  qed
  then have tail: "hoare (\<lambda>w. \<exists>n. n < 2 ^ 32 \<and> 2 \<le> n \<and> at_view k (u n) w) (seq (map_buffers os) (queue_all os)) ?Q ?E"
    by (rule hoare_ex_pre)
  have "n < 2 ^ 32" if "at_view k (u n) w" for n w
    using arg_cong [OF that, of vv_count] unsigned_less [of "cfg_buffer_count (vc_cfg (w_cap w))", where 'a = nat]
    by (auto simp: view_of_def u_def)
  then have req: "hoare (at_view k v) (request_buffers os) (\<lambda>_ w. \<exists>n. n < 2 ^ 32 \<and> 2 \<le> n \<and> at_view k (u n) w) ?E"
    by (intro hoare_conseq [OF request_buffers_grants [OF assms(1,3)]]) (use assms(2) in \<open>auto simp: u_def v_inv_def\<close>)
  have keep: "\<And>m. hoare (at_view k v) m (\<lambda>_. at_view k v) (\<lambda>_. at_view k v) \<Longrightarrow> hoare (at_view k v) m (\<lambda>_. at_view k v) ?E"
    by (erule hoare_conseq) (use assms(2) in auto)
  show ?thesis
    by (rule hoare_seq [OF hoare_seq [OF hoare_seq [OF tail req] keep [OF set_format_keeps [OF assms(1)]]]
          keep [OF query_caps_keeps [OF assms(1)]]])
qed

lemma open_ready:
  assumes "v4l2_kernel os k" "v_inv v" "vv_slots v = []" "vv_fd v = -1"
  shows "hoare (at_view k v) (v4l2_open os)
     (\<lambda>_ w. v_ready (view_of k w) \<and> snd (vv_kernel (view_of k w)) = {..<vv_count (view_of k w)}) (\<lambda>_ w. v_inv (view_of k w))"
proof -
  have "v_inv (v\<lparr>vv_fd := fd, vv_held := add_mset (Fd fd) (vv_held v)\<rparr>)" if "0 \<le> fd" for fd
    using that assms(2-4) by (simp add: v_inv_def cap_held_def)
  note init = setup_ready [OF assms(1) this]
  have go: "hoare (\<lambda>w. 0 \<le> fd \<and> at_view k (v\<lparr>vv_fd := fd, vv_held := add_mset (Fd fd) (vv_held v)\<rparr>) w)
     (seq (query_caps os) (seq (set_format os) (seq (request_buffers os) (seq (map_buffers os) (queue_all os)))))
     (\<lambda>_ w. v_ready (view_of k w) \<and> snd (vv_kernel (view_of k w)) = {..<vv_count (view_of k w)}) (\<lambda>_ w. v_inv (view_of k w))" for fd
    by (intro hoare_conj_pre init) (use assms(3) in auto)
  note rules = hoare_bind hoare_gets hoare_raise hoare_throw_if hoare_case_sum hoare_set_cap hoare_hold hoare_sys_call [OF kernel_law(1) [OF assms(1)]]
  show ?thesis
    unfolding v4l2_open_def
    by (rule hoare_pre, (rule rules hoare_seq [OF go] hoare_seq)+)
      (use assms(2-4) in \<open>auto simp: view_of_def v_inv_def cap_held_def split: sum.splits\<close>)
qed

lemma start_keeps:
  "v4l2_kernel os k \<Longrightarrow> hoare (at_view k v) (v4l2_start os) (\<lambda>_. at_view k v) (\<lambda>_. at_view k v)"
  unfolding v4l2_start_def
  by (rule hoare_pre, (rule hoare_rules hoare_xioctl [OF kernel_law(10)] | assumption)+) (auto simp: view_of_def)

lemma note_buffer_slots [simp]:
  "vc_slots (note_buffer ts buf c) = vc_slots c" "vc_fd (note_buffer ts buf c) = vc_fd c" "vc_cfg (note_buffer ts buf c) = vc_cfg c"
  "vc_streaming (note_buffer ts buf c) = vc_streaming c"
  by (simp_all add: note_buffer_def note_gap_def Let_def)

lemma next_takes:
  assumes "v4l2_kernel os k" "v_ready v"
  shows "hoare (at_view k v) (v4l2_next os t)
     (\<lambda>r w. case r of None \<Rightarrow> at_view k v w
        | Some f \<Rightarrow> unat (fr_index f) \<in> snd (vv_kernel v) \<and> unat (fr_index f) < vv_count v
            \<and> fr_data f = sl_start (vv_slots v ! unat (fr_index f))
            \<and> at_view k (v\<lparr>vv_kernel := (vv_count v, snd (vv_kernel v) - {unat (fr_index f)})\<rparr>) w)
     (\<lambda>_. at_view k v)"
  unfolding v4l2_next_def
  by (rule hoare_pre, (rule hoare_rules hoare_xioctl [OF kernel_law(12) [OF assms(1)]] hoare_xioctl [OF kernel_law(9) [OF assms(1)]])+)
    (use assms(2) in \<open>auto simp: view_of_def v_ready_def frame_of_def split: prod.splits\<close>)

lemma stop_quiet:
  assumes "v4l2_kernel os k"
  shows "hoare (at_view k v) (v4l2_stop os)
     (\<lambda>_ w. at_view k v w \<or> at_view k (v\<lparr>vv_kernel := (fst (vv_kernel v), {})\<rparr>) w) (\<lambda>_ _. False)"
  unfolding v4l2_stop_def
  by (rule hoare_pre, (rule hoare_rules hoare_xioctl [OF kernel_law(11) [OF assms(1)]])+)
    (auto simp: view_of_def split: prod.splits)

text \<open>Teardown needs no law of the kernel: it only gives back.\<close>

definition holds_own :: "'s v4l2_world \<Rightarrow> bool" where
  "holds_own w \<longleftrightarrow> w_held w = cap_held (vc_fd (w_cap w)) (vc_slots (w_cap w))"

lemma holds_own_view: "v_inv (view_of k w) \<longleftrightarrow> holds_own w"
  by (simp add: v_inv_def view_of_def holds_own_def)

lemma cap_held_clear:
  assumes "i < length xs" "slot_held y = {#}"
  shows "cap_held fd xs - slot_held (xs ! i) = cap_held fd (xs[i := y])"
proof -
  have "cap_held fd xs = cap_held fd (xs[i := y]) + slot_held (xs ! i)"
    using sum_list_update [OF assms(1), of slot_held y] assms(2) by (simp add: cap_held_def)
  then show ?thesis by simp
qed

lemma unmap_slot_clears:
  "hoare (\<lambda>w. holds_own w \<and> vc_fd (w_cap w) = fd \<and> length (vc_slots (w_cap w)) = n \<and> i < n
       \<and> (\<forall>j < i. slot_held (vc_slots (w_cap w) ! j) = {#})) (unmap_slot os i)
     (\<lambda>_ w. holds_own w \<and> vc_fd (w_cap w) = fd \<and> length (vc_slots (w_cap w)) = n
       \<and> (\<forall>j < Suc i. slot_held (vc_slots (w_cap w) ! j) = {#})) (\<lambda>_ _. False)"
  unfolding unmap_slot_def
proof (rule hoare_pre, (rule hoare_rules)+, goal_cases)
  case (1 w)
  then have i: "i < length (vc_slots (w_cap w))" by simp
  define x where "x = vc_slots (w_cap w) ! i"
  have clear: "cap_held fd (vc_slots (w_cap w)) - slot_held x = cap_held fd ((vc_slots (w_cap w))[i := y])"
    if "slot_held y = {#}" for y using cap_held_clear [OF i that] by (simp add: x_def)
  have same: "(vc_slots (w_cap w))[i := x] = vc_slots (w_cap w)" by (simp add: x_def)
  have empty: "slot_held (x\<lparr>sl_dmabuf_fd := -1, sl_start := 0, sl_length := 0\<rparr>) = {#}"
    "\<not> (sl_start x \<noteq> 0 \<and> sl_length x \<noteq> 0) \<Longrightarrow> slot_held (x\<lparr>sl_dmabuf_fd := -1\<rparr>) = {#}"
    "\<not> 0 \<le> sl_dmabuf_fd x \<Longrightarrow> slot_held (x\<lparr>sl_start := 0, sl_length := 0\<rparr>) = {#}"
    "\<not> 0 \<le> sl_dmabuf_fd x \<Longrightarrow> \<not> (sl_start x \<noteq> 0 \<and> sl_length x \<noteq> 0) \<Longrightarrow> slot_held x = {#}"
    by (auto simp: slot_held_def)
  show ?case
    using 1 i empty clear [OF empty(1)] clear [OF empty(2)] clear [OF empty(3)] same
    by (auto simp: holds_own_def slot_held_def [of x] x_def [symmetric] nth_list_update less_Suc_eq add_mset_commute)
qed

lemma unmap_buffers_clears:
  "hoare (\<lambda>w. holds_own w \<and> vc_fd (w_cap w) = fd) (unmap_buffers os)
     (\<lambda>_ w. w_held w = cap_held fd [] \<and> vc_fd (w_cap w) = fd \<and> vc_slots (w_cap w) = []) (\<lambda>_ _. False)"
proof -
  let ?I = "\<lambda>n i w. holds_own w \<and> vc_fd (w_cap w) = fd \<and> length (vc_slots (w_cap w)) = n
       \<and> (\<forall>j < i. slot_held (vc_slots (w_cap w) ! j) = {#})"
  have "hoare (?I n i) (unmap_slot os i) (\<lambda>_. ?I n (Suc i)) (\<lambda>_ _. False)" if "i < n" for i n
    by (rule hoare_pre [OF unmap_slot_clears]) (use that in auto)
  then have loop: "hoare (?I n 0) (for_eff (unmap_slot os) [0..<n]) (\<lambda>_. ?I n n) (\<lambda>_ _. False)" for n
    using hoare_for_upt [where I = "?I n" and m = 0 and n = n] by blast
  have gone: "cap_held f xs = cap_held f []" if "\<forall>j < length xs. slot_held (xs ! j) = {#}" for xs f
  proof -
    have "map slot_held xs = replicate (length xs) {#}" using that by (intro nth_equalityI) auto
    then show ?thesis by (simp add: cap_held_def)
  qed
  have body: "hoare (?I n 0) (seq (for_eff (unmap_slot os) [0..<n]) (set_cap (\<lambda>c. c\<lparr>vc_slots := []\<rparr>)))
      (\<lambda>_ w. w_held w = cap_held fd [] \<and> vc_fd (w_cap w) = fd \<and> vc_slots (w_cap w) = []) (\<lambda>_ _. False)" for n
    by (rule hoare_seq [OF hoare_set_cap], rule hoare_conseq [OF loop]) (auto simp: holds_own_def intro: gone)
  show ?thesis
    unfolding unmap_buffers_def
    by (rule hoare_pre, rule hoare_bind [OF body hoare_gets]) auto
qed

lemma close_releases:
  "hoare holds_own (v4l2_close os) (\<lambda>_ w. w_held w = {#} \<and> vc_fd (w_cap w) = -1 \<and> vc_slots (w_cap w) = []) (\<lambda>_ _. False)"
proof -
  have "hoare (\<lambda>w. holds_own w \<and> vc_fd (w_cap w) = fd) (v4l2_close os)
     (\<lambda>_ w. w_held w = {#} \<and> vc_fd (w_cap w) = -1 \<and> vc_slots (w_cap w) = []) (\<lambda>_ _. False)" for fd
    unfolding v4l2_close_def
  proof (rule hoare_seq [OF _ unmap_buffers_clears], rule hoare_pre)
    show "hoare (\<lambda>w. if vc_fd (w_cap w) \<noteq> -1
          then w_held w - {#Fd (vc_fd (w_cap w))#} = {#} \<and> vc_slots (w_cap w) = [] else w_held w = {#} \<and> vc_slots (w_cap w) = [])
        (bind (gets (\<lambda>w. vc_fd (w_cap w))) (\<lambda>fd. if fd \<noteq> - 1 then seq (sys_close os fd) (set_cap (vc_fd_update (\<lambda>_. - 1))) else ret ()))
        (\<lambda>_ w. w_held w = {#} \<and> vc_fd (w_cap w) = -1 \<and> vc_slots (w_cap w) = []) (\<lambda>_ _. False)"
      by (rule hoare_pre, (rule hoare_rules)+) auto
  qed (auto simp: cap_held_def)
  then show ?thesis by (auto simp: hoare_def)
qed

lemma stop_holds_own: "hoare holds_own (v4l2_stop os) (\<lambda>_. holds_own) (\<lambda>_ _. False)"
  unfolding v4l2_stop_def
  by (auto simp: hoare_def eff_defs xioctl_def set_cap_def holds_own_def split: option.splits sum.splits prod.splits outcome.splits if_splits)

lemma destroy_releases: "hoare holds_own (v4l2_destroy os) (\<lambda>_ w. w_held w = {#}) (\<lambda>_ _. False)"
  unfolding v4l2_destroy_def
  by (rule hoare_seq [where R = holds_own], rule hoare_conseq [OF close_releases])
    (auto intro: hoare_try [OF _ stop_holds_own] hoare_pre [OF hoare_ret])

subsection \<open>Termination\<close>

text \<open>A kernel that interrupts no call for ever.\<close>

definition answers :: "('s \<Rightarrow> (int + 'r) \<times> 's) \<Rightarrow> bool" where
  "answers call \<longleftrightarrow> (\<forall>s. \<exists>n. \<not> interrupted call (after_calls call n s))"

definition v4l2_answers :: "'s v4l2_os \<Rightarrow> bool" where
  "v4l2_answers os \<longleftrightarrow> (\<forall>f. answers (os_querycap os f) \<and> answers (os_streamon os f) \<and> answers (os_streamoff os f))
     \<and> (\<forall>f p. answers (os_s_fmt os f p)) \<and> (\<forall>f m n. answers (os_reqbufs os f m n) \<and> answers (os_querybuf os f m n) \<and> answers (os_qbuf os f m n))
     \<and> (\<forall>f i. answers (os_expbuf os f i)) \<and> (\<forall>f m. answers (os_dqbuf os f m)) \<and> (\<forall>f t. answers (os_poll os f t))"

lemma returns_xioctl [returns_rules]: "answers call \<Longrightarrow> returns (xioctl call what)"
  using retry_returns_iff [of call]
  by (fastforce simp: answers_def returns_def xioctl_def split: option.splits sum.splits)

lemma returns_case [returns_rules]:
  "returns m \<Longrightarrow> (\<And>x. returns (f x)) \<Longrightarrow> returns (case v of None \<Rightarrow> m | Some x \<Rightarrow> f x)"
  "(\<And>x. returns (g x)) \<Longrightarrow> (\<And>y. returns (h y)) \<Longrightarrow> returns (case u of Inl x \<Rightarrow> g x | Inr y \<Rightarrow> h y)"
  "(\<And>x y. returns (j x y)) \<Longrightarrow> returns (case p of (x, y) \<Rightarrow> j x y)"
  by (cases v, auto) (cases u, auto, cases p, auto)

lemma returns_sys [returns_rules]:
  "returns (sys_call call)" "returns (set_cap f)" "returns (hold r)" "returns (sys_close os fd)" "returns (sys_munmap os p n)"
  "returns (upd_slot i g)"
  by (auto simp: returns_def sys_call_def set_cap_def hold_def sys_close_def sys_munmap_def upd_slot_def eff_defs split: prod.splits)

lemma methods_return:
  assumes "v4l2_answers os"
  shows "returns (v4l2_open os)" "returns (v4l2_start os)" "returns (v4l2_next os t)" "returns (v4l2_release os f)"
    "returns (v4l2_stop os)" "returns (v4l2_close os)" "returns (v4l2_destroy os)"
  using assms
  unfolding v4l2_open_def v4l2_start_def v4l2_next_def v4l2_release_def v4l2_stop_def v4l2_close_def v4l2_destroy_def
    query_caps_def set_format_def request_buffers_def map_buffers_def map_buffer_def queue_all_def queue_buffer_def
    unmap_buffers_def unmap_slot_def Let_def v4l2_answers_def
  by (intro returns_rules; simp)+

subsection \<open>Sessions\<close>

text \<open>A use of the object as the callers have it: construct, \<open>open\<close>, any calls, and the destructor
  when the scope ends, by an exception or not.\<close>

datatype v4l2_op = OpStart | OpNext int | OpRelease v4l2_frame | OpStop

fun run_op :: "'s v4l2_os \<Rightarrow> v4l2_op \<Rightarrow> ('s, unit) vact" where
  "run_op os OpStart = v4l2_start os"
| "run_op os (OpNext t) = seq (v4l2_next os t) (ret ())"
| "run_op os (OpRelease f) = v4l2_release os f"
| "run_op os OpStop = v4l2_stop os"

definition v4l2_session :: "'s v4l2_os \<Rightarrow> v4l2_op list \<Rightarrow> ('s, unit) vact" where
  "v4l2_session os ops = seq (try_catch (seq (v4l2_open os) (for_eff (run_op os) ops)) (\<lambda>_. ret ())) (v4l2_destroy os)"

lemma ready_inv: "v_ready v \<Longrightarrow> v_inv v"
  by (simp add: v_ready_def)

lemma ready_kernel: "v_ready v \<Longrightarrow> fst K = fst (vv_kernel v) \<Longrightarrow> v_ready (v\<lparr>vv_kernel := K\<rparr>)"
  by (simp add: v_ready_def v_inv_def)

lemma hoare_at_view:
  "(\<And>w. P w \<Longrightarrow> hoare (at_view k (view_of k w)) m Q E) \<Longrightarrow> hoare P m Q E"
  by (auto simp: hoare_def)

lemma hoare_ready:
  assumes "\<And>v. v_ready v \<Longrightarrow> hoare (at_view k v) m (\<lambda>_ w. v_ready (view_of k w)) (\<lambda>_ w. v_ready (view_of k w))"
  shows "hoare (\<lambda>w. v_ready (view_of k w)) m (\<lambda>_ w. v_ready (view_of k w)) (\<lambda>_ w. v_ready (view_of k w))"
  using assms by (auto simp: hoare_def)

lemma run_op_ready:
  assumes "v4l2_kernel os k"
  shows "hoare (\<lambda>w. v_ready (view_of k w)) (run_op os op) (\<lambda>_ w. v_ready (view_of k w)) (\<lambda>_ w. v_ready (view_of k w))"
proof (rule hoare_ready)
  fix v assume v: "v_ready v"
  show "hoare (at_view k v) (run_op os op) (\<lambda>_ w. v_ready (view_of k w)) (\<lambda>_ w. v_ready (view_of k w))"
  proof (cases op)
    case OpStart
    then show ?thesis using v hoare_conseq [OF start_keeps [OF assms, of v]] by simp
  next
    case (OpNext t)
    have "hoare (at_view k v) (v4l2_next os t) (\<lambda>_ w. v_ready (view_of k w)) (\<lambda>_ w. v_ready (view_of k w))"
      by (rule hoare_conseq [OF next_takes [OF assms v]])
        (use v in \<open>auto simp: v_ready_def v_inv_def split: option.splits\<close>)
    then show ?thesis using OpNext hoare_seq [OF hoare_ret] by simp
  next
    case (OpRelease f)
    show ?thesis unfolding OpRelease run_op.simps v4l2_release_def
      by (rule hoare_conseq [OF queue_buffer_queues [OF assms]]) (use v ready_kernel in auto)
  next
    case OpStop
    show ?thesis unfolding OpStop run_op.simps
      by (rule hoare_conseq [OF stop_quiet [OF assms]]) (use v ready_kernel in auto)
  qed
qed

lemma open_fresh:
  assumes "v4l2_kernel os k"
  shows "hoare (\<lambda>w. w_cap w = vc_new cfg \<and> w_held w = {#}) (v4l2_open os) (\<lambda>_ w. v_ready (view_of k w)) (\<lambda>_. holds_own)"
proof -
  have "hoare (at_view k v) (v4l2_open os) (\<lambda>_ w. v_ready (view_of k w)) (\<lambda>_. holds_own)"
    if "v_inv v" "vv_slots v = []" "vv_fd v = -1" for v
    by (rule hoare_conseq [OF open_ready [OF assms that]]) (auto simp: holds_own_view)
  note op = this
  show ?thesis
    by (rule hoare_at_view, rule op) (simp_all add: view_of_def vc_new_def v_inv_def cap_held_def)
qed

lemma session_releases:
  assumes "v4l2_kernel os k"
  shows "hoare (\<lambda>w. w_cap w = vc_new cfg \<and> w_held w = {#}) (v4l2_session os ops) (\<lambda>_ w. w_held w = {#}) (\<lambda>_ _. False)"
proof -
  have "hoare (\<lambda>w. v_ready (view_of k w)) (for_eff (run_op os) ops) (\<lambda>_ w. v_ready (view_of k w)) (\<lambda>_ w. v_ready (view_of k w))"
    by (intro hoare_for_inv run_op_ready assms)
  then have ops: "hoare (\<lambda>w. v_ready (view_of k w)) (for_eff (run_op os) ops) (\<lambda>_. holds_own) (\<lambda>_. holds_own)"
    by (rule hoare_conseq) (auto simp: holds_own_view [symmetric, of _ k] ready_inv)
  note body = hoare_seq [OF ops open_fresh [OF assms]]
  show ?thesis
    unfolding v4l2_session_def
    by (rule hoare_seq [OF destroy_releases], rule hoare_try [OF hoare_ret body])
qed

subsection \<open>A device to run against\<close>

text \<open>A device that keeps the contract: it grants what is asked and always has frame 0 when
  buffer 0 is queued. The state is the number of buffers and the incoming queue.\<close>

definition sim_os :: "(nat \<times> nat set) v4l2_os" where
  "sim_os = \<lparr>os_stat = (\<lambda>_ _. Inr True), os_open = (\<lambda>_ s. (Inr 3, s)), os_querycap = (\<lambda>_ s. (Inr 0x04000001, s)),
     os_s_fmt = (\<lambda>_ p s. (Inr p, s)), os_reqbufs = (\<lambda>_ _ c s. (Inr c, (unat c, {}))),
     os_querybuf = (\<lambda>_ _ i s. (Inr (4096, 4096 * i), s)), os_expbuf = (\<lambda>_ i s. (Inr (10 + uint i), s)),
     os_qbuf = (\<lambda>_ _ i s. (Inr (), (fst s, insert (unat i) (snd s)))),
     os_dqbuf = (\<lambda>_ _ s. if 0 \<in> snd s \<and> 0 < fst s
        then (Inr \<lparr>buf_index = 0, buf_bytesused = 100, buf_flags = 0, buf_sequence = 7, buf_tv_sec = 1, buf_tv_usec = 0\<rparr>, (fst s, snd s - {0}))
        else (Inl EAGAIN, s)),
     os_streamon = (\<lambda>_ s. (Inr (), s)), os_streamoff = (\<lambda>_ s. (Inr (), (fst s, {}))),
     os_poll = (\<lambda>_ _ s. (Inr (1, 1), s)), os_mmap = (\<lambda>_ n off s. if n = 0 then (Inl 22, s) else (Inr (65536 + unat off), s)),
     os_munmap = (\<lambda>_ _ s. s), os_close = (\<lambda>_ s. s), os_clock = (\<lambda>_. (2, 0))\<rparr>"

definition sim_start :: "(nat \<times> nat set) v4l2_world" where
  "sim_start = \<lparr>w_cap = vc_new default_config, w_os = (0, {}), w_held = {#}\<rparr>"

definition sim_ready :: "(nat \<times> nat set) v4l2_world" where
  "sim_ready = \<lparr>w_cap = (vc_new default_config)\<lparr>vc_cfg := default_config\<lparr>cfg_buffer_count := 2\<rparr>, vc_fd := 3, vc_streaming := True,
       vc_slots := [\<lparr>sl_start = 65536, sl_length = 4096, sl_dmabuf_fd = -1\<rparr>, \<lparr>sl_start = 69632, sl_length = 4096, sl_dmabuf_fd = -1\<rparr>]\<rparr>,
     w_os = (2, {0, 1}), w_held = {#Fd 3, Mapping 65536 4096, Mapping 69632 4096#}\<rparr>"

lemma sim_kernel: "v4l2_kernel sim_os (fst, snd)"
  by (auto simp: v4l2_kernel_def call_law_def sim_os_def kview_def split: prod.splits)

lemma sim_answers: "v4l2_answers sim_os"
  by (auto simp: v4l2_answers_def answers_def sim_os_def interrupted_def after_calls_def EINTR_def EAGAIN_def intro!: exI [of _ 0])

lemma sim_xioctl:
  "xioctl (os_poll sim_os fd t) what w = Some (Ok (1, 1), w)"
  "xioctl (os_streamon sim_os fd) what w = Some (Ok (), w)"
  "xioctl (os_streamoff sim_os fd) what w = Some (Ok (), w\<lparr>w_os := (fst (w_os w), {})\<rparr>)"
  "xioctl (os_dqbuf sim_os fd m) what w = (if 0 \<in> snd (w_os w) \<and> 0 < fst (w_os w)
     then Some (Ok \<lparr>buf_index = 0, buf_bytesused = 100, buf_flags = 0, buf_sequence = 7, buf_tv_sec = 1, buf_tv_usec = 0\<rparr>,
       w\<lparr>w_os := (fst (w_os w), snd (w_os w) - {0})\<rparr>) else Some (Throw (what, EAGAIN), w))"
  by (simp_all add: xioctl_def retry_step interrupted_def sim_os_def EINTR_def EAGAIN_def)

lemma sim_next_frame:
  "0 \<in> snd (w_os w) \<Longrightarrow> 0 < fst (w_os w) \<Longrightarrow> vc_slots (w_cap w) \<noteq> [] \<Longrightarrow>
   \<exists>f u. v4l2_next sim_os t w = Some (Ok (Some f), u) \<and> fr_index f = 0"
  by (simp add: v4l2_next_def eff_defs set_cap_def sim_xioctl frame_of_def)

lemma sim_next_none: "snd (w_os w) = {} \<Longrightarrow> v4l2_next sim_os t w = Some (Ok None, w)"
  by (simp add: v4l2_next_def eff_defs sim_xioctl)

lemma sim_restart:
  "vc_streaming (w_cap w) \<Longrightarrow> vc_fd (w_cap w) \<noteq> -1 \<Longrightarrow>
   v4l2_stop sim_os w = Some (Ok (), w\<lparr>w_os := (fst (w_os w), {}), w_cap := (w_cap w)\<lparr>vc_streaming := False\<rparr>\<rparr>)"
  "v4l2_start sim_os u = Some (Ok (), u\<lparr>w_cap := (w_cap u)\<lparr>vc_streaming := True, vc_have_last_sequence := False\<rparr>\<rparr>)"
  by (simp_all add: v4l2_stop_def v4l2_start_def eff_defs set_cap_def sim_xioctl)

lemma sim_ready_ready: "v_ready (view_of (fst, snd) sim_ready)"
  by (simp add: v_ready_def v_inv_def view_of_def sim_ready_def kview_def vc_new_def cap_held_def slot_held_def add_mset_commute)

subsection \<open>Properties\<close>



text \<open>C11: Buffers change hands one at a time. After a successful \<open>open()\<close> the driver has every
  buffer queued and every slot is mapped. A frame that \<open>next()\<close> returns shows the mapping of a buffer
  that was queued and is not any more, and \<open>release()\<close> of that frame puts exactly it back.\<close>

theorem v4l2_buffer_cycle:
  assumes "v4l2_kernel os k"
  shows "(w_cap w = vc_new cfg \<and> w_held w = {#} \<and> v4l2_open os w = Some (Ok (), w') \<longrightarrow>
          v_ready (view_of k w') \<and> snd k (w_os w') = {..<length (vc_slots (w_cap w'))})
     \<and> (v_ready (view_of k u) \<and> v4l2_next os t u = Some (Ok (Some f), u') \<longrightarrow>
          unat (fr_index f) \<in> snd k (w_os u) \<and> snd k (w_os u') = snd k (w_os u) - {unat (fr_index f)}
          \<and> fr_data f = sl_start (vc_slots (w_cap u) ! unat (fr_index f)) \<and> fr_data f \<noteq> 0
          \<and> (v4l2_release os f u' = Some (Ok (), u'') \<longrightarrow> snd k (w_os u'') = snd k (w_os u)))"
proof -
  have start: "v_inv (view_of k w)" "vv_slots (view_of k w) = []" "vv_fd (view_of k w) = -1"
    if "w_cap w = vc_new cfg" "w_held w = {#}"
    using that by (simp_all add: view_of_def v_inv_def vc_new_def cap_held_def)
  have "v_ready (view_of k w') \<and> snd k (w_os w') = {..<length (vc_slots (w_cap w'))}"
    if "w_cap w = vc_new cfg" "w_held w = {#}" "v4l2_open os w = Some (Ok (), w')"
    using hoareD [OF open_ready [OF assms start [OF that(1,2)]] _ that(3)] by (simp add: view_of_def kview_def v_ready_def v_inv_def)
  moreover have "unat (fr_index f) \<in> snd k (w_os u) \<and> snd k (w_os u') = snd k (w_os u) - {unat (fr_index f)}
          \<and> fr_data f = sl_start (vc_slots (w_cap u) ! unat (fr_index f)) \<and> fr_data f \<noteq> 0
          \<and> (v4l2_release os f u' = Some (Ok (), u'') \<longrightarrow> snd k (w_os u'') = snd k (w_os u))"
    if "v_ready (view_of k u)" "v4l2_next os t u = Some (Ok (Some f), u')"
  proof -
    have nx: "unat (fr_index f) \<in> snd k (w_os u)" "unat (fr_index f) < length (vc_slots (w_cap u))"
      "fr_data f = sl_start (vc_slots (w_cap u) ! unat (fr_index f))" "snd k (w_os u') = snd k (w_os u) - {unat (fr_index f)}"
      using hoareD [OF next_takes [OF assms that(1)] _ that(2)] that(1) by (auto simp: view_of_def kview_def v_ready_def)
    moreover have "fr_data f \<noteq> 0" using nx(2,3) that(1) by (auto simp: v_ready_def view_of_def)
    moreover have "snd k (w_os u'') = snd k (w_os u)" if "v4l2_release os f u' = Some (Ok (), u'')"
      using hoareD [OF queue_buffer_queues [OF assms] refl that [unfolded v4l2_release_def]] nx(1,4)
      by (auto simp: view_of_def kview_def)
    ultimately show ?thesis by blast
  qed
  ultimately show ?thesis by blast
qed

theorem v4l2_buffer_cycle_witness:
  "\<exists>f u'. v4l2_next sim_os 100 sim_ready = Some (Ok (Some f), u') \<and> fr_data f \<noteq> 0 \<and> snd (w_os u') = {1}"
proof -
  obtain f u' where run: "v4l2_next sim_os 100 sim_ready = Some (Ok (Some f), u')" and "fr_index f = 0"
    using sim_next_frame [of sim_ready 100] by (auto simp: sim_ready_def)
  with v4l2_buffer_cycle [OF sim_kernel, of sim_start default_config sim_start sim_ready 100 f u' u'] sim_ready_ready
  show ?thesis by (auto simp: sim_ready_def)
qed

text \<open>C40: A stopped stream cannot be restarted. \<open>stop()\<close> takes every buffer off the queue by
  \<open>STREAMOFF\<close> and neither it nor \<open>start()\<close> queues them again: after both have succeeded, \<open>next()\<close>
  never returns a frame.\<close>

theorem v4l2_restart_starves:
  assumes "v4l2_kernel os k" "vc_streaming (w_cap w)" "vc_fd (w_cap w) \<noteq> -1" "v_ready (view_of k w)"
    and "\<forall>s. \<exists>s'. os_streamoff os (vc_fd (w_cap w)) s = (Inr (), s')"
    and "v4l2_stop os w = Some (Ok (), w1)" "v4l2_start os w1 = Some (Ok (), w2)" "v4l2_next os t w2 = Some (r, w3)"
  shows "r \<noteq> Ok (Some f)"
proof -
  obtain s' where off: "os_streamoff os (vc_fd (w_cap w)) (w_os w) = (Inr (), s')" using assms(5) by blast
  then have "retry (os_streamoff os (vc_fd (w_cap w))) (w_os w) = Some (Inr (), s')"
    by (simp add: retry_step interrupted_def)
  then have "w_os w1 = s'" using assms(2,3,6)
    by (auto simp: v4l2_stop_def eff_defs xioctl_def set_cap_def)
  then have "snd (kview k (w_os w1)) = {}"
    using kernel_law(11) [OF assms(1)] off unfolding call_law_def by (fastforce split: prod.splits)
  moreover have rdy: "v_ready (view_of k w1)"
    using hoareD [OF stop_quiet [OF assms(1)] refl assms(6)] assms(4) ready_kernel [OF assms(4), of "(fst (vv_kernel (view_of k w)), {})"] by auto
  moreover have "view_of k w2 = view_of k w1" using hoareD [OF start_keeps [OF assms(1)] refl assms(7)] by simp
  ultimately show ?thesis
    using hoareD [OF next_takes [OF assms(1), of "view_of k w2"] refl assms(8)]
    by (auto simp: view_of_def split: outcome.splits)
qed

theorem v4l2_restart_starves_witness:
  "\<exists>w1 w2 r w3. v4l2_stop sim_os sim_ready = Some (Ok (), w1) \<and> v4l2_start sim_os w1 = Some (Ok (), w2)
     \<and> v4l2_next sim_os 100 w2 = Some (r, w3) \<and> r \<noteq> Ok (Some \<lparr>fr_data = 65536, fr_bytes = 100, fr_index = 0, fr_sequence = 7,
          fr_timestamp = (1, 0), fr_dmabuf_fd = -1, fr_had_error = False\<rparr>)"
proof -
  obtain w1 w2 r w3 where "v4l2_stop sim_os sim_ready = Some (Ok (), w1)" "v4l2_start sim_os w1 = Some (Ok (), w2)"
    "v4l2_next sim_os 100 w2 = Some (r, w3)"
    using sim_restart(1) [of sim_ready] sim_restart(2) sim_next_none by (auto simp: sim_ready_def)
  moreover have "\<forall>s. \<exists>s'. os_streamoff sim_os (vc_fd (w_cap sim_ready)) s = (Inr (), s')" by (simp add: sim_os_def)
  ultimately show ?thesis
    using v4l2_restart_starves [OF sim_kernel _ _ sim_ready_ready, of w1 w2 100 r w3]
    by (auto simp: sim_ready_def)
qed

end
