(* ===== verification/V4l2_Stats.thy ===== *)
theory V4l2_Stats
  imports V4l2_Capture
begin

text \<open>
  Frame accounting and FourCC codes of \<open>src/zero-copy-v4l2-capture\<close>: what the counters of
  \<open>V4L2Capture::next\<close> add up to over a stream of dequeued buffers, and that the FourCC helpers
  are inverse to each other.
\<close>

subsection \<open>Accounting\<close>

text \<open>The statistics after a list of dequeued buffers, each with the clock reading at its dequeue.\<close>

fun note_all :: "((int \<times> int) \<times> v4l2_buffer) list \<Rightarrow> v4l2_capture \<Rightarrow> v4l2_capture" where
  "note_all [] c = c"
| "note_all ((ts, b) # bs) c = note_all bs (note_buffer ts b c)"

text \<open>Frames the driver counted from the first to the last buffer of the list, both included.\<close>

definition seqs :: "((int \<times> int) \<times> v4l2_buffer) list \<Rightarrow> u32 list" where
  "seqs bs = map (\<lambda>x. buf_sequence (snd x)) bs"

definition seq_span :: "u32 \<Rightarrow> u32 \<Rightarrow> u64" where
  "seq_span a b = of_nat (unat b - unat a + 1)"

lemma seqs_simps [simp]: "seqs [] = []" "seqs ((ts, b) # bs) = buf_sequence b # seqs bs"
  by (simp_all add: seqs_def)

lemma note_buffer_fields:
  "st_frames_captured (vc_stats (note_buffer ts b c)) = st_frames_captured (vc_stats c) + 1"
  "st_frames_errored (vc_stats (note_buffer ts b c)) = st_frames_errored (vc_stats c) + (if buf_flags b AND 0x40 \<noteq> 0 then 1 else 0)"
  "st_bytes_captured (vc_stats (note_buffer ts b c)) = st_bytes_captured (vc_stats c) + ucast (buf_bytesused b)"
  "st_frames_dropped (vc_stats (note_buffer ts b c)) = st_frames_dropped (vc_stats c) +
     (if vc_have_last_sequence c \<and> vc_last_sequence c + 1 < buf_sequence b then ucast (buf_sequence b - (vc_last_sequence c + 1)) else 0)"
  "vc_have_last_sequence (note_buffer ts b c)" "vc_last_sequence (note_buffer ts b c) = buf_sequence b"
  by (auto simp: note_buffer_def note_gap_def Let_def)

lemma unat_succ:
  fixes a b :: u32
  assumes "a < b"
  shows "unat (a + 1) = unat a + 1"
proof -
  have "unat a < unat b" "unat b < 2 ^ 32"
    using assms unsigned_less [of b, where 'a = nat] by (simp_all add: word_less_nat_alt)
  then have "unat a + 1 < 2 ^ LENGTH(32)" by simp
  then show ?thesis by (simp add: unat_word_ariths)
qed

lemma gap_word:
  fixes a b :: u32
  assumes "a < b"
  shows "(if a + 1 < b then ucast (b - (a + 1)) else 0) = (of_nat (unat b - unat a - 1) :: u64)"
proof -
  have lt: "unat a < unat b" using assms by (simp add: word_less_nat_alt)
  note a1 = unat_succ [OF assms]
  show ?thesis
  proof (cases "a + 1 < b")
    case True
    then have "unat (b - (a + 1)) = unat b - (unat a + 1)" using a1 by (simp add: unat_sub word_less_nat_alt word_le_nat_alt)
    then have "(ucast (b - (a + 1)) :: u64) = of_nat (unat b - (unat a + 1))" by (metis of_nat_unat)
    then show ?thesis using True by simp
  next
    case False
    then have "unat b = unat a + 1" using a1 lt by (simp add: word_less_nat_alt)
    then show ?thesis using False by simp
  qed
qed

text \<open>Captured and dropped frames together are the frames the driver counted.\<close>

lemma note_all_counts:
  assumes "vc_have_last_sequence c" "sorted_wrt (<) (vc_last_sequence c # seqs bs)"
  shows "st_frames_captured (vc_stats (note_all bs c)) + st_frames_dropped (vc_stats (note_all bs c)) =
     st_frames_captured (vc_stats c) + st_frames_dropped (vc_stats c)
     + of_nat (unat (last (vc_last_sequence c # seqs bs)) - unat (vc_last_sequence c))"
  using assms
proof (induction bs arbitrary: c)
  case (Cons x bs)
  obtain ts b where x: "x = (ts, b)" by fastforce
  let ?c = "note_buffer ts b c"
  let ?l = "last (buf_sequence b # seqs bs)"
  have lt: "vc_last_sequence c < buf_sequence b" using Cons.prems(2) x by simp
  have "?l = buf_sequence b \<or> ?l \<in> set (seqs bs)" using last_in_set [of "seqs bs"] by simp
  then have le: "unat (buf_sequence b) \<le> unat ?l" using Cons.prems(2) x by (auto simp: word_less_nat_alt)
  have "st_frames_captured (vc_stats (note_all bs ?c)) + st_frames_dropped (vc_stats (note_all bs ?c)) =
     st_frames_captured (vc_stats ?c) + st_frames_dropped (vc_stats ?c) + of_nat (unat ?l - unat (buf_sequence b))"
    using Cons.IH [of ?c] Cons.prems(2) x by (simp add: note_buffer_fields)
  also have "st_frames_captured (vc_stats ?c) + st_frames_dropped (vc_stats ?c) =
      st_frames_captured (vc_stats c) + st_frames_dropped (vc_stats c) + of_nat (unat (buf_sequence b) - unat (vc_last_sequence c))"
    using gap_word [OF lt] lt Cons.prems(1)
    by (simp add: note_buffer_fields word_less_nat_alt of_nat_diff)
  finally show ?case using x le lt by (simp add: word_less_nat_alt flip: of_nat_add)
qed simp

subsection \<open>FourCC\<close>

lemma ascii_conv:
  fixes c :: byte
  assumes "c < 128"
  shows "(scast c :: u32) = ucast c"
proof -
  have "\<not> bit (unat c) 7" using assms by (simp add: bit_iff_odd word_less_nat_alt)
  then have c7: "\<not> bit c 7" by (simp add: bit_unsigned_iff)
  have "\<not> bit c n" if "7 \<le> n" for n using that c7 bit_imp_le_length [of c n] by (cases "n = 7") auto
  then show ?thesis by (auto intro!: bit_word_eqI simp: bit_simps min_def split: if_splits)
qed

lemma low_byte: "(ucast (w AND 0xff) :: byte) = ucast (w :: u32)"
proof -
  have e: "(0xff :: u32) = mask 8" by (simp add: mask_eq_exp_minus_1)
  show ?thesis unfolding e by (rule bit_word_eqI) (simp add: bit_simps)
qed

lemma high_bit_byte [simp]: "8 \<le> n \<Longrightarrow> \<not> bit (c :: byte) n"
  using bit_imp_le_length [of c n] by auto

lemma fourcc_bytes:
  fixes a b c d :: byte
  shows "fourcc_to_string (ucast a OR push_bit 8 (ucast b) OR push_bit 16 (ucast c) OR push_bit 24 (ucast d)) = [a, b, c, d]"
proof -
  let ?f = "(ucast a OR push_bit 8 (ucast b) OR push_bit 16 (ucast c) OR push_bit 24 (ucast d) :: u32)"
  have "(ucast (drop_bit (8 * k) ?f) :: byte) = [a, b, c, d] ! k" if k: "k < 4" for k
  proof (rule bit_word_eqI)
    fix n assume n: "n < LENGTH(8)"
    consider "k = 0" | "k = 1" | "k = 2" | "k = 3" using k by linarith
    then show "bit (ucast (drop_bit (8 * k) ?f) :: byte) n = bit ([a, b, c, d] ! k) n"
      using n by cases (simp_all add: bit_simps)
  qed
  from this [of 0] this [of 1] this [of 2] this [of 3] show ?thesis by (simp add: fourcc_to_string_def low_byte)
qed

lemma fourcc_from_to: "fourcc_from_string ucast (fourcc_to_string f) = f"
proof (rule bit_word_eqI)
  fix n assume "n < LENGTH(32)"
  then consider "n < 8" | "8 \<le> n" "n < 16" | "16 \<le> n" "n < 24" | "24 \<le> n" "n < 32" by fastforce
  then show "bit (fourcc_from_string ucast (fourcc_to_string f)) n = bit f n"
    by cases (auto simp: fourcc_from_string_def fourcc_to_string_def fourcc_char_def low_byte bit_simps)
qed

subsection \<open>Properties\<close>

text \<open>C22: Every frame the driver counted is accounted for. From \<open>start()\<close> on, over any buffers
  with increasing sequence numbers, captured plus dropped frames grow by exactly the number
  of sequence numbers from the first buffer to the last; the error count is the number of flagged
  buffers and the byte count the sum of their sizes, all as 64-bit counters.\<close>

theorem frames_accounted:
  assumes "\<not> vc_have_last_sequence c" "bs \<noteq> []" "sorted_wrt (<) (seqs bs)"
  shows "st_frames_captured (vc_stats (note_all bs c)) + st_frames_dropped (vc_stats (note_all bs c)) =
      st_frames_captured (vc_stats c) + st_frames_dropped (vc_stats c) + seq_span (hd (seqs bs)) (last (seqs bs))
   \<and> st_frames_captured (vc_stats (note_all bs c)) = st_frames_captured (vc_stats c) + of_nat (length bs)
   \<and> st_frames_errored (vc_stats (note_all bs c)) = st_frames_errored (vc_stats c)
        + of_nat (length (filter (\<lambda>x. buf_flags (snd x) AND 0x40 \<noteq> 0) bs))
   \<and> st_bytes_captured (vc_stats (note_all bs c)) = st_bytes_captured (vc_stats c)
        + sum_list (map (\<lambda>x. ucast (buf_bytesused (snd x))) bs)"
proof -
  obtain ts b xs where bs: "bs = (ts, b) # xs" using assms(2) by (cases bs) auto
  have "st_frames_captured (vc_stats (note_all bs c)) + st_frames_dropped (vc_stats (note_all bs c)) =
      st_frames_captured (vc_stats c) + st_frames_dropped (vc_stats c) + seq_span (hd (seqs bs)) (last (seqs bs))"
    using note_all_counts [of "note_buffer ts b c" xs] assms(1,3)
    by (simp add: bs note_buffer_fields seq_span_def)
  moreover have "st_frames_captured (vc_stats (note_all xs c)) = st_frames_captured (vc_stats c) + of_nat (length xs)
   \<and> st_frames_errored (vc_stats (note_all xs c)) = st_frames_errored (vc_stats c)
        + of_nat (length (filter (\<lambda>x. buf_flags (snd x) AND 0x40 \<noteq> 0) xs))
   \<and> st_bytes_captured (vc_stats (note_all xs c)) = st_bytes_captured (vc_stats c)
        + sum_list (map (\<lambda>x. ucast (buf_bytesused (snd x))) xs)" for xs c
    by (induction xs c rule: note_all.induct) (simp_all add: note_buffer_fields)
  ultimately show ?thesis by blast
qed

definition two_buffers :: "((int \<times> int) \<times> v4l2_buffer) list" where
  "two_buffers =
     [((1, 0), \<lparr>buf_index = 0, buf_bytesused = 10, buf_flags = 0, buf_sequence = 4, buf_tv_sec = 1, buf_tv_usec = 0\<rparr>),
      ((1, 0), \<lparr>buf_index = 1, buf_bytesused = 10, buf_flags = 0, buf_sequence = 7, buf_tv_sec = 1, buf_tv_usec = 0\<rparr>)]"

theorem frames_accounted_witness:
  "st_frames_captured (vc_stats (note_all two_buffers (vc_new default_config)))
     + st_frames_dropped (vc_stats (note_all two_buffers (vc_new default_config))) = 4"
proof -
  have p: "sorted_wrt (<) (seqs two_buffers)" "two_buffers \<noteq> []" "\<not> vc_have_last_sequence (vc_new default_config)"
    "seq_span (hd (seqs two_buffers)) (last (seqs two_buffers)) = 4"
    "st_frames_captured (vc_stats (vc_new default_config)) = 0" "st_frames_dropped (vc_stats (vc_new default_config)) = 0"
    by (simp_all add: two_buffers_def vc_new_def no_stats_def seq_span_def)
  show ?thesis using conjunct1 [OF frames_accounted [OF p(3,2,1)]] p(4-6) by simp
qed

text \<open>A wrap of the 32-bit sequence number hides dropped frames. When the counter wraps between
  two buffers, the gap test compares a small number with a large one: no frame is counted as
  dropped, however many were.\<close>

lemma wrap_hides_drops:
  assumes "vc_have_last_sequence c" "buf_sequence b < vc_last_sequence c" "vc_last_sequence c < 0xFFFFFFFF"
  shows "st_frames_dropped (vc_stats (note_buffer ts b c)) = st_frames_dropped (vc_stats c)"
  using assms(2) unat_succ [OF assms(3)] by (simp add: note_buffer_fields word_less_nat_alt)

text \<open>C37: The FourCC helpers invert each other. Packing a string of ASCII bytes and unpacking the code
  gives the string cut or padded with blanks to four bytes, on platforms with signed and with unsigned
  \<open>char\<close>; where \<open>char\<close> is unsigned, unpacking and packing any code gives it back.\<close>

theorem fourcc_roundtrip:
  assumes "\<forall>x \<in> set s. x < 128" "conv = ucast \<or> conv = scast"
  shows "fourcc_to_string (fourcc_from_string conv s) = map (fourcc_char s) [0, 1, 2, 3]
     \<and> fourcc_from_string ucast (fourcc_to_string f) = f"
proof -
  have "fourcc_char s i < 128" for i using assms(1) by (auto simp: fourcc_char_def)
  then have "conv (fourcc_char s i) = ucast (fourcc_char s i)" for i using assms(2) ascii_conv by auto
  then have "fourcc_to_string (fourcc_from_string conv s) = map (fourcc_char s) [0, 1, 2, 3]"
    by (simp add: fourcc_from_string_def fourcc_bytes)
  then show ?thesis using fourcc_from_to by blast
qed

theorem fourcc_roundtrip_witness:
  "fourcc_to_string (fourcc_from_string scast [0x4D, 0x4A, 0x50]) = [0x4D, 0x4A, 0x50, 0x20]"
  using fourcc_roundtrip [of "[0x4D, 0x4A, 0x50]" scast 0] by (simp add: fourcc_char_def)

end
