(* ===== verification/Command_Line.thy ===== *)
theory Command_Line
  imports Floats
begin

text \<open>
  What the programs of the repository use of the C library to read their command lines: the
  search for an option followed by its value, and the decimal conversions \<open>strtoul\<close>, \<open>strtol\<close>,
  \<open>atoi\<close> and \<open>atof\<close> (leading blanks, sign, digits, saturation). Hexadecimal, infinite and NaN
  spellings of \<open>atof\<close> are left out, and so is the unspecified result of \<open>atoi\<close> outside the
  range of \<open>long\<close>, where glibc saturates before it truncates.
\<close>

fun first_value :: "string list \<Rightarrow> string \<Rightarrow> string option" where
  "first_value (a # b # as) key = (if a = key then Some b else first_value (b # as) key)"
| "first_value _ key = None"

definition is_space :: "char \<Rightarrow> bool" where
  "is_space c \<longleftrightarrow> c \<in> {CHR '' '', CHR 0x09, CHR 0x0A, CHR 0x0B, CHR 0x0C, CHR 0x0D}"

definition is_digit :: "char \<Rightarrow> bool" where
  "is_digit c \<longleftrightarrow> 48 \<le> (of_char c :: nat) \<and> (of_char c :: nat) \<le> 57"

definition digits_value :: "string \<Rightarrow> nat" where
  "digits_value s = foldl (\<lambda>a c. 10 * a + (of_char c - 48)) 0 (takeWhile is_digit s)"

text \<open>Sign and magnitude of the number a string starts with.\<close>

definition parse_number :: "string \<Rightarrow> bool \<times> nat" where
  "parse_number s = (let t = dropWhile is_space s in
     case t of [] \<Rightarrow> (False, 0)
     | c # r \<Rightarrow> if c = CHR ''-'' then (True, digits_value r) else if c = CHR ''+'' then (False, digits_value r)
               else (False, digits_value t))"

definition strtoul :: "string \<Rightarrow> u64" where
  "strtoul s = (case parse_number s of (neg, v) \<Rightarrow>
     if 2 ^ 64 \<le> v then -1 else if neg then - of_nat v else of_nat v)"

definition strtol :: "string \<Rightarrow> int" where
  "strtol s = (case parse_number s of (neg, v) \<Rightarrow>
     if neg then max (- (2 ^ 63)) (- int v) else min (2 ^ 63 - 1) (int v))"

text \<open>\<open>(int)strtol(s)\<close>: the low 32 bits, read as a signed number.\<close>

definition atoi :: "string \<Rightarrow> int" where
  "atoi s = sint (word_of_int (strtol s) :: u32)"

text \<open>The sign a string starts with, and the rest.\<close>

definition sign_split :: "string \<Rightarrow> bool \<times> string" where
  "sign_split s = (case s of [] \<Rightarrow> (False, [])
     | c # r \<Rightarrow> if c = CHR ''-'' then (True, r) else if c = CHR ''+'' then (False, r) else (False, s))"

definition exponent_value :: "string \<Rightarrow> int" where
  "exponent_value s = (case s of [] \<Rightarrow> 0
     | c # r \<Rightarrow> if c = CHR ''e'' \<or> c = CHR ''E''
               then (case sign_split r of (neg, t) \<Rightarrow> if neg then - int (digits_value t) else int (digits_value t))
               else 0)"

definition atof :: "string \<Rightarrow> rat" where
  "atof s = (case sign_split (dropWhile is_space s) of (neg, t) \<Rightarrow>
     let r = dropWhile is_digit t;
         fr = (case r of [] \<Rightarrow> [] | c # r' \<Rightarrow> if c = CHR ''.'' then takeWhile is_digit r' else []);
         e = (case r of [] \<Rightarrow> [] | c # r' \<Rightarrow> if c = CHR ''.'' then dropWhile is_digit r' else r);
         v = of_nat (digits_value t) + of_nat (digits_value fr) / 10 ^ length fr
     in if takeWhile is_digit t = [] \<and> fr = [] then 0
        else f64 ((if neg then - v else v) * 10 powi exponent_value e))"

end
