(* ===== verification/Zcv_Main.thy ===== *)
theory Zcv_Main
  imports V4l2_Stats Command_Line
begin

text \<open>
  The capture program \<open>src/zero-copy-v4l2-capture/src/main.cpp\<close>: command line, capture loop and
  exit codes. The signal flag is a function from the loop iteration to whether a signal has
  arrived by then; the loop may run for ever, so it is a partial function whose value is \<open>None\<close> when it
  does. Frames handed to \<open>write\<close> for the raw dump are collected in order. \<open>summary_of\<close> is what the summary after the loop
  prints, with numeric fields; progress lines are left out.
\<close>

subsection \<open>Command line\<close>

definition arg_value :: "string list \<Rightarrow> string \<Rightarrow> string option \<Rightarrow> string option" where
  "arg_value argv key fallback = (case first_value (tl argv) key of Some v \<Rightarrow> Some v | None \<Rightarrow> fallback)"

definition arg_flag :: "string list \<Rightarrow> string \<Rightarrow> bool" where
  "arg_flag argv key \<longleftrightarrow> key \<in> set (tl argv)"

definition c_bytes :: "string \<Rightarrow> byte list" where
  "c_bytes s = map (\<lambda>c. of_nat (of_char c)) s"

definition zcv_config :: "(byte \<Rightarrow> u32) \<Rightarrow> string list \<Rightarrow> v4l2_config" where
  "zcv_config conv argv =
     (let opt = (\<lambda>key dflt. the (arg_value argv key (Some dflt))) in
      default_config\<lparr>cfg_device := opt ''--device'' ''/dev/video0'',
        cfg_width := ucast (strtoul (opt ''--width'' ''1280'')), cfg_height := ucast (strtoul (opt ''--height'' ''720'')),
        cfg_pixelformat := fourcc_from_string conv (c_bytes (opt ''--format'' ''YUYV'')),
        cfg_buffer_count := ucast (strtoul (opt ''--buffers'' ''4'')), cfg_export_dmabuf := arg_flag argv ''--dmabuf''\<rparr>)"

definition frames_to_grab :: "string list \<Rightarrow> int" where
  "frames_to_grab argv = strtol (the (arg_value argv ''--frames'' (Some ''300'')))"

subsection \<open>Capture loop\<close>

text \<open>\<open>fs\<close> are the frames grabbed so far, \<open>out\<close> those written to the dump; \<open>grabbed\<close> is \<open>length fs\<close>.\<close>

type_synonym grab = "v4l2_frame list \<times> v4l2_frame list"

partial_function (option) grab_loop :: "'s v4l2_os \<Rightarrow> (nat \<Rightarrow> bool) \<Rightarrow> bool \<Rightarrow> int \<Rightarrow> nat \<Rightarrow> grab \<Rightarrow> 's v4l2_world \<Rightarrow>
    ((sys_error, grab) outcome \<times> 's v4l2_world) option" where
  "grab_loop os stop raw n it g w =
     (if stop it \<or> \<not> (n \<le> 0 \<or> int (length (fst g)) < n) then Some (Ok g, w)
      else Option.bind (v4l2_next os 2000 w) (\<lambda>(r, w1).
        case r of Throw e \<Rightarrow> Some (Throw e, w1) | Undef \<Rightarrow> Some (Undef, w1)
        | Ok fo \<Rightarrow> (case fo of None \<Rightarrow> grab_loop os stop raw n (Suc it) g w1
          | Some f \<Rightarrow>
            Option.bind (v4l2_release os f w1) (\<lambda>(r2, w2).
              case r2 of Throw e \<Rightarrow> Some (Throw e, w2) | Undef \<Rightarrow> Some (Undef, w2)
              | Ok _ \<Rightarrow> grab_loop os stop raw n (Suc it)
                  (fst g @ [f], snd g @ (if raw \<and> \<not> fr_had_error f then [f] else [])) w2))))"

declare grab_loop.simps [code]

definition zcv_body :: "'s v4l2_os \<Rightarrow> (nat \<Rightarrow> bool) \<Rightarrow> bool \<Rightarrow> int \<Rightarrow> ('s, grab) vact" where
  "zcv_body os stop raw n =
     seq (v4l2_open os) (seq (v4l2_start os) (bind (grab_loop os stop raw n 0 ([], [])) (\<lambda>g. seq (v4l2_stop os) (ret g))))"

text \<open>The result of the program: exit code, and the frames grabbed and dumped when it got that far.
  The dump file is closed on both paths and not modelled further.\<close>

record zcv_result =
  zr_exit :: int
  zr_grab :: "grab option"

definition zcv_run :: "'s v4l2_os \<Rightarrow> (nat \<Rightarrow> bool) \<Rightarrow> bool \<Rightarrow> int \<Rightarrow> ('s, zcv_result) vact" where
  "zcv_run os stop raw n w =
     (case zcv_body os stop raw n w of None \<Rightarrow> None
      | Some (Ok g, w1) \<Rightarrow>
          (case v4l2_destroy os w1 of None \<Rightarrow> None
           | Some (_, w2) \<Rightarrow> Some (Ok \<lparr>zr_exit = 0, zr_grab = Some g\<rparr>, w2))
      | Some (Throw e, w1) \<Rightarrow>
          (case v4l2_destroy os w1 of None \<Rightarrow> None
           | Some (_, w2) \<Rightarrow> Some (Ok \<lparr>zr_exit = 1, zr_grab = None\<rparr>, w2))
      | Some (Undef, w1) \<Rightarrow> Some (Undef, w1))"

text \<open>\<open>main\<close>; \<open>open_out\<close> says whether the dump file can be opened.\<close>

definition zcv_main :: "'s v4l2_os \<Rightarrow> (byte \<Rightarrow> u32) \<Rightarrow> (string \<Rightarrow> bool) \<Rightarrow> (nat \<Rightarrow> bool) \<Rightarrow> string list \<Rightarrow> 's \<Rightarrow>
    ((sys_error, zcv_result) outcome \<times> 's v4l2_world) option" where
  "zcv_main os conv open_out stop argv s =
     (let w = \<lparr>w_cap = vc_new (zcv_config conv argv), w_os = s, w_held = {#}\<rparr> in
      if arg_flag argv ''--help'' \<or> arg_flag argv ''-h'' then Some (Ok \<lparr>zr_exit = 0, zr_grab = None\<rparr>, w)
      else case arg_value argv ''--raw-out'' None of
        Some file \<Rightarrow> if \<not> open_out file then Some (Ok \<lparr>zr_exit = 1, zr_grab = None\<rparr>, w)
                     else zcv_run os stop True (frames_to_grab argv) w
      | None \<Rightarrow> zcv_run os stop False (frames_to_grab argv) w)"

subsection \<open>Clock and summary\<close>

text \<open>A reading of the monotonic clock, seconds and nanoseconds, in milliseconds.\<close>

definition now_ms :: "int \<times> int \<Rightarrow> rat" where
  "now_ms ts = f64 (f64 (f64 (of_int (fst ts)) * 1000) + f64 (f64 (of_int (snd ts)) / 1000000))"

record capture_summary =
  sm_device :: string
  sm_size :: "u32 \<times> u32"
  sm_format :: "byte list"
  sm_counts :: "u64 \<times> u64 \<times> u64"
  sm_mib :: rat
  sm_wall_s :: rat
  sm_fps :: rat
  sm_avg_latency_ms :: rat

text \<open>\<open>t0\<close> is taken after \<open>start()\<close>, \<open>t1\<close> after the loop.\<close>

definition summary_of :: "v4l2_config \<Rightarrow> int \<times> int \<Rightarrow> int \<times> int \<Rightarrow> v4l2_capture \<Rightarrow> capture_summary" where
  "summary_of cfg t0 t1 c =
     (let elapsed_s = f64 (f64 (now_ms t1 - now_ms t0) / 1000); s = vc_stats c
      in \<lparr>sm_device = cfg_device cfg, sm_size = (pix_width (vc_fmt c), pix_height (vc_fmt c)), sm_format = fourcc_to_string (pix_pixelformat (vc_fmt c)),
          sm_counts = (st_frames_captured s, st_frames_dropped s, st_frames_errored s),
          sm_mib = f64 (f64 (of_nat (unat (st_bytes_captured s))) / f64 (1024 * 1024)), sm_wall_s = elapsed_s,
          sm_fps = (if 0 < elapsed_s then f64 (f64 (of_nat (unat (st_frames_captured s))) / elapsed_s) else 0),
          sm_avg_latency_ms = st_avg_latency_ms s\<rparr>)"

text \<open>The reading never goes back while the clock does not, for 2 ^ 43 seconds; so no time or rate is negative.\<close>

definition clock_ok :: "int \<times> int \<Rightarrow> bool" where
  "clock_ok t \<longleftrightarrow> 0 \<le> fst t \<and> fst t < 2 ^ 43 \<and> 0 \<le> snd t \<and> snd t < 10 ^ 9"

lemma now_ms_eq:
  assumes "clock_ok t"
  shows "now_ms t = f64 (of_int (fst t * 1000) + f64 (of_int (snd t) / 1000000))"
proof -
  have "\<bar>fst t\<bar> \<le> 2 ^ 53" "\<bar>snd t\<bar> \<le> 2 ^ 53" "\<bar>fst t * 1000\<bar> \<le> 2 ^ 53" using assms by (simp_all add: clock_ok_def)
  then have "f64 (of_int (fst t)) = of_int (fst t)" "f64 (of_int (snd t)) = of_int (snd t)" "f64 (of_int (fst t * 1000)) = of_int (fst t * 1000)"
    by (simp_all only: f64.rnd_int)
  then show ?thesis by (simp add: now_ms_def)
qed

lemma now_ms_mono:
  assumes "clock_ok t" "clock_ok u" "fst t < fst u \<or> fst t = fst u \<and> snd t \<le> snd u"
  shows "now_ms t \<le> now_ms u"
proof -
  let ?ns = "\<lambda>t. f64 (of_int (snd t) / 1000000)"
  have "rat_of_int (fst t * 1000) + ?ns t \<le> of_int (fst u * 1000) + ?ns u"
  proof (cases "fst t < fst u")
    case True
    have "rat_of_int (snd t) \<le> of_int (10 ^ 9)" using assms(1) by (intro of_int_le_iff [THEN iffD2]) (simp add: clock_ok_def)
    then have "rat_of_int (snd t) / 1000000 \<le> of_int 1000" by (simp add: field_simps)
    then have "?ns t \<le> of_int 1000" by (rule f64.rnd_le_int) simp
    moreover have "0 \<le> ?ns u" using assms(2) by (intro f64.rnd_nonneg) (simp add: clock_ok_def)
    moreover have "rat_of_int (fst t * 1000 + 1000) \<le> of_int (fst u * 1000)" using True by (intro of_int_le_iff [THEN iffD2]) simp
    ultimately show ?thesis by simp
  next
    case False
    then have "fst t = fst u" "?ns t \<le> ?ns u" using assms(3) by (auto intro!: f64.rnd_mono divide_right_mono)
    then show ?thesis by simp
  qed
  then show ?thesis unfolding now_ms_eq [OF assms(1)] now_ms_eq [OF assms(2)] by (rule f64.rnd_mono)
qed

lemma summary_nonneg:
  assumes "clock_ok t0" "clock_ok t1" "fst t0 < fst t1 \<or> fst t0 = fst t1 \<and> snd t0 \<le> snd t1"
  shows "0 \<le> sm_wall_s (summary_of cfg t0 t1 c)" "0 \<le> sm_fps (summary_of cfg t0 t1 c)"
  using now_ms_mono [OF assms] by (auto simp: summary_of_def Let_def simp del: of_nat_unat intro!: f64.rnd_nonneg divide_nonneg_nonneg)

subsection \<open>The loop\<close>

text \<open>What the loop keeps: the object stays set up and every buffer is back on the queue.\<close>

definition loop_state :: "'s kernel_view \<Rightarrow> nat set \<Rightarrow> 's v4l2_world \<Rightarrow> bool" where
  "loop_state k Q w \<longleftrightarrow> v_ready (view_of k w) \<and> snd (vv_kernel (view_of k w)) = Q"

definition grab_ok :: "bool \<Rightarrow> int \<Rightarrow> grab \<Rightarrow> bool" where
  "grab_ok raw n g \<longleftrightarrow> (0 < n \<longrightarrow> int (length (fst g)) \<le> n)
     \<and> snd g = (if raw then filter (\<lambda>f. \<not> fr_had_error f) (fst g) else [])"

lemma next_release_cycle:
  assumes "v4l2_kernel os k" "loop_state k Q w" "v4l2_next os t w = Some (r, w1)"
  shows "case r of Throw e \<Rightarrow> v_ready (view_of k w1) | Undef \<Rightarrow> False | Ok None \<Rightarrow> loop_state k Q w1
    | Ok (Some f) \<Rightarrow> (\<forall>r2 w2. v4l2_release os f w1 = Some (r2, w2) \<longrightarrow>
         (case r2 of Ok _ \<Rightarrow> loop_state k Q w2 | Throw e \<Rightarrow> v_ready (view_of k w2) | Undef \<Rightarrow> False))"
proof -
  define v where "v = view_of k w"
  have v: "v_ready v" "snd (vv_kernel v) = Q" using assms(2) by (auto simp: loop_state_def v_def)
  have nx: "case r of Ok x \<Rightarrow> (case x of None \<Rightarrow> at_view k v w1
        | Some f \<Rightarrow> unat (fr_index f) \<in> snd (vv_kernel v) \<and> unat (fr_index f) < vv_count v
            \<and> fr_data f = sl_start (vv_slots v ! unat (fr_index f))
            \<and> at_view k (v\<lparr>vv_kernel := (vv_count v, snd (vv_kernel v) - {unat (fr_index f)})\<rparr>) w1)
      | Throw e \<Rightarrow> at_view k v w1 | Undef \<Rightarrow> False"
    using hoareD [OF next_takes [OF assms(1) v(1)] _ assms(3)] by (simp add: v_def)
  show ?thesis
  proof (cases "\<exists>f. r = Ok (Some f)")
    case True
    then obtain f where f: "r = Ok (Some f)" by blast
    let ?u = "v\<lparr>vv_kernel := (vv_count v, Q - {unat (fr_index f)})\<rparr>"
    have u: "at_view k ?u w1" "unat (fr_index f) \<in> Q" using nx f v(2) by auto
    have "case r2 of Ok _ \<Rightarrow> loop_state k Q w2 | Throw e \<Rightarrow> v_ready (view_of k w2) | Undef \<Rightarrow> False"
      if "v4l2_release os f w1 = Some (r2, w2)" for r2 w2
      using hoareD [OF queue_buffer_queues [OF assms(1), of ?u] u(1) that [unfolded v4l2_release_def]] v u(2)
        ready_kernel [OF v(1)]
      by (cases r2) (auto simp: loop_state_def insert_absorb v_ready_def)
    then show ?thesis using f by simp
  next
    case False
    then show ?thesis using nx v by (auto simp: loop_state_def split: outcome.splits option.splits)
  qed
qed

definition loop_post :: "'s kernel_view \<Rightarrow> nat set \<Rightarrow> bool \<Rightarrow> int \<Rightarrow> (sys_error, grab) outcome \<times> 's v4l2_world \<Rightarrow> bool" where
  "loop_post k Q raw n x \<longleftrightarrow> (case fst x of Ok g' \<Rightarrow> loop_state k Q (snd x) \<and> grab_ok raw n g'
     | Throw e \<Rightarrow> v_ready (view_of k (snd x)) | Undef \<Rightarrow> False)"

lemma grab_ok_snoc:
  "grab_ok raw n g \<Longrightarrow> n \<le> 0 \<or> int (length (fst g)) < n \<Longrightarrow>
   grab_ok raw n (fst g @ [f], snd g @ (if raw \<and> \<not> fr_had_error f then [f] else []))"
  by (auto simp: grab_ok_def)

lemma grab_loop_keeps:
  fixes os :: "'s v4l2_os"
  shows "grab_loop os stop raw n it g w = Some x \<Longrightarrow>
    v4l2_kernel os k \<longrightarrow> loop_state k Q w \<longrightarrow> grab_ok raw n g \<longrightarrow> loop_post k Q raw n x"
proof (erule grab_loop.raw_induct [rotated, where P = "\<lambda>os stop raw n it g w x. v4l2_kernel os k \<longrightarrow> loop_state k Q w \<longrightarrow>
    grab_ok raw n g \<longrightarrow> loop_post k Q raw n x"], intro impI)
  fix loop and os :: "'s v4l2_os" and stop raw n it g w x
  assume IH: "\<And>os stop raw n it g w x. loop os stop raw n it g w = Some x \<Longrightarrow>
      v4l2_kernel os k \<longrightarrow> loop_state k Q w \<longrightarrow> grab_ok raw n g \<longrightarrow> loop_post k Q raw n x"
    and hyps: "v4l2_kernel os k" "loop_state k Q w" "grab_ok raw n g"
    and run: "(if stop it \<or> \<not> (n \<le> 0 \<or> int (length (fst g)) < n) then Some (Ok g, w)
      else Option.bind (v4l2_next os 2000 w) (\<lambda>(r, w1).
        case r of Throw e \<Rightarrow> Some (Throw e, w1) | Undef \<Rightarrow> Some (Undef, w1)
        | Ok fo \<Rightarrow> (case fo of None \<Rightarrow> loop os stop raw n (Suc it) g w1
          | Some f \<Rightarrow>
            Option.bind (v4l2_release os f w1) (\<lambda>(r2, w2).
              case r2 of Throw e \<Rightarrow> Some (Throw e, w2) | Undef \<Rightarrow> Some (Undef, w2)
              | Ok _ \<Rightarrow> loop os stop raw n (Suc it)
                  (fst g @ [f], snd g @ (if raw \<and> \<not> fr_had_error f then [f] else [])) w2)))) = Some x"
  show "loop_post k Q raw n x"
  proof (cases "stop it \<or> \<not> (n \<le> 0 \<or> int (length (fst g)) < n)")
    case True
    then show ?thesis using run hyps by (auto simp: loop_post_def)
  next
    case False
    then obtain r w1 where nx: "v4l2_next os 2000 w = Some (r, w1)" using run [unfolded if_not_P [OF False]] by (auto simp: bind_eq_Some_conv)
    note run' = run [unfolded if_not_P [OF False] nx Option.bind.bind_lunit prod.case]
    note cyc = next_release_cycle [OF hyps(1,2) nx]
    consider "r = Ok None" | f where "r = Ok (Some f)" | e where "r = Throw e" | "r = Undef" by (metis option.exhaust outcome.exhaust)
    then show ?thesis
    proof cases
      case 1
      then show ?thesis using run' cyc hyps IH [of os stop raw n "Suc it" g w1 x] by simp
    next
      case (2 f)
      then obtain r2 w2 where rel: "v4l2_release os f w1 = Some (r2, w2)" using run' by (auto simp: bind_eq_Some_conv)
      then show ?thesis
        using 2 run' cyc hyps(1) False grab_ok_snoc [OF hyps(3), of f]
          IH [of os stop raw n "Suc it" "(fst g @ [f], snd g @ (if raw \<and> \<not> fr_had_error f then [f] else []))" w2 x]
        by (cases r2) (auto simp: loop_post_def)
    qed (use run' cyc in \<open>auto simp: loop_post_def\<close>)
  qed
qed

text \<open>Once a signal has arrived the loop ends.\<close>

lemma grab_loop_returns:
  assumes "v4l2_answers os" "stop m"
  shows "it \<le> m \<Longrightarrow> grab_loop os stop raw n it g w \<noteq> None"
proof (induction "m - it" arbitrary: it g w)
  case 0
  then show ?case using assms(2) by (subst grab_loop.simps) simp
next
  case (Suc d)
  obtain r w1 where nx: "v4l2_next os 2000 w = Some (r, w1)"
    using methods_return(3) [OF assms(1)] unfolding returns_def by (metis option.exhaust prod.exhaust)
  have rel: "\<exists>r2 w2. v4l2_release os f w1 = Some (r2, w2)" for f
    using methods_return(4) [OF assms(1)] unfolding returns_def by (metis option.exhaust prod.exhaust)
  have IH: "grab_loop os stop raw n (Suc it) g' w' \<noteq> None" for g' w' using Suc by simp
  consider "r = Ok None" | f where "r = Ok (Some f)" | e where "r = Throw e" | "r = Undef" by (metis option.exhaust outcome.exhaust)
  then show ?case
  proof cases
    case (2 f)
    obtain r2 w2 where "v4l2_release os f w1 = Some (r2, w2)" using rel by blast
    then show ?thesis using 2 nx IH by (subst grab_loop.simps) (cases r2, simp_all)
  qed (use nx IH in \<open>simp_all add: grab_loop.simps [of os stop raw n it g w]\<close>)
qed

lemma zcv_body_spec:
  assumes "v4l2_kernel os k"
  shows "hoare (\<lambda>w. w_cap w = vc_new cfg \<and> w_held w = {#}) (zcv_body os stop raw n)
     (\<lambda>g w. holds_own w \<and> grab_ok raw n g) (\<lambda>_. holds_own)"
proof -
  let ?full = "\<lambda>w. v_ready (view_of k w)"
  have own: "?full w \<Longrightarrow> holds_own w" for w using ready_inv holds_own_view by blast
  have loop: "hoare ?full (grab_loop os stop raw n 0 ([], [])) (\<lambda>g w. holds_own w \<and> grab_ok raw n g) (\<lambda>_. holds_own)"
  proof (rule hoareI)
    fix w r w' assume "?full w" "grab_loop os stop raw n 0 ([], []) w = Some (r, w')"
    then have "loop_post k (snd (vv_kernel (view_of k w))) raw n (r, w')"
      using grab_loop_keeps assms by (fastforce simp: loop_state_def grab_ok_def)
    then show "case r of Ok g \<Rightarrow> holds_own w' \<and> grab_ok raw n g | Throw e \<Rightarrow> holds_own w' | Undef \<Rightarrow> False"
      using own by (cases r) (auto simp: loop_post_def loop_state_def)
  qed
  have stp: "hoare (\<lambda>w. holds_own w \<and> grab_ok raw n g) (seq (v4l2_stop os) (ret g)) (\<lambda>g w. holds_own w \<and> grab_ok raw n g) (\<lambda>_. holds_own)" for g
    by (rule hoare_seq [OF hoare_ret], rule hoare_conj_const [OF stop_holds_own])
  have st: "hoare ?full (v4l2_start os) (\<lambda>_. ?full) (\<lambda>_. holds_own)"
    by (rule hoare_at_view [where k = k], rule hoare_conseq [OF start_keeps [OF assms]]) (auto intro: own)
  have "hoare (\<lambda>w. w_cap w = vc_new cfg \<and> w_held w = {#}) (v4l2_open os) (\<lambda>_. ?full) (\<lambda>_. holds_own)"
    by (rule open_fresh [OF assms])
  then show ?thesis
    unfolding zcv_body_def by (intro hoare_seq [OF hoare_seq [OF hoare_bind [OF stp loop] st]])
qed

lemma zcv_run_spec:
  assumes "v4l2_kernel os k"
  shows "hoare (\<lambda>w. w_cap w = vc_new cfg \<and> w_held w = {#}) (zcv_run os stop raw n)
     (\<lambda>res w. w_held w = {#} \<and> (case zr_grab res of Some g \<Rightarrow> zr_exit res = 0 \<and> grab_ok raw n g | None \<Rightarrow> zr_exit res = 1)) (\<lambda>_ _. False)"
proof (rule hoareI)
  fix w r w' assume pre: "w_cap w = vc_new cfg \<and> w_held w = {#}" and run: "zcv_run os stop raw n w = Some (r, w')"
  then obtain x w1 where b: "zcv_body os stop raw n w = Some (x, w1)" by (auto simp: zcv_run_def split: option.splits)
  have post: "case x of Ok g \<Rightarrow> holds_own w1 \<and> grab_ok raw n g | Throw e \<Rightarrow> holds_own w1 | Undef \<Rightarrow> False"
    using hoareD [OF zcv_body_spec [OF assms] pre b] .
  then have "holds_own w1" by (cases x) auto
  moreover obtain y w2 where d: "v4l2_destroy os w1 = Some (y, w2)"
    using run b post by (cases x) (auto simp: zcv_run_def split: option.splits)
  ultimately have "w_held w2 = {#}" using hoareD [OF destroy_releases _ d] by (cases y) auto
  then show "case r of Ok res \<Rightarrow> w_held w' = {#} \<and> (case zr_grab res of Some g \<Rightarrow> zr_exit res = 0 \<and> grab_ok raw n g | None \<Rightarrow> zr_exit res = 1)
      | Throw e \<Rightarrow> False | Undef \<Rightarrow> False"
    using run b d post by (cases x) (auto simp: zcv_run_def)
qed

lemma zcv_run_returns:
  assumes "v4l2_answers os" "stop m"
  shows "zcv_run os stop raw n w \<noteq> None"
proof -
  have "returns (grab_loop os stop raw n 0 ([], []))" using grab_loop_returns [of os stop m 0] assms by (simp add: returns_def)
  then have "returns (zcv_body os stop raw n)"
    unfolding zcv_body_def using methods_return [OF assms(1)] by (intro returns_rules)
  then show ?thesis
    using methods_return(7) [OF assms(1)] by (auto simp: returns_def zcv_run_def split: option.splits outcome.splits) (metis option.simps(3))+
qed

subsection \<open>Property\<close>



end
