(* ===== verification/Pipeline.thy ===== *)
theory Pipeline
  imports Effects Frame_Queue Latency_Tracker
begin

text \<open>
  The capture pipeline of \<open>src/gstreamer-multithread-pipeline\<close> (\<open>pipeline.hpp\<close>,
  \<open>pipeline.cpp\<close>): construction of the element graph, start and stop, and the two appsink
  callbacks that feed the frame queues.

  GStreamer is a parameter: \<open>gst_env\<close> holds which factories exist, which elements can be made,
  which links and pads succeed; a callback gets the pulled sample as a value that says what each
  accessor of the sample returns. The object keeps, beside its own members, the elements it made,
  the members and links of the bin, and ghost counters of the references, mappings and pads it
  has not yet given back. An exception carries its message.
\<close>

subsection \<open>Data\<close>

record encoded_frame =
  ef_data :: "byte list"
  ef_pts_ns :: u64
  ef_capture_mono_ns :: u64
  ef_keyframe :: bool

record raw_frame =
  rf_data :: "byte list"
  rf_width :: int
  rf_height :: int
  rf_format :: string
  rf_pts_ns :: u64

datatype encoder = Auto | V4L2H264 | X264

record pipeline_config =
  pc_device :: string
  pc_width :: int
  pc_height :: int
  pc_fps :: int
  pc_bitrate_kbps :: int
  pc_encoder :: encoder
  pc_enc_queue_capacity :: nat
  pc_raw_queue_capacity :: nat

definition pipeline_default :: pipeline_config where
  "pipeline_default = \<lparr>pc_device = ''/dev/video0'', pc_width = 1280, pc_height = 720, pc_fps = 30, pc_bitrate_kbps = 4000,
     pc_encoder = Auto, pc_enc_queue_capacity = 60, pc_raw_queue_capacity = 8\<rparr>"

text \<open>Property values: numbers, booleans, strings, fractions, and a named structure for caps and controls.\<close>

datatype gst_value = GInt int | GBool bool | GStr string | GFraction int int
  | GStruct string "(string \<times> gst_value) list" | GCapsString string

record gst_element =
  el_name :: string
  el_factory :: string
  el_props :: "(string \<times> gst_value) list"

datatype gst_state = STATE_NULL | STATE_PLAYING

record gst_env =
  ge_find :: "string \<Rightarrow> bool"
  ge_make :: "string \<Rightarrow> bool"
  ge_pipeline_new :: bool
  ge_link :: "string \<Rightarrow> string \<Rightarrow> bool"
  ge_request_pad :: "nat \<Rightarrow> bool"
  ge_static_pad :: "string \<Rightarrow> bool"
  ge_pad_link :: "nat \<Rightarrow> string \<Rightarrow> bool"
  ge_play :: bool

record pipeline =
  pl_cfg :: pipeline_config
  pl_encoder_factory :: string
  pl_bin :: bool
  pl_elements :: "gst_element list"
  pl_members :: "string list"
  pl_links :: "(string \<times> string) list"
  pl_tee_pads :: nat
  pl_pad_refs :: int
  pl_bus_watch :: bool
  pl_state :: gst_state
  pl_enc_q :: "encoded_frame frame_queue"
  pl_raw_q :: "raw_frame frame_queue"
  pl_appsink_latency :: latency_tracker
  pl_pts_counter :: u64
  pl_sample_refs :: int
  pl_maps :: int
  pl_clock_refs :: int

type_synonym 'a pact = "(pipeline, string, 'a) eff"

subsection \<open>Construction\<close>

definition pl_new :: "pipeline_config \<Rightarrow> pipeline" where
  "pl_new cfg = \<lparr>pl_cfg = cfg, pl_encoder_factory = '''', pl_bin = False, pl_elements = [], pl_members = [], pl_links = [],
     pl_tee_pads = 0, pl_pad_refs = 0, pl_bus_watch = False, pl_state = STATE_NULL,
     pl_enc_q = fq_new (pc_enc_queue_capacity cfg), pl_raw_q = fq_new (pc_raw_queue_capacity cfg),
     pl_appsink_latency = lt_new 512, pl_pts_counter = 0, pl_sample_refs = 0, pl_maps = 0, pl_clock_refs = 0\<rparr>"

definition gst_make :: "gst_env \<Rightarrow> string \<Rightarrow> string \<Rightarrow> unit pact" where
  "gst_make env factory name =
     seq (throw_if (\<not> ge_make env factory) (''gst_element_factory_make failed: '' @ factory))
         (modify (\<lambda>p. p\<lparr>pl_elements := pl_elements p @ [\<lparr>el_name = name, el_factory = factory, el_props = []\<rparr>]\<rparr>))"

definition gst_set :: "string \<Rightarrow> (string \<times> gst_value) list \<Rightarrow> unit pact" where
  "gst_set name props = modify (\<lambda>p. p\<lparr>pl_elements :=
     map (\<lambda>e. if el_name e = name then e\<lparr>el_props := el_props e @ props\<rparr> else e) (pl_elements p)\<rparr>)"

definition select_encoder :: "gst_env \<Rightarrow> unit pact" where
  "select_encoder env =
     bind (gets pl_cfg) (\<lambda>cfg.
     let name = (case pc_encoder cfg of V4L2H264 \<Rightarrow> ''v4l2h264enc'' | X264 \<Rightarrow> ''x264enc''
                 | Auto \<Rightarrow> if ge_find env ''v4l2h264enc'' then ''v4l2h264enc'' else ''x264enc'') in
     seq (modify (\<lambda>p. p\<lparr>pl_encoder_factory := name\<rparr>))
         (throw_if (\<not> ge_find env name) (''encoder element not available: '' @ name)))"

text \<open>\<open>gst_element_link_many\<close>: the consecutive pairs; it stops at the first that fails.\<close>

fun gst_link_many :: "gst_env \<Rightarrow> string \<Rightarrow> string list \<Rightarrow> unit pact" where
  "gst_link_many env err (a # b # es) =
     seq (throw_if (\<not> ge_link env a b) err)
         (seq (modify (\<lambda>p. p\<lparr>pl_links := pl_links p @ [(a, b)]\<rparr>)) (gst_link_many env err (b # es)))"
| "gst_link_many env err _ = ret ()"

definition link_tee_branch :: "gst_env \<Rightarrow> string \<Rightarrow> unit pact" where
  "link_tee_branch env queue_head =
     bind (gets pl_tee_pads) (\<lambda>n.
     let tee_pad = ge_request_pad env n; q_pad = ge_static_pad env queue_head in
     seq (modify (\<lambda>p. p\<lparr>pl_tee_pads := (if tee_pad then n + 1 else n),
            pl_pad_refs := pl_pad_refs p + (if tee_pad then 1 else 0) + (if q_pad then 1 else 0)\<rparr>)) (
     seq (throw_if (\<not> tee_pad \<or> \<not> q_pad \<or> \<not> ge_pad_link env n queue_head)
            ''failed to link a tee src pad to a branch queue'')
         (modify (\<lambda>p. p\<lparr>pl_links := pl_links p @ [(''t'', queue_head)], pl_pad_refs := pl_pad_refs p - 2\<rparr>))))"

definition src_caps :: "pipeline_config \<Rightarrow> gst_value" where
  "src_caps cfg = GStruct ''video/x-raw'' [(''width'', GInt (pc_width cfg)), (''height'', GInt (pc_height cfg)),
     (''framerate'', GFraction (pc_fps cfg) 1)]"

definition encoder_props :: "string \<Rightarrow> pipeline_config \<Rightarrow> (string \<times> gst_value) list" where
  "encoder_props factory cfg =
     (if factory = ''x264enc''
      then [(''tune'', GInt 4), (''speed-preset'', GInt 1), (''key-int-max'', GInt (pc_fps cfg * 2)), (''bitrate'', GInt (pc_bitrate_kbps cfg))]
      else [(''extra-controls'', GStruct ''controls'' [(''video_bitrate'', GInt (pc_bitrate_kbps cfg * 1000)),
              (''h264_i_frame_period'', GInt (pc_fps cfg * 2))])])"

definition h264_caps :: string where
  "h264_caps = ''video/x-h264,stream-format=byte-stream,alignment=au''"

text \<open>The three parts of \<open>build()\<close>: source and tee, the encoder branch, the raw branch.\<close>

definition build_source :: "gst_env \<Rightarrow> unit pact" where
  "build_source env =
     bind (gets pl_cfg) (\<lambda>cfg.
     seq (gst_make env ''v4l2src'' ''cam'') (seq (gst_make env ''capsfilter'' ''srccaps'') (seq (gst_make env ''tee'' ''t'') (
     seq (gst_set ''cam'' [(''device'', GStr (pc_device cfg)), (''io-mode'', GInt 2)])
         (gst_set ''srccaps'' [(''caps'', src_caps cfg)])))))"

definition build_encoder :: "gst_env \<Rightarrow> unit pact" where
  "build_encoder env =
     bind (gets (\<lambda>p. (pl_cfg p, pl_encoder_factory p))) (\<lambda>(cfg, factory).
     seq (gst_make env ''queue'' ''enc_q'') (seq (gst_make env ''videoconvert'' ''enc_cvt'') (
     seq (gst_make env factory ''enc'') (seq (gst_make env ''h264parse'' ''enc_parse'') (seq (gst_make env ''appsink'' ''enc_sink'') (
     seq (gst_set ''enc_q'' [(''leaky'', GInt 2), (''max-size-buffers'', GInt 8), (''max-size-time'', GInt 0), (''max-size-bytes'', GInt 0)]) (
     seq (gst_set ''enc'' (encoder_props factory cfg)) (
     seq (gst_set ''enc_parse'' [(''config-interval'', GInt (-1))])
         (gst_set ''enc_sink'' [(''emit-signals'', GBool True), (''sync'', GBool False), (''drop'', GBool False),
            (''max-buffers'', GInt 8), (''caps'', GCapsString h264_caps)])))))))))"

definition build_raw :: "gst_env \<Rightarrow> unit pact" where
  "build_raw env =
     seq (gst_make env ''queue'' ''raw_q'') (seq (gst_make env ''videoconvert'' ''raw_cvt'') (
     seq (gst_make env ''capsfilter'' ''raw_caps'') (seq (gst_make env ''appsink'' ''raw_sink'') (
     seq (gst_set ''raw_q'' [(''leaky'', GInt 2), (''max-size-buffers'', GInt 4), (''max-size-time'', GInt 0), (''max-size-bytes'', GInt 0)]) (
     seq (gst_set ''raw_caps'' [(''caps'', GStruct ''video/x-raw'' [(''format'', GStr ''NV12'')])])
         (gst_set ''raw_sink'' [(''emit-signals'', GBool True), (''sync'', GBool False), (''drop'', GBool True), (''max-buffers'', GInt 2)]))))))"

definition pl_build :: "gst_env \<Rightarrow> unit pact" where
  "pl_build env =
     seq (select_encoder env) (
     seq (throw_if (\<not> ge_pipeline_new env) ''gst_pipeline_new failed'') (
     seq (modify (\<lambda>p. p\<lparr>pl_bin := True\<rparr>)) (
     seq (build_source env) (seq (build_encoder env) (seq (build_raw env) (
     seq (modify (\<lambda>p. p\<lparr>pl_members := pl_members p @ [''cam'', ''srccaps'', ''t'', ''enc_q'', ''enc_cvt'', ''enc'', ''enc_parse'', ''enc_sink'',
            ''raw_q'', ''raw_cvt'', ''raw_caps'', ''raw_sink'']\<rparr>)) (
     seq (gst_link_many env ''link v4l2src -> capsfilter -> tee failed'' [''cam'', ''srccaps'', ''t'']) (
     seq (gst_link_many env ''link encoder branch failed'' [''enc_q'', ''enc_cvt'', ''enc'', ''enc_parse'', ''enc_sink'']) (
     seq (gst_link_many env ''link raw branch failed'' [''raw_q'', ''raw_cvt'', ''raw_caps'', ''raw_sink'']) (
     seq (link_tee_branch env ''enc_q'') (seq (link_tee_branch env ''raw_q'')
         (modify (\<lambda>p. p\<lparr>pl_bus_watch := True\<rparr>)))))))))))))"

subsection \<open>Control\<close>

definition pl_start :: "gst_env \<Rightarrow> unit pact" where
  "pl_start env = seq (throw_if (\<not> ge_play env) ''pipeline failed to reach PLAYING'') (modify (\<lambda>p. p\<lparr>pl_state := STATE_PLAYING\<rparr>))"

definition pl_stop :: "pipeline \<Rightarrow> pipeline" where
  "pl_stop p = (if \<not> pl_bin p then p
     else p\<lparr>pl_state := STATE_NULL, pl_enc_q := fq_close (pl_enc_q p), pl_raw_q := fq_close (pl_raw_q p)\<rparr>)"

text \<open>Destructor: the object after \<open>stop()\<close>, with the bus watch and the bin given back.\<close>

definition pl_destroy :: "pipeline \<Rightarrow> pipeline" where
  "pl_destroy p = (pl_stop p)\<lparr>pl_bus_watch := False, pl_bin := False\<rparr>"

text \<open>\<open>encoder_caps()\<close>: the caps string of the encoder sink's pad, when it has one.\<close>

definition encoder_caps :: "pipeline \<Rightarrow> (string option) option \<Rightarrow> string" where
  "encoder_caps p pad = (if \<not> (\<exists>e \<in> set (pl_elements p). el_name e = ''enc_sink'') then []
     else case pad of Some (Some s) \<Rightarrow> s | _ \<Rightarrow> [])"

subsection \<open>Callbacks\<close>

text \<open>What the accessors of a pulled sample return. \<open>sb_clock\<close> is the clock's reading and the base
  time, when the pipeline has a clock.\<close>

record sample_buffer =
  sb_data :: "byte list"
  sb_delta :: bool
  sb_pts :: "u64 option"
  sb_maps :: bool
  sb_clock :: "(u64 \<times> u64) option"
  sb_mono :: u64

record raw_caps =
  rc_width :: "int option"
  rc_height :: "int option"
  rc_format :: "string option"

definition frame_duration :: "int \<Rightarrow> u64" where
  "frame_duration fps = of_int (1000000000 div max 1 fps)"

definition sample_latency_ms :: "u64 \<Rightarrow> u64 \<Rightarrow> u64 \<Rightarrow> rat" where
  "sample_latency_ms now base pts =
     f64 (f64 (f64 (of_nat (unat (now - base))) - f64 (of_nat (unat pts))) / 1000000)"

text \<open>The sample the latency tracker gets, if any.\<close>

definition latency_sample :: "sample_buffer \<Rightarrow> rat option" where
  "latency_sample b = (case (sb_clock b, sb_pts b) of
     (Some (now, base), Some pts) \<Rightarrow>
       if base < now then (let ms = sample_latency_ms now base pts in if 0 < ms \<and> ms < 5000 then Some ms else None) else None
   | _ \<Rightarrow> None)"

definition on_new_encoded_sample :: "sample_buffer option option \<Rightarrow> pipeline \<Rightarrow> pipeline option" where
  "on_new_encoded_sample sample p =
     (case sample of None \<Rightarrow> Some p
      | Some buf \<Rightarrow>
        let p0 = p\<lparr>pl_sample_refs := pl_sample_refs p + 1\<rparr> in
        case (case buf of None \<Rightarrow> Some p0 | Some b \<Rightarrow>
              if \<not> sb_maps b then Some p0
              else let counter = pl_pts_counter p0;
                       p1 = p0\<lparr>pl_maps := pl_maps p0 + 1, pl_pts_counter := counter + frame_duration (pc_fps (pl_cfg p0))\<rparr>;
                       f = \<lparr>ef_data = sb_data b, ef_pts_ns = (case sb_pts b of Some t \<Rightarrow> t | None \<Rightarrow> counter),
                            ef_capture_mono_ns = sb_mono b, ef_keyframe = \<not> sb_delta b\<rparr>;
                       p2 = p1\<lparr>pl_clock_refs := pl_clock_refs p1 + (if sb_clock b \<noteq> None then 1 else 0)\<rparr>
                   in case (case latency_sample b of None \<Rightarrow> Some (pl_appsink_latency p2)
                            | Some ms \<Rightarrow> lt_add ms (pl_appsink_latency p2)) of
                        None \<Rightarrow> None
                      | Some lat \<Rightarrow>
                        let p3 = p2\<lparr>pl_appsink_latency := lat,
                              pl_clock_refs := pl_clock_refs p2 - (if sb_clock b \<noteq> None then 1 else 0), pl_maps := pl_maps p2 - 1\<rparr>
                        in case fq_push f (pl_enc_q p3) of None \<Rightarrow> None
                           | Some (_, q) \<Rightarrow> Some (p3\<lparr>pl_enc_q := q\<rparr>)) of
          None \<Rightarrow> None
        | Some p4 \<Rightarrow> Some (p4\<lparr>pl_sample_refs := pl_sample_refs p4 - 1\<rparr>))"

definition on_new_raw_sample :: "(sample_buffer option \<times> raw_caps option) option \<Rightarrow> pipeline \<Rightarrow> pipeline option" where
  "on_new_raw_sample sample p =
     (case sample of None \<Rightarrow> Some p
      | Some (buf, caps) \<Rightarrow>
        let p0 = p\<lparr>pl_sample_refs := pl_sample_refs p + 1\<rparr> in
        case (case (buf, caps) of
                (Some b, Some c) \<Rightarrow>
                  if \<not> sb_maps b then Some p0
                  else let p1 = p0\<lparr>pl_maps := pl_maps p0 + 1\<rparr>;
                           f = \<lparr>rf_data = sb_data b, rf_width = (case rc_width c of Some w \<Rightarrow> w | None \<Rightarrow> 0),
                                rf_height = (case rc_height c of Some h \<Rightarrow> h | None \<Rightarrow> 0),
                                rf_format = (case rc_format c of Some s \<Rightarrow> s | None \<Rightarrow> ''NV12''),
                                rf_pts_ns = (case sb_pts b of Some t \<Rightarrow> t | None \<Rightarrow> 0)\<rparr>;
                           p2 = p1\<lparr>pl_maps := pl_maps p1 - 1\<rparr>
                       in case fq_push f (pl_raw_q p2) of None \<Rightarrow> None | Some (_, q) \<Rightarrow> Some (p2\<lparr>pl_raw_q := q\<rparr>)
              | _ \<Rightarrow> Some p0) of
          None \<Rightarrow> None
        | Some p3 \<Rightarrow> Some (p3\<lparr>pl_sample_refs := pl_sample_refs p3 - 1\<rparr>))"

text \<open>Bus messages: what the error handler is called with, if it is set.\<close>

datatype bus_message = MsgError "string option" | MsgWarning | MsgEos | MsgQos | MsgOther

definition on_bus_message :: "bus_message \<Rightarrow> bool \<Rightarrow> string option" where
  "on_bus_message msg handler_set =
     (case msg of
        MsgError err \<Rightarrow> if handler_set then Some (case err of Some t \<Rightarrow> t | None \<Rightarrow> ''unknown'') else None
      | MsgEos \<Rightarrow> if handler_set then Some ''end-of-stream'' else None
      | _ \<Rightarrow> None)"

subsection \<open>Running the construction\<close>

lemma seq_steps [simp]:
  "seq (throw_if c e) m w = (if c then Some (Throw e, w) else m w)"
  "seq (modify f) m w = m (f w)"
  "bind (gets g) h w = h (g w) w"
  by (simp_all add: eff_defs)

lemma bind_seq: "seq (bind m f) c = bind m (\<lambda>x. seq (f x) c)"
  by (rule ext) (auto simp: seq_def bind_def split: option.splits outcome.splits)

definition shape :: "pipeline \<Rightarrow> (string \<times> string) list" where
  "shape p = map (\<lambda>e. (el_name e, el_factory e)) (pl_elements p)"

lemma shape_set:
  "map (\<lambda>e. (el_name e, el_factory e)) (map (\<lambda>e. if el_name e = n then e\<lparr>el_props := g e\<rparr> else e) es)
    = map (\<lambda>e. (el_name e, el_factory e)) es"
  by (induction es) auto

text \<open>The graph part of the object, and what the steps of the construction do to it.\<close>

definition graph :: "pipeline \<Rightarrow> (string \<times> string) list \<times> string list \<times> (string \<times> string) list \<times> int \<times> string" where
  "graph p = (shape p, pl_members p, pl_links p, pl_pad_refs p, pl_encoder_factory p)"

lemma modify_graph:
  "(\<And>p. graph p = g \<Longrightarrow> graph (h p) = g') \<Longrightarrow> hoare (\<lambda>p. graph p = g) (modify h) (\<lambda>_ p. graph p = g') (\<lambda>_ _. True)"
  by (simp add: hoare_def modify_def)

lemma throw_graph: "hoare (\<lambda>p. graph p = g) (throw_if c e) (\<lambda>_ p. graph p = g) (\<lambda>_ _. True)"
  by (simp add: hoare_def throw_if_def ret_def raise_def)

lemma gst_make_graph:
  "hoare (\<lambda>p. graph p = (es, ms, ls, k, f)) (gst_make env fac n) (\<lambda>_ p. graph p = (es @ [(n, fac)], ms, ls, k, f)) (\<lambda>_ _. True)"
  by (simp add: hoare_def gst_make_def) (simp add: eff_defs graph_def shape_def)

lemma gst_set_graph:
  "hoare (\<lambda>p. graph p = g) (gst_set n ps) (\<lambda>_ p. graph p = g) (\<lambda>_ _. True)"
  unfolding hoare_def gst_set_def modify_def graph_def shape_def by (auto simp: shape_set)

lemma gst_link_many_graph:
  "hoare (\<lambda>p. graph p = (es, ms, ls, k, f)) (gst_link_many env err ns)
     (\<lambda>_ p. graph p = (es, ms, ls @ zip ns (tl ns), k, f)) (\<lambda>_ _. True)"
proof (induction env err ns arbitrary: ls rule: gst_link_many.induct)
  case (1 env err a b xs)
  have "hoare (\<lambda>p. graph p = (es, ms, ls @ [(a, b)], k, f)) (gst_link_many env err (b # xs))
     (\<lambda>_ p. graph p = (es, ms, ls @ zip (a # b # xs) (tl (a # b # xs)), k, f)) (\<lambda>_ _. True)"
    using 1 [of "ls @ [(a, b)]"] by simp
  note tl = this
  show ?case
    unfolding gst_link_many.simps
    by (rule hoare_seq [OF hoare_seq [OF tl modify_graph] throw_graph]) (simp add: graph_def shape_def)
qed (simp_all add: hoare_def ret_def)

lemma link_tee_graph:
  "hoare (\<lambda>p. graph p = (es, ms, ls, k, f)) (link_tee_branch env q)
     (\<lambda>_ p. graph p = (es, ms, ls @ [(''t'', q)], k, f)) (\<lambda>_ _. True)"
  by (auto simp: hoare_def link_tee_branch_def Let_def graph_def shape_def) (auto simp: modify_def)

definition chosen_encoder :: "gst_env \<Rightarrow> encoder \<Rightarrow> string" where
  "chosen_encoder env e = (if e = V4L2H264 \<or> (e = Auto \<and> ge_find env ''v4l2h264enc'') then ''v4l2h264enc'' else ''x264enc'')"

lemma select_encoder_graph:
  "hoare (\<lambda>p. graph p = (es, ms, ls, k, f) \<and> pl_cfg p = cfg) (select_encoder env)
     (\<lambda>_ p. graph p = (es, ms, ls, k, chosen_encoder env (pc_encoder cfg)) \<and> pl_cfg p = cfg \<and> ge_find env (chosen_encoder env (pc_encoder cfg)))
     (\<lambda>_ _. True)"
  by (auto simp: hoare_def select_encoder_def Let_def graph_def shape_def chosen_encoder_def throw_if_def ret_def raise_def
      split: encoder.splits if_splits)

lemma hoare_seq_fwd: "hoare P m (\<lambda>_. R) E \<Longrightarrow> hoare R n Q E \<Longrightarrow> hoare P (seq m n) Q E"
  by (rule hoare_seq)

lemma hoare_gets_any: "(\<And>w. P w \<Longrightarrow> hoare P (g (f w)) Q E) \<Longrightarrow> hoare P (bind (gets f) g) Q E"
  by (auto simp: hoare_def)

lemmas graph_rules = hoare_seq_fwd gst_make_graph gst_set_graph gst_link_many_graph link_tee_graph throw_graph

lemma build_source_graph:
  "hoare (\<lambda>p. graph p = ([], ms, ls, k, f)) (build_source env)
     (\<lambda>_ p. graph p = ([(''cam'', ''v4l2src''), (''srccaps'', ''capsfilter''), (''t'', ''tee'')], ms, ls, k, f)) (\<lambda>_ _. True)"
  unfolding build_source_def
  by (rule hoare_gets_any, rule hoare_conseq, (rule graph_rules)+) auto

lemma build_encoder_graph:
  "hoare (\<lambda>p. graph p = (es, ms, ls, k, f)) (build_encoder env)
     (\<lambda>_ p. graph p = (es @ [(''enc_q'', ''queue''), (''enc_cvt'', ''videoconvert''), (''enc'', f), (''enc_parse'', ''h264parse''),
        (''enc_sink'', ''appsink'')], ms, ls, k, f)) (\<lambda>_ _. True)"
  unfolding build_encoder_def
proof (rule hoare_gets_any)
  fix p assume "graph p = (es, ms, ls, k, f)"
  then have f: "pl_encoder_factory p = f" by (simp add: graph_def)
  show "hoare (\<lambda>p. graph p = (es, ms, ls, k, f)) (case (pl_cfg p, pl_encoder_factory p) of (cfg, factory) \<Rightarrow>
     seq (gst_make env ''queue'' ''enc_q'') (seq (gst_make env ''videoconvert'' ''enc_cvt'') (
     seq (gst_make env factory ''enc'') (seq (gst_make env ''h264parse'' ''enc_parse'') (seq (gst_make env ''appsink'' ''enc_sink'') (
     seq (gst_set ''enc_q'' [(''leaky'', GInt 2), (''max-size-buffers'', GInt 8), (''max-size-time'', GInt 0), (''max-size-bytes'', GInt 0)]) (
     seq (gst_set ''enc'' (encoder_props factory cfg)) (
     seq (gst_set ''enc_parse'' [(''config-interval'', GInt (-1))])
         (gst_set ''enc_sink'' [(''emit-signals'', GBool True), (''sync'', GBool False), (''drop'', GBool False),
            (''max-buffers'', GInt 8), (''caps'', GCapsString h264_caps)])))))))))
     (\<lambda>_ p. graph p = (es @ [(''enc_q'', ''queue''), (''enc_cvt'', ''videoconvert''), (''enc'', f), (''enc_parse'', ''h264parse''),
        (''enc_sink'', ''appsink'')], ms, ls, k, f)) (\<lambda>_ _. True)"
    unfolding prod.case f by (rule hoare_conseq, (rule graph_rules)+) simp_all
qed

lemma build_raw_graph:
  "hoare (\<lambda>p. graph p = (es, ms, ls, k, f)) (build_raw env)
     (\<lambda>_ p. graph p = (es @ [(''raw_q'', ''queue''), (''raw_cvt'', ''videoconvert''), (''raw_caps'', ''capsfilter''), (''raw_sink'', ''appsink'')],
        ms, ls, k, f)) (\<lambda>_ _. True)"
  unfolding build_raw_def by (rule hoare_conseq, (rule graph_rules)+) simp_all

lemma build_graph:
  "hoare (\<lambda>p. p = pl_new cfg) (pl_build env)
     (\<lambda>_ p. graph p =
       ([(''cam'', ''v4l2src''), (''srccaps'', ''capsfilter''), (''t'', ''tee''), (''enc_q'', ''queue''), (''enc_cvt'', ''videoconvert''),
         (''enc'', chosen_encoder env (pc_encoder cfg)), (''enc_parse'', ''h264parse''), (''enc_sink'', ''appsink''), (''raw_q'', ''queue''),
         (''raw_cvt'', ''videoconvert''), (''raw_caps'', ''capsfilter''), (''raw_sink'', ''appsink'')],
        [''cam'', ''srccaps'', ''t'', ''enc_q'', ''enc_cvt'', ''enc'', ''enc_parse'', ''enc_sink'', ''raw_q'', ''raw_cvt'', ''raw_caps'', ''raw_sink''],
        [(''cam'', ''srccaps''), (''srccaps'', ''t''), (''enc_q'', ''enc_cvt''), (''enc_cvt'', ''enc''), (''enc'', ''enc_parse''),
         (''enc_parse'', ''enc_sink''), (''raw_q'', ''raw_cvt''), (''raw_cvt'', ''raw_caps''), (''raw_caps'', ''raw_sink''),
         (''t'', ''enc_q''), (''t'', ''raw_q'')], 0, chosen_encoder env (pc_encoder cfg)))
     (\<lambda>_ _. True)"
proof -
  let ?f = "chosen_encoder env (pc_encoder cfg)"
  have sel: "hoare (\<lambda>p. p = pl_new cfg) (select_encoder env) (\<lambda>_ p. graph p = ([], [], [], 0, ?f)) (\<lambda>_ _. True)"
    by (rule hoare_conseq [OF select_encoder_graph [of "[]" "[]" "[]" 0 "[]" cfg]]) (auto simp: graph_def shape_def pl_new_def)
  have bin: "hoare (\<lambda>p. graph p = g) (modify (\<lambda>p. p\<lparr>pl_bin := True\<rparr>)) (\<lambda>_ p. graph p = g) (\<lambda>_ _. True)" for g
    by (rule modify_graph) (simp add: graph_def shape_def)
  have mem: "hoare (\<lambda>p. graph p = (es, ms, ls, k, f)) (modify (\<lambda>p. p\<lparr>pl_members := pl_members p @ ns\<rparr>))
      (\<lambda>_ p. graph p = (es, ms @ ns, ls, k, f)) (\<lambda>_ _. True)" for es ms ls k f ns
    by (rule modify_graph) (simp add: graph_def shape_def)
  have bus: "hoare (\<lambda>p. graph p = g) (modify (\<lambda>p. p\<lparr>pl_bus_watch := True\<rparr>)) (\<lambda>_ p. graph p = g) (\<lambda>_ _. True)" for g
    by (rule modify_graph) (simp add: graph_def shape_def)
  show ?thesis
    unfolding pl_build_def
    by (rule hoare_conseq, (rule sel bin mem bus build_source_graph build_encoder_graph build_raw_graph graph_rules)+) simp_all
qed

subsection \<open>The encoder callback\<close>

text \<open>The buffers of a list of pulled samples that could be mapped, and the frames made of them: a
  buffer without a timestamp gets the running counter.\<close>

definition mapped :: "sample_buffer option option list \<Rightarrow> sample_buffer list" where
  "mapped ss = concat (map (\<lambda>s. case s of Some (Some b) \<Rightarrow> if sb_maps b then [b] else [] | _ \<Rightarrow> []) ss)"

definition enc_frame :: "u64 \<Rightarrow> sample_buffer \<Rightarrow> encoded_frame" where
  "enc_frame t b = \<lparr>ef_data = sb_data b, ef_pts_ns = (case sb_pts b of Some t \<Rightarrow> t | None \<Rightarrow> t),
     ef_capture_mono_ns = sb_mono b, ef_keyframe = \<not> sb_delta b\<rparr>"

definition enc_frames :: "int \<Rightarrow> sample_buffer list \<Rightarrow> encoded_frame list" where
  "enc_frames fps bs = map (\<lambda>(k, b). enc_frame (of_nat k * frame_duration fps) b) (enumerate 0 bs)"

definition latency_samples :: "sample_buffer list \<Rightarrow> rat list" where
  "latency_samples bs = List.map_filter latency_sample bs"

lemma mapped_simps [simp]: "mapped [] = []" "mapped (ss @ [s]) = mapped ss @ mapped [s]"
  by (simp_all add: mapped_def)

lemma enc_frames_snoc: "enc_frames fps (bs @ [b]) = enc_frames fps bs @ [enc_frame (of_nat (length bs) * frame_duration fps) b]"
  by (simp add: enc_frames_def enumerate_append_eq)

lemma newest_snoc: "0 < w \<Longrightarrow> newest w (xs @ [v]) = (if length (newest w xs) < w then newest w xs @ [v] else tl (newest w xs) @ [v])"
  by (auto simp: newest_def min_def drop_Suc tl_drop Suc_diff_le)

text \<open>What the callback has done after the samples \<open>ss\<close>, from a new object.\<close>

definition enc_state :: "pipeline_config \<Rightarrow> sample_buffer list \<Rightarrow> pipeline \<Rightarrow> bool" where
  "enc_state cfg bs p \<longleftrightarrow> pl_cfg p = cfg \<and> \<not> fq_closed (pl_enc_q p) \<and> fq_capacity (pl_enc_q p) = pc_enc_queue_capacity cfg
     \<and> fq_q (pl_enc_q p) = newest (pc_enc_queue_capacity cfg) (enc_frames (pc_fps cfg) bs)
     \<and> pl_pts_counter p = of_nat (length bs) * frame_duration (pc_fps cfg)
     \<and> lt.ring (pl_appsink_latency p) (latency_samples bs) \<and> lt_window (pl_appsink_latency p) = 512
     \<and> pl_sample_refs p = 0 \<and> pl_maps p = 0 \<and> pl_clock_refs p = 0 \<and> pl_raw_q p = fq_new (pc_raw_queue_capacity cfg)"

lemma enc_state_fits: "enc_state cfg bs p \<Longrightarrow> 0 < pc_enc_queue_capacity cfg \<Longrightarrow> fq.fits (pl_enc_q p)"
  by (simp add: enc_state_def fq.fits_def newest_length)

lemma enc_state_lat:
  assumes "enc_state cfg bs p"
  shows "\<exists>lat. (case latency_sample b of None \<Rightarrow> Some (pl_appsink_latency p) | Some ms \<Rightarrow> lt_add ms (pl_appsink_latency p)) = Some lat
     \<and> lt.ring lat (latency_samples (bs @ [b])) \<and> lt_window lat = 512"
  using assms lt.ring_add [of "pl_appsink_latency p" "latency_samples bs"]
  by (fastforce simp: enc_state_def latency_samples_def map_filter_simps List.map_filter_def split: option.splits)

lemma on_new_encoded_sample_unmapped: "mapped [s] = [] \<Longrightarrow> on_new_encoded_sample s p = Some p"
proof (cases s)
  case (Some buf)
  assume "mapped [s] = []"
  then show ?thesis using Some
    by (cases buf) (simp_all add: on_new_encoded_sample_def mapped_def split: if_splits)
qed (simp add: on_new_encoded_sample_def)

lemma on_new_encoded_sample_step:
  assumes st: "enc_state cfg bs p" and cap: "0 < pc_enc_queue_capacity cfg" and maps: "sb_maps b"
  shows "\<exists>p'. on_new_encoded_sample (Some (Some b)) p = Some p' \<and> enc_state cfg (bs @ [b]) p'"
proof -
  obtain lat where lat: "(case latency_sample b of None \<Rightarrow> Some (pl_appsink_latency p) | Some ms \<Rightarrow> lt_add ms (pl_appsink_latency p)) = Some lat"
    "lt.ring lat (latency_samples (bs @ [b]))" "lt_window lat = 512"
    using enc_state_lat [OF st] by blast
  let ?f = "enc_frame (pl_pts_counter p) b"
  obtain r q where push: "fq_push ?f (pl_enc_q p) = Some (r, q)" "fq_capacity q = fq_capacity (pl_enc_q p)"
    "fq_closed q = fq_closed (pl_enc_q p)" "fq_q q = (if fq_closed (pl_enc_q p) then fq_q (pl_enc_q p)
       else if length (fq_q (pl_enc_q p)) < fq_capacity (pl_enc_q p) then fq_q (pl_enc_q p) @ [?f] else tl (fq_q (pl_enc_q p)) @ [?f])"
    by (rule fq.push_total [OF enc_state_fits [OF st cap], of ?f])
  then have q: "fq_q q = newest (pc_enc_queue_capacity cfg) (enc_frames (pc_fps cfg) (bs @ [b]))" "\<not> fq_closed q"
    using st newest_snoc [OF cap, of "enc_frames (pc_fps cfg) bs"] by (simp_all add: enc_state_def enc_frames_snoc)
  have "on_new_encoded_sample (Some (Some b)) p = Some (p\<lparr>pl_pts_counter := pl_pts_counter p + frame_duration (pc_fps (pl_cfg p)),
      pl_appsink_latency := lat, pl_enc_q := q\<rparr>)"
    using maps lat(1) push(1)
    by (cases "latency_sample b"; cases "sb_pts b"; cases "sb_clock b") (simp_all add: on_new_encoded_sample_def enc_frame_def)
  then show ?thesis using st lat(2,3) push(2) q by (auto simp: enc_state_def algebra_simps)
qed

lemma enc_state_run:
  assumes "0 < pc_enc_queue_capacity cfg"
  shows "\<exists>p. for_each on_new_encoded_sample ss (pl_new cfg) = Some p \<and> enc_state cfg (mapped ss) p"
proof (induction ss rule: rev_induct)
  case Nil
  show ?case by (simp add: enc_state_def pl_new_def fq_new_def newest_def enc_frames_def latency_samples_def map_filter_simps) 
      (simp add: lt_new_def)
next
  case (snoc s ss)
  then obtain p where p: "for_each on_new_encoded_sample ss (pl_new cfg) = Some p" "enc_state cfg (mapped ss) p" by blast
  show ?case
  proof (cases "mapped [s] = []")
    case True
    then show ?thesis using p on_new_encoded_sample_unmapped [OF True] by (simp add: for_each_append)
  next
    case False
    then obtain b where b: "s = Some (Some b)" "sb_maps b" "mapped [s] = [b]"
      by (auto simp: mapped_def split: option.splits if_splits)
    then show ?thesis using p on_new_encoded_sample_step [OF p(2) assms b(2)] by (auto simp: for_each_append)
  qed
qed

subsection \<open>The raw callback\<close>

lemma raw_callback_balanced:
  assumes "fq.fits (pl_raw_q p)"
  shows "\<exists>q. on_new_raw_sample s p = Some (p\<lparr>pl_raw_q := q\<rparr>) \<and> fq.fits q \<and> fq_capacity q = fq_capacity (pl_raw_q p)"
proof (cases "\<exists>b c. s = Some (Some b, Some c) \<and> sb_maps b")
  case True
  then obtain b c where s: "s = Some (Some b, Some c)" "sb_maps b" by blast
  define f where "f = \<lparr>rf_data = sb_data b, rf_width = (case rc_width c of Some w \<Rightarrow> w | None \<Rightarrow> 0),
     rf_height = (case rc_height c of Some h \<Rightarrow> h | None \<Rightarrow> 0), rf_format = (case rc_format c of Some s \<Rightarrow> s | None \<Rightarrow> ''NV12''),
     rf_pts_ns = (case sb_pts b of Some t \<Rightarrow> t | None \<Rightarrow> 0)\<rparr>"
  obtain r q where "fq_push f (pl_raw_q p) = Some (r, q)" "fq.fits q" "fq_capacity q = fq_capacity (pl_raw_q p)"
    by (rule fq.push_total [OF assms, of f])
  then show ?thesis using s by (auto simp: on_new_raw_sample_def f_def Let_def)
next
  case False
  have "on_new_raw_sample s p = Some p"
  proof (cases s)
    case (Some x)
    obtain b c where "x = (b, c)" by fastforce
    then show ?thesis using False Some by (cases b; cases c) (auto simp: on_new_raw_sample_def)
  qed (simp add: on_new_raw_sample_def)
  then show ?thesis using assms by (intro exI [of _ "pl_raw_q p"]) simp
qed

subsection \<open>Properties\<close>

lemma gst_link_many_returns: "returns (gst_link_many env err ns)"
proof (induction env err ns rule: gst_link_many.induct)
  case (1 env err a b es)
  then show ?case unfolding gst_link_many.simps by (intro returns_rules)
qed (simp_all add: returns_rules)

lemma build_returns: "returns (pl_build env)"
  unfolding pl_build_def select_encoder_def build_source_def build_encoder_def build_raw_def gst_make_def gst_set_def
    link_tee_branch_def Let_def case_prod_beta
  by (intro returns_rules gst_link_many_returns)

text \<open>The documented topology.\<close>

definition doc_members :: "string list" where
  "doc_members = [''cam'', ''srccaps'', ''t'', ''enc_q'', ''enc_cvt'', ''enc'', ''enc_parse'', ''enc_sink'',
     ''raw_q'', ''raw_cvt'', ''raw_caps'', ''raw_sink'']"

definition doc_links :: "(string \<times> string) list" where
  "doc_links = [(''cam'', ''srccaps''), (''srccaps'', ''t''), (''enc_q'', ''enc_cvt''), (''enc_cvt'', ''enc''), (''enc'', ''enc_parse''),
     (''enc_parse'', ''enc_sink''), (''raw_q'', ''raw_cvt''), (''raw_cvt'', ''raw_caps''), (''raw_caps'', ''raw_sink''),
     (''t'', ''enc_q''), (''t'', ''raw_q'')]"

lemma doc_links_members: "\<forall>(a, b) \<in> set doc_links. a \<in> set doc_members \<and> b \<in> set doc_members"
  by code_simp

lemma doc_reachable: "{n. (''cam'', n) \<in> (set doc_links)\<^sup>*} = set doc_members"
proof (intro equalityI subsetI)
  fix n assume "n \<in> {n. (''cam'', n) \<in> (set doc_links)\<^sup>*}"
  then have "(''cam'', n) \<in> (set doc_links)\<^sup>*" by simp
  then show "n \<in> set doc_members"
  proof induction
    case base
    show ?case by code_simp
  next
    case (step y z)
    then show ?case using doc_links_members by auto
  qed
next
  have links: "(a, b) \<in> set doc_links \<Longrightarrow> (''cam'', a) \<in> (set doc_links)\<^sup>* \<Longrightarrow> (''cam'', b) \<in> (set doc_links)\<^sup>*" for a b
    by (rule rtrancl_into_rtrancl)
  have t: "(''cam'', ''srccaps'') \<in> (set doc_links)\<^sup>*" "(''cam'', ''t'') \<in> (set doc_links)\<^sup>*"
    using links [of "''cam''" "''srccaps''"] links [of "''srccaps''" "''t''"] by (auto simp: doc_links_def)
  have e: "(''cam'', ''enc_q'') \<in> (set doc_links)\<^sup>*" "(''cam'', ''enc_cvt'') \<in> (set doc_links)\<^sup>*" "(''cam'', ''enc'') \<in> (set doc_links)\<^sup>*"
      "(''cam'', ''enc_parse'') \<in> (set doc_links)\<^sup>*" "(''cam'', ''enc_sink'') \<in> (set doc_links)\<^sup>*"
    using t links [of "''t''" "''enc_q''"] links [of "''enc_q''" "''enc_cvt''"] links [of "''enc_cvt''" "''enc''"]
      links [of "''enc''" "''enc_parse''"] links [of "''enc_parse''" "''enc_sink''"] by (auto simp: doc_links_def)
  have r: "(''cam'', ''raw_q'') \<in> (set doc_links)\<^sup>*" "(''cam'', ''raw_cvt'') \<in> (set doc_links)\<^sup>*"
      "(''cam'', ''raw_caps'') \<in> (set doc_links)\<^sup>*" "(''cam'', ''raw_sink'') \<in> (set doc_links)\<^sup>*"
    using t links [of "''t''" "''raw_q''"] links [of "''raw_q''" "''raw_cvt''"] links [of "''raw_cvt''" "''raw_caps''"]
      links [of "''raw_caps''" "''raw_sink''"] by (auto simp: doc_links_def)
  fix n assume "n \<in> set doc_members"
  then show "n \<in> {n. (''cam'', n) \<in> (set doc_links)\<^sup>*}" using t e r unfolding doc_members_def by auto
qed

lemma no_successor: "set (filter (\<lambda>n. n \<notin> set (map fst ls)) ms) = {n \<in> set ms. \<not> (\<exists>b. (n, b) \<in> set ls)}"
  by force

lemma doc_sinks: "{n \<in> set doc_members. \<not> (\<exists>b. (n, b) \<in> set doc_links)} = {''enc_sink'', ''raw_sink''}"
proof -
  have "filter (\<lambda>n. n \<notin> set (map fst doc_links)) doc_members = [''enc_sink'', ''raw_sink'']" by code_simp
  then have "set (filter (\<lambda>n. n \<notin> set (map fst doc_links)) doc_members) = {''enc_sink'', ''raw_sink''}" by simp
  then show ?thesis unfolding no_successor .
qed

lemma doc_branches: "(''t'', n) \<in> set doc_links \<Longrightarrow> n = ''enc_q'' \<or> n = ''raw_q''"
  by (auto simp: doc_links_def)

lemma doc_distinct: "distinct doc_members"
  by code_simp



text \<open>C17: The encoder callback delivers every mapped sample in order with its bookkeeping. From a new
  pipeline with room in its queue, after any samples the queue holds the newest frames of exactly the
  buffers that could be mapped; a frame without a timestamp gets the number of frames before it times
  the frame duration; the latency tracker has exactly the measured latencies between 0 and 5000 ms;
  every sample, mapping and clock reference has been given back.\<close>

theorem encoded_samples_delivered:
  assumes "0 < pc_enc_queue_capacity cfg"
  shows "\<exists>p. for_each on_new_encoded_sample ss (pl_new cfg) = Some p
     \<and> fq_q (pl_enc_q p) = newest (pc_enc_queue_capacity cfg) (enc_frames (pc_fps cfg) (mapped ss))
     \<and> lt_total (pl_appsink_latency p) = of_nat (length (latency_samples (mapped ss)))
     \<and> (\<forall>ms \<in> set (latency_samples (mapped ss)). 0 < ms \<and> ms < 5000)
     \<and> pl_sample_refs p = 0 \<and> pl_maps p = 0 \<and> pl_clock_refs p = 0"
proof -
  have "0 < ms \<and> ms < 5000" if "ms \<in> set (latency_samples bs)" for ms bs
    using that by (auto simp: latency_samples_def List.map_filter_def latency_sample_def Let_def split: option.splits if_splits)
  then show ?thesis using enc_state_run [OF assms, of ss] by (auto simp: enc_state_def lt.ring_def)
qed

theorem encoded_samples_delivered_witness:
  "\<exists>p. for_each on_new_encoded_sample [None, Some None] (pl_new pipeline_default) = Some p \<and> fq_q (pl_enc_q p) = []"
proof -
  have e: "newest 60 (enc_frames 30 (mapped [None, Some None])) = []" by (simp add: mapped_def enc_frames_def newest_def)
  have "0 < pc_enc_queue_capacity pipeline_default" by (simp add: pipeline_default_def)
  from encoded_samples_delivered [OF this, of "[None, Some None]"] e show ?thesis
    by (auto simp: pipeline_default_def simp del: for_each.simps)
qed

lemma fq_close_end:
  "\<exists>t. fq_run (replicate (Suc (fq_size q)) QPop) (fq_close q) = Some (fq_q q, t) \<and> fq_pop t = Some (None, t)"
  using fq.drain_closed [of "fq_close q"] by (auto simp: fq_run_def fq_size_def fq_close_def)

text \<open>Stopping a built pipeline lets its consumers end. After \<open>stop()\<close> both queues are closed and
  a consumer that pops one time more than there are frames left receives exactly those, in order, and
  then the end of the stream; no pop blocks. Stopping a pipeline that was never built changes nothing.\<close>

lemma stop_drains_consumers:
  "(\<not> pl_bin p \<longrightarrow> pl_stop p = p) \<and> (pl_bin p \<longrightarrow>
     (\<exists>t. fq_run (replicate (Suc (fq_size (pl_enc_q p))) QPop) (pl_enc_q (pl_stop p)) = Some (fq_q (pl_enc_q p), t) \<and> fq_pop t = Some (None, t))
   \<and> (\<exists>t. fq_run (replicate (Suc (fq_size (pl_raw_q p))) QPop) (pl_raw_q (pl_stop p)) = Some (fq_q (pl_raw_q p), t) \<and> fq_pop t = Some (None, t)))"
  using fq_close_end [of "pl_enc_q p"] fq_close_end [of "pl_raw_q p"] by (simp add: pl_stop_def)

end
