(* ===== verification/Rtsp_Server.thy ===== *)
theory Rtsp_Server
  imports Pipeline Transitions
begin

text \<open>
  The RTSP server of \<open>src/gstreamer-multithread-pipeline\<close> (\<open>rtsp_server.hpp\<close>,
  \<open>rtsp_server.cpp\<close>): attaching and shutting down, the callbacks of gst-rtsp-server, and the
  feeder thread that drains the encoded queue into the appsrc.

  \<open>rtsp_step\<close> interleaves the feeder with everything else that touches its state: the encoder
  callback pushing frames, the callbacks of the media (configure, need-data, enough-data) and the
  teardown. A step is one access to the queue, an atomic flag or the appsrc mutex, so every
  interleaving of the code is a path; \<open>feeder_pc\<close> is where the feeder stands between two of them.
  \<open>on_media_configure\<close> is two of them, the exchange of the appsrc under the mutex (\<open>configure\<close>) and the
  store to the feeding flag (the same store as \<open>need_data\<close>).
  The status of a push and the clock are chosen by the environment. \<open>rt_refs\<close> are the references
  the object and the feeder hold on appsrc elements; \<open>rt_popped\<close> and \<open>rt_out\<close> record the frames
  taken from the queue and the buffers pushed, each with its frame.
\<close>

subsection \<open>Data\<close>

record rtsp_config =
  rt_service :: string
  rt_mount :: string
  rt_fps :: int

definition rtsp_default :: rtsp_config where
  "rtsp_default = \<lparr>rt_service = ''8554'', rt_mount = ''/live'', rt_fps = 30\<rparr>"

record gst_buffer =
  gb_data :: "byte list"
  gb_pts :: u64
  gb_dts :: u64
  gb_duration :: u64
  gb_delta :: bool

datatype feeder_pc = FLoop | FGate encoded_frame | FSource encoded_frame | FPush encoded_frame nat | FDone

record rtsp_state =
  rt_q :: "encoded_frame frame_queue"
  rt_running :: bool
  rt_feeding :: bool
  rt_appsrc :: "nat option"
  rt_refs :: "nat multiset"
  rt_pc :: feeder_pc
  rt_base :: u64
  rt_popped :: "encoded_frame list"
  rt_out :: "(encoded_frame \<times> gst_buffer) list"
  rt_served :: u64

definition CLOCK_TIME_NONE :: u64 where
  "CLOCK_TIME_NONE = -1"

definition rtsp_url :: "rtsp_config \<Rightarrow> string \<Rightarrow> string" where
  "rtsp_url cfg host = ''rtsp://'' @ host @ '':'' @ rt_service cfg @ rt_mount cfg"

subsection \<open>Attach and shutdown\<close>

text \<open>The members that \<open>attach\<close> and \<open>shutdown\<close> own: the server object (with the references the
  process holds on it), the id of the source in the main context, the running flag and the
  feeder thread.\<close>

record rtsp_owner =
  ro_server :: bool
  ro_server_refs :: int
  ro_source_id :: nat
  ro_running :: bool
  ro_feeder :: bool

definition ro_new :: rtsp_owner where
  "ro_new = \<lparr>ro_server = False, ro_server_refs = 0, ro_source_id = 0, ro_running = False, ro_feeder = False\<rparr>"

text \<open>\<open>source_id\<close> is what \<open>gst_rtsp_server_attach\<close> returns.\<close>

definition rtsp_attach :: "nat \<Rightarrow> rtsp_owner \<Rightarrow> rtsp_owner" where
  "rtsp_attach source_id s =
     (let s1 = s\<lparr>ro_server := True, ro_server_refs := ro_server_refs s + 1, ro_source_id := source_id\<rparr> in
      if source_id = 0 then s1 else s1\<lparr>ro_running := True, ro_feeder := True\<rparr>)"

definition rtsp_shutdown :: "rtsp_owner \<Rightarrow> rtsp_owner" where
  "rtsp_shutdown s =
     (if \<not> ro_running s then s
      else let s1 = s\<lparr>ro_running := False, ro_feeder := False, ro_source_id := 0\<rparr>
           in if ro_server s1 then s1\<lparr>ro_server := False, ro_server_refs := ro_server_refs s1 - 1\<rparr> else s1)"

subsection \<open>Feeder\<close>

text \<open>The buffer made of a frame; \<open>elapsed\<close> is the time since the feeder started.\<close>

definition feed_base :: "u64 \<Rightarrow> encoded_frame \<Rightarrow> u64" where
  "feed_base base f = (if base = CLOCK_TIME_NONE then ef_pts_ns f else base)"

definition feed_buffer :: "int \<Rightarrow> u64 \<Rightarrow> u64 \<Rightarrow> encoded_frame \<Rightarrow> gst_buffer" where
  "feed_buffer fps base elapsed f =
     (let pts = (if base \<le> ef_pts_ns f then ef_pts_ns f - base else elapsed)
      in \<lparr>gb_data = ef_data f, gb_pts = pts, gb_dts = pts, gb_duration = frame_duration fps, gb_delta = \<not> ef_keyframe f\<rparr>)"

inductive feeder_step :: "rtsp_config \<Rightarrow> rtsp_state \<Rightarrow> rtsp_state \<Rightarrow> bool" for cfg where
  loop_stop: "rt_pc s = FLoop \<Longrightarrow> \<not> rt_running s \<Longrightarrow> feeder_step cfg s (s\<lparr>rt_pc := FDone\<rparr>)"
| loop_pop: "rt_pc s = FLoop \<Longrightarrow> rt_running s \<Longrightarrow> fq_pop (rt_q s) = Some (Some f, q) \<Longrightarrow>
    feeder_step cfg s (s\<lparr>rt_pc := FGate f, rt_q := q, rt_popped := rt_popped s @ [f]\<rparr>)"
| loop_end: "rt_pc s = FLoop \<Longrightarrow> rt_running s \<Longrightarrow> fq_pop (rt_q s) = Some (None, q) \<Longrightarrow> feeder_step cfg s (s\<lparr>rt_pc := FDone, rt_q := q\<rparr>)"
| gate_skip: "rt_pc s = FGate f \<Longrightarrow> \<not> rt_feeding s \<Longrightarrow> \<not> ef_keyframe f \<Longrightarrow> feeder_step cfg s (s\<lparr>rt_pc := FLoop\<rparr>)"
| gate_pass: "rt_pc s = FGate f \<Longrightarrow> rt_feeding s \<or> ef_keyframe f \<Longrightarrow> feeder_step cfg s (s\<lparr>rt_pc := FSource f\<rparr>)"
| source_none: "rt_pc s = FSource f \<Longrightarrow> rt_appsrc s = None \<Longrightarrow> feeder_step cfg s (s\<lparr>rt_pc := FLoop\<rparr>)"
| source_some: "rt_pc s = FSource f \<Longrightarrow> rt_appsrc s = Some e \<Longrightarrow>
    feeder_step cfg s (s\<lparr>rt_pc := FPush f e, rt_refs := add_mset e (rt_refs s)\<rparr>)"
| push: "rt_pc s = FPush f e \<Longrightarrow>
    feeder_step cfg s (s\<lparr>rt_pc := FLoop, rt_refs := rt_refs s - {#e#}, rt_base := feed_base (rt_base s) f,
      rt_out := rt_out s @ [(f, feed_buffer (rt_fps cfg) (feed_base (rt_base s) f) elapsed f)],
      rt_served := (if flow_ok then rt_served s + 1 else rt_served s)\<rparr>)"

inductive env_step :: "rtsp_state \<Rightarrow> rtsp_state \<Rightarrow> bool" where
  enc_push: "fq_push f (rt_q s) = Some (b, q) \<Longrightarrow> env_step s (s\<lparr>rt_q := q\<rparr>)"
| configure: "env_step s (s\<lparr>rt_appsrc := Some e,
    rt_refs := add_mset e (case rt_appsrc s of None \<Rightarrow> rt_refs s | Some old \<Rightarrow> rt_refs s - {#old#})\<rparr>)"
| need_data: "env_step s (s\<lparr>rt_feeding := True\<rparr>)"
| enough_data: "env_step s (s\<lparr>rt_feeding := False\<rparr>)"
| shutdown_flag: "env_step s (s\<lparr>rt_running := False\<rparr>)"
| close_queue: "env_step s (s\<lparr>rt_q := fq_close (rt_q s)\<rparr>)"
| release: "rt_pc s = FDone \<Longrightarrow> env_step s (s\<lparr>rt_appsrc := None,
    rt_refs := (case rt_appsrc s of None \<Rightarrow> rt_refs s | Some old \<Rightarrow> rt_refs s - {#old#})\<rparr>)"

definition rtsp_step :: "rtsp_config \<Rightarrow> rtsp_state \<Rightarrow> rtsp_state \<Rightarrow> bool" where
  "rtsp_step cfg s t \<longleftrightarrow> feeder_step cfg s t \<or> env_step s t"

definition rtsp_init :: "nat \<Rightarrow> rtsp_state" where
  "rtsp_init cap = \<lparr>rt_q = fq_new cap, rt_running = True, rt_feeding = False, rt_appsrc = None, rt_refs = {#}, rt_pc = FLoop,
     rt_base = CLOCK_TIME_NONE, rt_popped = [], rt_out = [], rt_served = 0\<rparr>"

inductive_cases feeder_stepE [elim]: "feeder_step cfg s t"
inductive_cases env_stepE [elim]: "env_step s t"

subsection \<open>Invariant\<close>

fun in_flight :: "feeder_pc \<Rightarrow> encoded_frame list" where
  "in_flight (FGate f) = [f]"
| "in_flight (FSource f) = [f]"
| "in_flight (FPush f e) = [f]"
| "in_flight _ = []"

fun pc_refs :: "feeder_pc \<Rightarrow> nat multiset" where
  "pc_refs (FPush f e) = {#e#}"
| "pc_refs _ = {#}"

definition src_refs :: "nat option \<Rightarrow> nat multiset" where
  "src_refs a = (case a of None \<Rightarrow> {#} | Some e \<Rightarrow> {#e#})"

text \<open>The base timestamp is that of the first frame pushed, unless that frame had the invalid one.\<close>

definition base_ok :: "u64 \<Rightarrow> encoded_frame list \<Rightarrow> bool" where
  "base_ok base fs \<longleftrightarrow> (CLOCK_TIME_NONE \<notin> ef_pts_ns ` set fs \<longrightarrow> base = (if fs = [] then CLOCK_TIME_NONE else ef_pts_ns (hd fs)))"

definition buffer_ok :: "int \<Rightarrow> encoded_frame list \<Rightarrow> encoded_frame \<times> gst_buffer \<Rightarrow> bool" where
  "buffer_ok fps fs x \<longleftrightarrow> gb_data (snd x) = ef_data (fst x) \<and> gb_dts (snd x) = gb_pts (snd x) \<and> gb_duration (snd x) = frame_duration fps
     \<and> (gb_delta (snd x) \<longleftrightarrow> \<not> ef_keyframe (fst x))
     \<and> (CLOCK_TIME_NONE \<notin> ef_pts_ns ` set fs \<longrightarrow> ef_pts_ns (hd fs) \<le> ef_pts_ns (fst x) \<longrightarrow>
          gb_pts (snd x) = ef_pts_ns (fst x) - ef_pts_ns (hd fs))"

definition rtsp_inv :: "rtsp_config \<Rightarrow> rtsp_state \<Rightarrow> bool" where
  "rtsp_inv cfg s \<longleftrightarrow> rt_refs s = src_refs (rt_appsrc s) + pc_refs (rt_pc s)
     \<and> subseq (map fst (rt_out s) @ in_flight (rt_pc s)) (rt_popped s)
     \<and> base_ok (rt_base s) (map fst (rt_out s)) \<and> (\<forall>x \<in> set (rt_out s). buffer_ok (rt_fps cfg) (map fst (rt_out s)) x)"

lemma subseq_drop_last: "subseq (xs @ [a]) ys \<Longrightarrow> subseq xs ys"
  by (metis subseq_order.order_trans subseq_rev_drop_many subseq_order.order_refl)

lemma buffer_ok_extend:
  "fs \<noteq> [] \<Longrightarrow> buffer_ok fps fs x \<Longrightarrow> buffer_ok fps (fs @ [f]) x"
  by (auto simp: buffer_ok_def)

lemma buffer_ok_new:
  assumes "base_ok base fs"
  shows "buffer_ok fps (fs @ [f]) (f, feed_buffer fps (feed_base base f) el f)"
  using assms by (cases fs) (auto simp: buffer_ok_def base_ok_def feed_buffer_def feed_base_def Let_def)

lemma base_ok_new: "base_ok base fs \<Longrightarrow> base_ok (feed_base base f) (fs @ [f])"
  by (cases fs) (auto simp: base_ok_def feed_base_def)

lemma feeder_step_inv: "feeder_step cfg s t \<Longrightarrow> rtsp_inv cfg s \<Longrightarrow> rtsp_inv cfg t"
proof (induction rule: feeder_step.induct)
  case (push s f e elapsed flow_ok)
  have "buffer_ok (rt_fps cfg) (map fst (rt_out s) @ [f]) x" if "x \<in> set (rt_out s)" for x
    using push that by (intro buffer_ok_extend) (auto simp: rtsp_inv_def)
  then show ?case
    using push buffer_ok_new base_ok_new by (auto simp: rtsp_inv_def)
qed (auto simp: rtsp_inv_def dest: subseq_drop_last intro: subseq_snoc)

lemma env_step_inv: "env_step s t \<Longrightarrow> rtsp_inv cfg s \<Longrightarrow> rtsp_inv cfg t"
  by (induction rule: env_step.induct) (auto simp: rtsp_inv_def src_refs_def split: option.splits)

lemma rtsp_init_inv: "rtsp_inv cfg (rtsp_init cap)"
  by (simp add: rtsp_inv_def rtsp_init_def src_refs_def base_ok_def)

interpretation stream: invariant_system "rtsp_step cfg" "rtsp_init cap" "rtsp_inv cfg"
  by unfold_locales (auto simp: rtsp_init_inv rtsp_step_def intro: feeder_step_inv env_step_inv)

lemma rtsp_reachable_inv: "(rtsp_step cfg)\<^sup>*\<^sup>* (rtsp_init cap) s \<Longrightarrow> rtsp_inv cfg s"
  by (rule stream.inv_reachable)

subsection \<open>The end of the feeder\<close>

text \<open>Steps the feeder has left once the queue is closed.\<close>

definition feeder_left :: "rtsp_state \<Rightarrow> nat" where
  "feeder_left s = (case rt_pc s of FDone \<Rightarrow> 0 | FLoop \<Rightarrow> 4 * fq_size (rt_q s) + 1 | FGate f \<Rightarrow> 4 * fq_size (rt_q s) + 4
     | FSource f \<Rightarrow> 4 * fq_size (rt_q s) + 3 | FPush f e \<Rightarrow> 4 * fq_size (rt_q s) + 2)"

lemma feeder_left_decreases:
  "feeder_step cfg s t \<Longrightarrow> fq_closed (rt_q s) \<Longrightarrow> feeder_left t < feeder_left s \<and> fq_closed (rt_q t)"
  by (induction rule: feeder_step.induct) (auto simp: feeder_left_def fq_defs split: if_splits list.splits)

lemma env_left: "env_step s t \<Longrightarrow> fq_closed (rt_q s) \<Longrightarrow> feeder_left t = feeder_left s \<and> fq_closed (rt_q t)"
  by (induction rule: env_step.induct) (auto simp: feeder_left_def fq_defs split: feeder_pc.splits)

lemma feeder_not_stuck: "fq_closed (rt_q s) \<Longrightarrow> rt_pc s \<noteq> FDone \<Longrightarrow> \<exists>t. feeder_step cfg s t"
proof (cases "rt_pc s")
  case FLoop
  assume "fq_closed (rt_q s)"
  then obtain r q where "fq_pop (rt_q s) = Some (r, q)" by (cases "fq_q (rt_q s)") (auto simp: fq_defs)
  then show ?thesis using FLoop feeder_step.loop_stop feeder_step.loop_pop feeder_step.loop_end by (cases r; cases "rt_running s") blast+
next
  case (FGate f)
  then show ?thesis using feeder_step.gate_skip feeder_step.gate_pass by blast
next
  case (FSource f)
  then show ?thesis using feeder_step.source_none feeder_step.source_some by (cases "rt_appsrc s") blast+
next
  case (FPush f e)
  then show ?thesis using feeder_step.push by blast
qed simp

lemma feeder_left_0: "feeder_left s = 0 \<longleftrightarrow> rt_pc s = FDone"
  by (cases "rt_pc s") (simp_all add: feeder_left_def)

interpretation feeder: bounded_thread "feeder_step cfg" env_step "\<lambda>s. fq_closed (rt_q s)" feeder_left
proof
  fix s t :: rtsp_state assume "fq_closed (rt_q s)"
  then show "feeder_step cfg s t \<Longrightarrow> feeder_left t < feeder_left s \<and> fq_closed (rt_q t)"
    and "env_step s t \<Longrightarrow> feeder_left t \<le> feeder_left s \<and> fq_closed (rt_q t)"
    and "0 < feeder_left s \<Longrightarrow> \<exists>t. feeder_step cfg s t"
    using feeder_left_decreases [of cfg s t] env_left [of s t] feeder_not_stuck [of s cfg] feeder_left_0 [of s] by simp_all
qed

text \<open>When the server could not be attached, \<open>shutdown()\<close> returns at once and the server object is
  never released.\<close>

lemma attach_failure_keeps_server:
  "ro_server_refs (rtsp_shutdown (rtsp_attach source_id ro_new)) = (if source_id = 0 then 1 else 0)"
  by (simp add: rtsp_shutdown_def rtsp_attach_def ro_new_def Let_def)

subsection \<open>Properties\<close>

lemma pts_relative:
  assumes "rtsp_inv cfg s" "CLOCK_TIME_NONE \<notin> ef_pts_ns ` set (rt_popped s)" "sorted (map ef_pts_ns (rt_popped s))"
  shows "map (gb_pts \<circ> snd) (rt_out s) = map (\<lambda>x. ef_pts_ns (fst x) - ef_pts_ns (fst (hd (rt_out s)))) (rt_out s)"
    and "sorted (map (gb_pts \<circ> snd) (rt_out s))"
proof -
  let ?fs = "map fst (rt_out s)"
  have sub: "subseq ?fs (rt_popped s)"
    using assms(1) by (auto simp: rtsp_inv_def intro: subseq_order.order_trans [OF subseq_rev_drop_many [OF subseq_order.order_refl]])
  then have none: "CLOCK_TIME_NONE \<notin> ef_pts_ns ` set ?fs" using assms(2) subseq_set_subset by blast
  have sorted: "sorted (map ef_pts_ns ?fs)"
    using sorted_wrt_subseq [OF subseq_map [OF sub, of ef_pts_ns]] assms(3) by simp
  have rel: "gb_pts (snd x) = ef_pts_ns (fst x) - ef_pts_ns (fst (hd (rt_out s))) \<and> ef_pts_ns (fst (hd (rt_out s))) \<le> ef_pts_ns (fst x)"
    if x: "x \<in> set (rt_out s)" for x
  proof -
    have "ef_pts_ns (fst (hd (rt_out s))) \<le> ef_pts_ns (fst x)"
      using sorted_hd_le [OF sorted, of "ef_pts_ns (fst x)"] x by (cases "rt_out s") auto
    moreover have "hd ?fs = fst (hd (rt_out s))" using x by (cases "rt_out s") auto
    ultimately show ?thesis using assms(1) none x by (auto simp: rtsp_inv_def buffer_ok_def)
  qed
  then show eq: "map (gb_pts \<circ> snd) (rt_out s) = map (\<lambda>x. ef_pts_ns (fst x) - ef_pts_ns (fst (hd (rt_out s)))) (rt_out s)"
    by simp
  have "ef_pts_ns (fst x) - ef_pts_ns (fst (hd (rt_out s))) \<le> ef_pts_ns (fst y) - ef_pts_ns (fst (hd (rt_out s)))"
    if "x \<in> set (rt_out s)" "y \<in> set (rt_out s)" "ef_pts_ns (fst x) \<le> ef_pts_ns (fst y)" for x y
    using that rel [OF that(1)] rel [OF that(2)] by (simp add: word_le_nat_alt unat_sub diff_le_mono)
  then show "sorted (map (gb_pts \<circ> snd) (rt_out s))"
    unfolding eq using sorted by (auto simp: sorted_wrt_map intro: sorted_wrt_mono_rel [rotated])
qed



text \<open>C14: Closing the queue ends the feeder. Once the queue is closed, in every execution in which the feeder and the other
  threads (callbacks, producer, teardown) interleave in any way, the feeder takes at most four steps per frame still queued and
  four more, is never stuck before it is done, and can always get done: joining it returns.\<close>

theorem rtsp_feeder_ends:
  assumes "fq_closed (rt_q s)"
  shows "(interleaving (feeder_step cfg) env_step n s t \<longrightarrow>
       n \<le> 4 * fq_size (rt_q s) + 4 \<and> (rt_pc t \<noteq> FDone \<longrightarrow> (\<exists>u. feeder_step cfg t u)))
     \<and> (\<exists>n t. interleaving (feeder_step cfg) env_step n s t \<and> rt_pc t = FDone)"
proof -
  have "feeder_left s \<le> 4 * fq_size (rt_q s) + 4" by (cases "rt_pc s") (simp_all add: feeder_left_def)
  then have "n \<le> 4 * fq_size (rt_q s) + 4" "fq_closed (rt_q t)" if "interleaving (feeder_step cfg) env_step n s t"
    using feeder.work_bounded [OF that assms] by auto
  moreover have "\<exists>n t. interleaving (feeder_step cfg) env_step n s t \<and> rt_pc t = FDone"
    using feeder.can_finish [OF assms] by (auto simp: feeder_left_0)
  ultimately show ?thesis using feeder_not_stuck by blast
qed

theorem rtsp_feeder_ends_witness:
  "\<exists>n t. interleaving (feeder_step rtsp_default) env_step n ((rtsp_init 2)\<lparr>rt_q := fq_close (fq_new 2)\<rparr>) t \<and> rt_pc t = FDone"
  using rtsp_feeder_ends [of "(rtsp_init 2)\<lparr>rt_q := fq_close (fq_new 2)\<rparr>" rtsp_default] by (simp add: rtsp_init_def fq_close_def)

end
