(* ===== verification/Gst_Main.thy ===== *)
theory Gst_Main
  imports Rtsp_Server Command_Line
begin

text \<open>
  The streaming program \<open>src/gstreamer-multithread-pipeline/src/main.cpp\<close>: its options, the raw
  consumer, the main loop with the callbacks and consumers that run meanwhile, and the exit paths with the destructors of the server and the
  pipeline in their order.

  The main loop is a list of events, one per callback or successful pop, in the order they happen; it ends
  with the list (a signal) or at a bus message that makes the error handler quit the loop. Telemetry and other
  console output is left out, except for the counters of the raw consumer.
\<close>

subsection \<open>Options\<close>

definition gst_opt :: "string list \<Rightarrow> string \<Rightarrow> string \<Rightarrow> string" where
  "gst_opt argv k dflt = (case first_value (tl argv) k of Some v \<Rightarrow> v | None \<Rightarrow> dflt)"

definition parse_encoder :: "string \<Rightarrow> encoder" where
  "parse_encoder s = (if s = ''v4l2'' then V4L2H264 else if s = ''x264'' then X264 else Auto)"

definition gst_pcfg :: "string list \<Rightarrow> pipeline_config" where
  "gst_pcfg argv = pipeline_default\<lparr>pc_device := gst_opt argv ''--device'' ''/dev/video0'',
     pc_width := atoi (gst_opt argv ''--width'' ''1280''), pc_height := atoi (gst_opt argv ''--height'' ''720''),
     pc_fps := atoi (gst_opt argv ''--fps'' ''30''), pc_bitrate_kbps := atoi (gst_opt argv ''--bitrate'' ''4000''),
     pc_encoder := parse_encoder (gst_opt argv ''--encoder'' ''auto'')\<rparr>"

definition gst_rcfg :: "string list \<Rightarrow> rtsp_config" where
  "gst_rcfg argv = rtsp_default\<lparr>rt_service := gst_opt argv ''--rtsp-port'' ''8554'', rt_mount := gst_opt argv ''--mount'' ''/live'',
     rt_fps := pc_fps (gst_pcfg argv)\<rparr>"

subsection \<open>Raw consumer\<close>

text \<open>The sum of every 4096th byte, from index \<open>i\<close> on.\<close>

function raw_acc :: "byte list \<Rightarrow> nat \<Rightarrow> u32 \<Rightarrow> u32" where
  "raw_acc d i acc = (if i < length d then raw_acc d (i + 4096) (acc + ucast (d ! i)) else acc)"
  by pat_completeness auto
termination
  by (relation "measure (\<lambda>(d, i, acc). length d - i)") auto

declare raw_acc.simps [simp del]

record raw_report =
  rr_frames :: u64
  rr_mib :: u64
  rr_width :: int
  rr_height :: int
  rr_format :: string
  rr_acc :: u32

record raw_stats =
  rw_frames :: u64
  rw_bytes :: u64
  rw_reports :: "raw_report list"

definition raw_new :: raw_stats where
  "raw_new = \<lparr>rw_frames = 0, rw_bytes = 0, rw_reports = []\<rparr>"

definition raw_consume :: "raw_frame \<Rightarrow> raw_stats \<Rightarrow> raw_stats" where
  "raw_consume f st =
     (let acc = raw_acc (rf_data f) 0 0;
          bytes = rw_bytes st + of_nat (length (rf_data f));
          frames = rw_frames st + 1
      in st\<lparr>rw_bytes := bytes, rw_frames := frames,
            rw_reports := (if frames mod 120 = 0
              then rw_reports st @ [\<lparr>rr_frames = frames, rr_mib = drop_bit 20 bytes, rr_width = rf_width f, rr_height = rf_height f,
                     rr_format = rf_format f, rr_acc = acc\<rparr>]
              else rw_reports st)\<rparr>)"

subsection \<open>Main loop\<close>

datatype gm_event =
    EncSample "sample_buffer option option"
  | RawSample "(sample_buffer option \<times> raw_caps option) option"
  | EncPop
  | RawPop
  | BusMessage bus_message

text \<open>One event, unless it ends the loop. A pop that would block is no event; it leaves the state alone.\<close>

definition gm_step :: "gm_event \<Rightarrow> pipeline \<times> raw_stats \<Rightarrow> (pipeline \<times> raw_stats) option" where
  "gm_step ev x = (case x of (p, st) \<Rightarrow>
     (case ev of
        EncSample s \<Rightarrow> (case on_new_encoded_sample s p of None \<Rightarrow> None | Some p' \<Rightarrow> Some (p', st))
      | RawSample s \<Rightarrow> (case on_new_raw_sample s p of None \<Rightarrow> None | Some p' \<Rightarrow> Some (p', st))
      | EncPop \<Rightarrow> (case fq_pop (pl_enc_q p) of None \<Rightarrow> Some x | Some (_, q) \<Rightarrow> Some (p\<lparr>pl_enc_q := q\<rparr>, st))
      | RawPop \<Rightarrow> (case fq_pop (pl_raw_q p) of
            None \<Rightarrow> Some x
          | Some (None, q) \<Rightarrow> Some (p\<lparr>pl_raw_q := q\<rparr>, st)
          | Some (Some f, q) \<Rightarrow> Some (p\<lparr>pl_raw_q := q\<rparr>, raw_consume f st))
      | BusMessage m \<Rightarrow> Some x))"

definition gm_quits :: "gm_event \<Rightarrow> bool" where
  "gm_quits ev = (case ev of BusMessage m \<Rightarrow> on_bus_message m True \<noteq> None | _ \<Rightarrow> False)"

fun gm_loop :: "gm_event list \<Rightarrow> pipeline \<times> raw_stats \<Rightarrow> (pipeline \<times> raw_stats) option" where
  "gm_loop [] x = Some x"
| "gm_loop (ev # evs) x = (if gm_quits ev then Some x else case gm_step ev x of None \<Rightarrow> None | Some y \<Rightarrow> gm_loop evs y)"

subsection \<open>Main\<close>

record gst_exit =
  gx_code :: int
  gx_pipe :: pipeline
  gx_rtsp :: rtsp_owner
  gx_raw :: raw_stats

text \<open>\<open>RtspServer::shutdown\<close> also closes the encoded queue, when the server runs.\<close>

definition shutdown_queue :: "rtsp_owner \<Rightarrow> pipeline \<Rightarrow> pipeline" where
  "shutdown_queue ro p = (if ro_running ro then p\<lparr>pl_enc_q := fq_close (pl_enc_q p)\<rparr> else p)"

definition gst_main :: "gst_env \<Rightarrow> nat \<Rightarrow> gm_event list \<Rightarrow> string list \<Rightarrow> gst_exit option" where
  "gst_main env attach_id evs argv =
     (case pl_build env (pl_new (gst_pcfg argv)) of
        Some (Throw e, p) \<Rightarrow>
          Some \<lparr>gx_code = 1, gx_pipe = pl_destroy p, gx_rtsp = ro_new, gx_raw = raw_new\<rparr>
      | Some (Ok _, p) \<Rightarrow>
          let ro = rtsp_attach attach_id ro_new in
          (case pl_start env p of
             Some (Throw e, p1) \<Rightarrow>
               Some \<lparr>gx_code = 1, gx_pipe = pl_destroy (shutdown_queue ro p1), gx_rtsp = rtsp_shutdown ro, gx_raw = raw_new\<rparr>
           | Some (Ok _, p1) \<Rightarrow>
               (case gm_loop evs (p1, raw_new) of None \<Rightarrow> None
                | Some (p2, st) \<Rightarrow>
                  let p3 = shutdown_queue ro (pl_stop p2); ro1 = rtsp_shutdown ro
                  in Some \<lparr>gx_code = 0, gx_pipe = pl_destroy (shutdown_queue ro1 p3), gx_rtsp = rtsp_shutdown ro1, gx_raw = st\<rparr>)
           | _ \<Rightarrow> None)
      | _ \<Rightarrow> None)"

subsection \<open>What the construction keeps\<close>

text \<open>The part of the object the streaming threads work on.\<close>

definition streaming :: "pipeline \<Rightarrow> encoded_frame frame_queue \<times> raw_frame frame_queue \<times> latency_tracker \<times> int \<times> int \<times> int" where
  "streaming p = (pl_enc_q p, pl_raw_q p, pl_appsink_latency p, pl_sample_refs p, pl_maps p, pl_clock_refs p)"

lemma link_many_keeps:
  assumes "\<And>p ls. g (p\<lparr>pl_links := ls\<rparr>) = g p"
  shows "keeps g (gst_link_many env err ns)"
proof (induction env err ns rule: gst_link_many.induct)
  case (1 env err a b es)
  then show ?case unfolding gst_link_many.simps by (intro keeps_rules assms)
qed (simp_all add: keeps_rules)

lemma build_keeps_streaming: "keeps streaming (pl_build env)"
  unfolding pl_build_def select_encoder_def build_source_def build_encoder_def build_raw_def gst_make_def gst_set_def link_tee_branch_def
    Let_def case_prod_beta
  by (intro keeps_rules link_many_keeps) (simp_all add: streaming_def)

lemma build_makes_bin: "hoare (\<lambda>_. True) (pl_build env) (\<lambda>_ p. pl_bin p) (\<lambda>_ _. True)"
proof -
  have keep: "hoare pl_bin m (\<lambda>_. pl_bin) (\<lambda>_ _. True)" if "keeps pl_bin m" for m :: "unit pact"
    using that unfolding keeps_def hoare_def by (fastforce split: outcome.splits)
  show ?thesis
    unfolding pl_build_def select_encoder_def
    by (rule hoare_seq_fwd [where R = "\<lambda>_. True"], fastforce simp: hoare_def Let_def eff_defs,
        rule hoare_seq_fwd [where R = "\<lambda>_. True"], simp add: hoare_def eff_defs,
        rule hoare_seq_fwd [where R = pl_bin], simp add: hoare_def eff_defs, rule keep)
      (unfold build_source_def build_encoder_def build_raw_def gst_make_def gst_set_def link_tee_branch_def Let_def case_prod_beta,
       intro keeps_rules link_many_keeps, simp_all)
qed

subsection \<open>What the main loop keeps\<close>

text \<open>Both queues have room for one frame, the latency ring is in order and nothing is held.\<close>

definition pl_ok :: "pipeline \<Rightarrow> bool" where
  "pl_ok p \<longleftrightarrow> fq.fits (pl_enc_q p) \<and> fq.fits (pl_raw_q p) \<and> (\<exists>xs. lt.ring (pl_appsink_latency p) xs)
     \<and> pl_sample_refs p = 0 \<and> pl_maps p = 0 \<and> pl_clock_refs p = 0"

lemma pl_ok_streaming: "streaming p = streaming q \<Longrightarrow> pl_ok p = pl_ok q"
  by (simp add: pl_ok_def streaming_def)

lemma pl_ok_new: "0 < pc_enc_queue_capacity cfg \<Longrightarrow> 0 < pc_raw_queue_capacity cfg \<Longrightarrow> pl_ok (pl_new cfg)"
  by (simp add: pl_ok_def pl_new_def) (rule exI, rule lt_ring_new, simp)

lemma fits_pop: "fq.fits q \<Longrightarrow> fq_pop q = Some (r, q') \<Longrightarrow> fq.fits q'"
  by (auto simp: fq.fits_def fq_defs split: if_splits list.splits)

lemma enc_callback_ok:
  assumes "pl_ok p"
  shows "\<exists>p'. on_new_encoded_sample s p = Some p' \<and> pl_ok p' \<and> pl_bin p' = pl_bin p"
proof (cases "mapped [s] = []")
  case True
  then show ?thesis using assms on_new_encoded_sample_unmapped by blast
next
  case False
  then obtain b where b: "s = Some (Some b)" "sb_maps b" by (auto simp: mapped_def split: option.splits if_splits)
  obtain xs where xs: "lt.ring (pl_appsink_latency p) xs" using assms by (auto simp: pl_ok_def)
  obtain lat where lat: "(case latency_sample b of None \<Rightarrow> Some (pl_appsink_latency p) | Some ms \<Rightarrow> lt_add ms (pl_appsink_latency p)) = Some lat"
    "\<exists>xs. lt.ring lat xs"
    using xs lt.ring_add [OF xs] by (cases "latency_sample b") auto
  let ?f = "enc_frame (pl_pts_counter p) b"
  have "fq.fits (pl_enc_q p)" using assms by (simp add: pl_ok_def)
  then obtain r q where push: "fq_push ?f (pl_enc_q p) = Some (r, q)" "fq.fits q" by (rule fq.push_total)
  have "on_new_encoded_sample s p = Some (p\<lparr>pl_pts_counter := pl_pts_counter p + frame_duration (pc_fps (pl_cfg p)),
      pl_appsink_latency := lat, pl_enc_q := q\<rparr>)"
    using b lat(1) push(1)
    by (cases "latency_sample b"; cases "sb_pts b"; cases "sb_clock b") (simp_all add: on_new_encoded_sample_def enc_frame_def)
  then show ?thesis using assms lat(2) push(2) by (simp add: pl_ok_def)
qed

text \<open>The other operations of the pipeline object.\<close>

lemma pl_ok_stop [inv_intros]: "pl_ok p \<Longrightarrow> pl_ok (pl_stop p)"
  by (simp add: pl_ok_def pl_stop_def fq.fits_def fq_close_def)

lemma pl_ok_destroy [inv_intros]: "pl_ok p \<Longrightarrow> pl_ok (pl_destroy p)"
  using pl_ok_stop [of p] by (simp add: pl_ok_def pl_destroy_def)

lemma pl_ok_build:
  assumes "pl_ok p"
  obtains r p' where "pl_build env p = Some (r, p')" "r \<noteq> Undef" "pl_ok p'"
proof -
  obtain r p' where run: "pl_build env p = Some (r, p')"
    using build_returns [of env] unfolding returns_def by (metis option.exhaust prod.exhaust)
  show thesis using that [OF run] keepsD [OF build_keeps_streaming run] pl_ok_streaming [of p' p] assms by simp
qed

lemma raw_callback_ok:
  assumes "pl_ok p"
  shows "\<exists>p'. on_new_raw_sample s p = Some p' \<and> pl_ok p' \<and> pl_bin p' = pl_bin p"
proof -
  have "fq.fits (pl_raw_q p)" using assms by (simp add: pl_ok_def)
  then obtain q where "on_new_raw_sample s p = Some (p\<lparr>pl_raw_q := q\<rparr>)" "fq.fits q" using raw_callback_balanced by blast
  then show ?thesis using assms by (auto simp: pl_ok_def)
qed

lemma gm_step_ok:
  assumes "pl_ok p"
  shows "\<exists>p' st'. gm_step ev (p, st) = Some (p', st') \<and> pl_ok p' \<and> pl_bin p' = pl_bin p"
proof (cases ev)
  case (EncSample s)
  then show ?thesis using enc_callback_ok [OF assms, of s] by (auto simp: gm_step_def)
next
  case (RawSample s)
  then show ?thesis using raw_callback_ok [OF assms, of s] by (auto simp: gm_step_def)
next
  case EncPop
  then show ?thesis
    using assms fits_pop [of "pl_enc_q p"] by (cases "fq_pop (pl_enc_q p)") (auto simp: gm_step_def pl_ok_def split: prod.splits)
next
  case RawPop
  then show ?thesis
    using assms fits_pop [of "pl_raw_q p"]
    by (cases "fq_pop (pl_raw_q p)") (auto simp: gm_step_def pl_ok_def split: prod.splits option.splits)
next
  case (BusMessage m)
  then show ?thesis using assms by (simp add: gm_step_def)
qed

lemma gm_loop_ok: "pl_ok p \<Longrightarrow> \<exists>p' st'. gm_loop evs (p, st) = Some (p', st') \<and> pl_ok p' \<and> pl_bin p' = pl_bin p"
proof (induction evs arbitrary: p st)
  case (Cons ev evs)
  obtain p1 st1 where s: "gm_step ev (p, st) = Some (p1, st1)" "pl_ok p1" "pl_bin p1 = pl_bin p" using gm_step_ok [OF Cons.prems] by blast
  show ?case using s Cons.IH [OF s(2), of st1] Cons.prems by simp
qed simp

lemma raw_consume_totals:
  "rw_frames (fold raw_consume fs st) = rw_frames st + of_nat (length fs)"
  "rw_bytes (fold raw_consume fs st) = rw_bytes st + of_nat (sum_list (map (length \<circ> rf_data) fs))"
  by (induction fs arbitrary: st) (simp_all add: raw_consume_def Let_def)

subsection \<open>Properties\<close>

text \<open>C19: A pipeline object is well formed at all times. With queues of positive capacity a new object is well formed: both
  queues hold at most their capacity, the latency window is a ring of its samples, and no sample, mapping or clock reference is
  held; and every operation of the class (building, starting, both streaming callbacks, stopping, destruction) is defined
  on a well-formed object and leaves one, also when it throws.\<close>

theorem pipeline_wellformed:
  "(0 < pc_enc_queue_capacity cfg \<and> 0 < pc_raw_queue_capacity cfg \<longrightarrow> pl_ok (pl_new cfg))
   \<and> (pl_ok p \<longrightarrow> (\<exists>r p'. pl_build env p = Some (r, p') \<and> r \<noteq> Undef \<and> pl_ok p')
       \<and> (\<exists>r p'. pl_start env p = Some (r, p') \<and> r \<noteq> Undef \<and> pl_ok p')
       \<and> (\<exists>p'. on_new_encoded_sample s p = Some p' \<and> pl_ok p') \<and> (\<exists>p'. on_new_raw_sample s' p = Some p' \<and> pl_ok p')
       \<and> pl_ok (pl_stop p) \<and> pl_ok (pl_destroy p))"
proof (intro conjI impI)
  assume ok: "pl_ok p"
  show "\<exists>r p'. pl_build env p = Some (r, p') \<and> r \<noteq> Undef \<and> pl_ok p'" by (rule pl_ok_build [OF ok]) blast
  show "\<exists>r p'. pl_start env p = Some (r, p') \<and> r \<noteq> Undef \<and> pl_ok p'"
    using ok by (cases "ge_play env") (simp_all add: pl_start_def eff_defs pl_ok_def)
  show "\<exists>p'. on_new_encoded_sample s p = Some p' \<and> pl_ok p'" using enc_callback_ok [OF ok] by blast
  show "\<exists>p'. on_new_raw_sample s' p = Some p' \<and> pl_ok p'" using raw_callback_ok [OF ok] by blast
  show "pl_ok (pl_stop p)" "pl_ok (pl_destroy p)" by (auto intro: inv_intros ok)
qed (auto intro: pl_ok_new)

theorem pipeline_wellformed_witness:
  "pl_ok (pl_stop (pl_new pipeline_default)) \<and> (\<exists>p'. on_new_encoded_sample None (pl_new pipeline_default) = Some p' \<and> pl_ok p')"
proof -
  have "0 < pc_enc_queue_capacity pipeline_default" "0 < pc_raw_queue_capacity pipeline_default" by (simp_all add: pipeline_default_def)
  then show ?thesis using pipeline_wellformed [of pipeline_default "pl_new pipeline_default" _ None] by blast
qed




end
