(* ===== verification/Gst_Threads.thy ===== *)
theory Gst_Threads
  imports Gst_Main
begin

text \<open>
  The threads of the streaming program (\<open>main.cpp\<close> of \<open>src/gstreamer-multithread-pipeline\<close>) from a started pipeline to the end of
  \<open>main\<close>: the feeder of \<open>RtspServer\<close>, the raw consumer, the reporter and the main thread, which starts two of them, runs the main
  loop and tears everything down. The server is attached. A step is one access to a queue, a flag or the state of another thread;
  the callbacks of GStreamer and the events that end the main loop are the environment. The reporter only reads
  counters, so its steps leave the rest of the state alone, and the line it prints is left out.
\<close>

subsection \<open>State\<close>

datatype stream_pc = P_Spawn_Raw | P_Spawn_Report | P_Loop | P_Stop | P_Close_Enc | P_Close_Raw | P_Shutdown | P_Join_Feeder
  | P_Join_Raw | P_Join_Report | P_End

datatype raw_pc = R_None | R_Check | R_Pop | R_Work raw_frame | R_Done
datatype report_pc = T_None | T_Check | T_Sleep | T_Print | T_Done

record stream_state =
  sp_main :: stream_pc
  sp_run :: bool
  sp_rtsp :: rtsp_state
  sp_raw_q :: "raw_frame frame_queue"
  sp_raw :: raw_pc
  sp_popped :: "raw_frame list"
  sp_stats :: raw_stats
  sp_report :: report_pc

definition stream_init :: "pipeline_config \<Rightarrow> stream_state" where
  "stream_init cfg = \<lparr>sp_main = P_Spawn_Raw, sp_run = True, sp_rtsp = rtsp_init (pc_enc_queue_capacity cfg), sp_raw_q = fq_new (pc_raw_queue_capacity cfg),
     sp_raw = R_None, sp_popped = [], sp_stats = raw_new, sp_report = T_None\<rparr>"

subsection \<open>The threads\<close>

inductive raw_step :: "stream_state \<Rightarrow> stream_state \<Rightarrow> bool" where
  raw_leave: "sp_raw s = R_Check \<Longrightarrow> \<not> sp_run s \<Longrightarrow> raw_step s (s\<lparr>sp_raw := R_Done\<rparr>)"
| raw_enter: "sp_raw s = R_Check \<Longrightarrow> sp_run s \<Longrightarrow> raw_step s (s\<lparr>sp_raw := R_Pop\<rparr>)"
| raw_frame: "sp_raw s = R_Pop \<Longrightarrow> fq_pop (sp_raw_q s) = Some (Some f, q) \<Longrightarrow>
    raw_step s (s\<lparr>sp_raw := R_Work f, sp_raw_q := q, sp_popped := sp_popped s @ [f]\<rparr>)"
| raw_end: "sp_raw s = R_Pop \<Longrightarrow> fq_pop (sp_raw_q s) = Some (None, q) \<Longrightarrow> raw_step s (s\<lparr>sp_raw := R_Done, sp_raw_q := q\<rparr>)"
| raw_work: "sp_raw s = R_Work f \<Longrightarrow> raw_step s (s\<lparr>sp_raw := R_Check, sp_stats := raw_consume f (sp_stats s)\<rparr>)"

inductive report_step :: "stream_state \<Rightarrow> stream_state \<Rightarrow> bool" where
  report_leave: "sp_report s = T_Check \<Longrightarrow> \<not> sp_run s \<Longrightarrow> report_step s (s\<lparr>sp_report := T_Done\<rparr>)"
| report_enter: "sp_report s = T_Check \<Longrightarrow> sp_run s \<Longrightarrow> report_step s (s\<lparr>sp_report := T_Sleep\<rparr>)"
| report_wake: "sp_report s = T_Sleep \<Longrightarrow> report_step s (s\<lparr>sp_report := T_Print\<rparr>)"
| report_print: "sp_report s = T_Print \<Longrightarrow> report_step s (s\<lparr>sp_report := T_Check\<rparr>)"

text \<open>The main thread outside its loop: \<open>pipeline.stop()\<close> closes both queues, \<open>rtsp.shutdown()\<close> joins the feeder and releases the
  appsrc, and the other two threads are joined.\<close>

inductive stream_main_step :: "stream_state \<Rightarrow> stream_state \<Rightarrow> bool" where
  spawn_raw: "sp_main s = P_Spawn_Raw \<Longrightarrow> stream_main_step s (s\<lparr>sp_main := P_Spawn_Report, sp_raw := R_Check\<rparr>)"
| spawn_report: "sp_main s = P_Spawn_Report \<Longrightarrow> stream_main_step s (s\<lparr>sp_main := P_Loop, sp_report := T_Check\<rparr>)"
| stop_flag: "sp_main s = P_Stop \<Longrightarrow> stream_main_step s (s\<lparr>sp_main := P_Close_Enc, sp_run := False\<rparr>)"
| close_enc: "sp_main s = P_Close_Enc \<Longrightarrow>
    stream_main_step s (s\<lparr>sp_main := P_Close_Raw, sp_rtsp := (sp_rtsp s)\<lparr>rt_q := fq_close (rt_q (sp_rtsp s))\<rparr>\<rparr>)"
| close_raw: "sp_main s = P_Close_Raw \<Longrightarrow> stream_main_step s (s\<lparr>sp_main := P_Shutdown, sp_raw_q := fq_close (sp_raw_q s)\<rparr>)"
| shutdown_flag: "sp_main s = P_Shutdown \<Longrightarrow> stream_main_step s (s\<lparr>sp_main := P_Join_Feeder, sp_rtsp := (sp_rtsp s)\<lparr>rt_running := False\<rparr>\<rparr>)"
| join_feeder: "sp_main s = P_Join_Feeder \<Longrightarrow> rt_pc (sp_rtsp s) = FDone \<Longrightarrow> stream_main_step s (s\<lparr>sp_main := P_Join_Raw,
    sp_rtsp := (sp_rtsp s)\<lparr>rt_appsrc := None,
      rt_refs := (case rt_appsrc (sp_rtsp s) of None \<Rightarrow> rt_refs (sp_rtsp s) | Some old \<Rightarrow> rt_refs (sp_rtsp s) - {#old#})\<rparr>\<rparr>)"
| join_raw: "sp_main s = P_Join_Raw \<Longrightarrow> sp_raw s = R_Done \<Longrightarrow> stream_main_step s (s\<lparr>sp_main := P_Join_Report\<rparr>)"
| join_report: "sp_main s = P_Join_Report \<Longrightarrow> sp_report s = T_Done \<Longrightarrow> stream_main_step s (s\<lparr>sp_main := P_End\<rparr>)"

text \<open>The callbacks of the encoded stream and of the media, those of the raw stream, and what ends the main loop: a signal, or a bus
  message whose handler clears the flag first.\<close>

inductive media_step :: "rtsp_state \<Rightarrow> rtsp_state \<Rightarrow> bool" where
  media_push: "fq_push f (rt_q r) = Some (b, q) \<Longrightarrow> media_step r (r\<lparr>rt_q := q\<rparr>)"
| media_configure: "media_step r (r\<lparr>rt_appsrc := Some e,
    rt_refs := add_mset e (case rt_appsrc r of None \<Rightarrow> rt_refs r | Some old \<Rightarrow> rt_refs r - {#old#})\<rparr>)"
| media_need: "media_step r (r\<lparr>rt_feeding := True\<rparr>)"
| media_enough: "media_step r (r\<lparr>rt_feeding := False\<rparr>)"

inductive stream_env_step :: "stream_state \<Rightarrow> stream_state \<Rightarrow> bool" where
  media: "media_step (sp_rtsp s) r \<Longrightarrow> stream_env_step s (s\<lparr>sp_rtsp := r\<rparr>)"
| raw_sample: "fq_push f (sp_raw_q s) = Some (b, q) \<Longrightarrow> stream_env_step s (s\<lparr>sp_raw_q := q\<rparr>)"
| bus_error: "sp_main s = P_Loop \<Longrightarrow> stream_env_step s (s\<lparr>sp_run := False\<rparr>)"
| quit_loop: "sp_main s = P_Loop \<Longrightarrow> stream_env_step s (s\<lparr>sp_main := P_Stop\<rparr>)"

inductive stream_prog_step :: "rtsp_config \<Rightarrow> stream_state \<Rightarrow> stream_state \<Rightarrow> bool" for cfg where
  prog_feeder: "feeder_step cfg (sp_rtsp s) r \<Longrightarrow> stream_prog_step cfg s (s\<lparr>sp_rtsp := r\<rparr>)"
| prog_raw: "raw_step s t \<Longrightarrow> stream_prog_step cfg s t"
| prog_report: "report_step s t \<Longrightarrow> stream_prog_step cfg s t"
| prog_main: "stream_main_step s t \<Longrightarrow> stream_prog_step cfg s t"

definition stream_step :: "rtsp_config \<Rightarrow> stream_state \<Rightarrow> stream_state \<Rightarrow> bool" where
  "stream_step cfg s t \<longleftrightarrow> stream_prog_step cfg s t \<or> stream_env_step s t"

subsection \<open>Invariant\<close>

fun stage :: "stream_pc \<Rightarrow> nat" where
  "stage P_Spawn_Raw = 0"
| "stage P_Spawn_Report = 1"
| "stage P_Loop = 2"
| "stage P_Stop = 3"
| "stage P_Close_Enc = 4"
| "stage P_Close_Raw = 5"
| "stage P_Shutdown = 6"
| "stage P_Join_Feeder = 7"
| "stage P_Join_Raw = 8"
| "stage P_Join_Report = 9"
| "stage P_End = 10"

text \<open>What the main thread has achieved, by how far it has come.\<close>

definition stage_inv :: "stream_state \<Rightarrow> bool" where
  "stage_inv s \<longleftrightarrow> (4 \<le> stage (sp_main s) \<longrightarrow> \<not> sp_run s) \<and> (5 \<le> stage (sp_main s) \<longrightarrow> fq_closed (rt_q (sp_rtsp s)))
     \<and> (6 \<le> stage (sp_main s) \<longrightarrow> fq_closed (sp_raw_q s)) \<and> (8 \<le> stage (sp_main s) \<longrightarrow> rt_pc (sp_rtsp s) = FDone)
     \<and> (9 \<le> stage (sp_main s) \<longrightarrow> sp_raw s = R_Done) \<and> (10 \<le> stage (sp_main s) \<longrightarrow> sp_report s = T_Done)
     \<and> (sp_raw s = R_None \<longleftrightarrow> stage (sp_main s) = 0) \<and> (sp_report s = T_None \<longleftrightarrow> stage (sp_main s) \<le> 1)"

text \<open>The consumer has folded the frames it popped, but for the one in its hands.\<close>

definition folded :: "stream_state \<Rightarrow> bool" where
  "folded s \<longleftrightarrow> (\<exists>fs. sp_popped s = fs @ (case sp_raw s of R_Work f \<Rightarrow> [f] | _ \<Rightarrow> []) \<and> sp_stats s = fold raw_consume fs raw_new)"

definition stream_inv :: "rtsp_config \<Rightarrow> stream_state \<Rightarrow> bool" where
  "stream_inv cfg s \<longleftrightarrow> rtsp_inv cfg (sp_rtsp s) \<and> stage_inv s \<and> folded s"

lemma push_keeps_closed: "fq_push f q = Some (b, q') \<Longrightarrow> fq_closed q' = fq_closed q"
  by (auto simp: fq_defs split: if_splits list.splits)

lemma pop_keeps_closed: "fq_pop q = Some (r, q') \<Longrightarrow> fq_closed q' = fq_closed q"
  by (auto simp: fq_defs split: if_splits list.splits)

lemma media_env: "media_step r t \<Longrightarrow> env_step r t \<and> fq_closed (rt_q t) = fq_closed (rt_q r) \<and> rt_pc t = rt_pc r"
  by (induction rule: media_step.induct) (auto intro: env_step.intros simp: push_keeps_closed)

lemma feeder_keeps: "feeder_step cfg r t \<Longrightarrow> rt_pc r \<noteq> FDone \<and> fq_closed (rt_q t) = fq_closed (rt_q r)"
  by (induction rule: feeder_step.induct) (auto simp: pop_keeps_closed)

lemma init_stream_inv: "stream_inv rcfg (stream_init cfg)"
  by (simp add: stream_inv_def stage_inv_def folded_def stream_init_def rtsp_init_inv)

lemma raw_step_inv: "raw_step s t \<Longrightarrow> stream_inv cfg s \<Longrightarrow> stream_inv cfg t"
  by (induction rule: raw_step.induct) (auto simp: stream_inv_def stage_inv_def folded_def pop_keeps_closed)

lemma report_step_inv: "report_step s t \<Longrightarrow> stream_inv cfg s \<Longrightarrow> stream_inv cfg t"
  by (induction rule: report_step.induct) (auto simp: stream_inv_def stage_inv_def folded_def)

lemma main_step_rtsp: "stream_main_step s t \<Longrightarrow> sp_rtsp t = sp_rtsp s \<or> env_step (sp_rtsp s) (sp_rtsp t)"
  by (induction rule: stream_main_step.induct) (auto intro: env_step.intros)

lemma main_step_stage: "stream_main_step s t \<Longrightarrow> stage_inv s \<Longrightarrow> stage_inv t"
  by (induction rule: stream_main_step.induct) (simp_all add: stage_inv_def fq_close_def)

lemma main_step_folded: "stream_main_step s t \<Longrightarrow> stage_inv s \<Longrightarrow> folded s \<Longrightarrow> folded t"
  by (induction rule: stream_main_step.induct) (auto simp: folded_def stage_inv_def)

lemma prog_step_inv: "stream_prog_step cfg s t \<Longrightarrow> stream_inv cfg s \<Longrightarrow> stream_inv cfg t"
proof (induction rule: stream_prog_step.induct)
  case (prog_feeder s r)
  then show ?case
    using feeder_step_inv [OF prog_feeder.hyps] feeder_keeps [OF prog_feeder.hyps] by (auto simp: stream_inv_def stage_inv_def folded_def)
next
  case (prog_main s t)
  then show ?case
    using main_step_stage main_step_folded main_step_rtsp env_step_inv unfolding stream_inv_def by metis
qed (auto intro: raw_step_inv report_step_inv)

lemma env_step_stream_inv: "stream_env_step s t \<Longrightarrow> stream_inv cfg s \<Longrightarrow> stream_inv cfg t"
proof (induction rule: stream_env_step.induct)
  case (media s r)
  then show ?case using media_env [OF media.hyps] env_step_inv by (auto simp: stream_inv_def stage_inv_def folded_def)
qed (auto simp: stream_inv_def stage_inv_def folded_def push_keeps_closed)

interpretation streamrun: invariant_system "stream_step rcfg" "stream_init cfg" "stream_inv rcfg"
  by unfold_locales (auto simp: stream_step_def init_stream_inv intro: prog_step_inv env_step_stream_inv)

lemma stream_reachable: "(stream_step rcfg)\<^sup>*\<^sup>* (stream_init cfg) s \<Longrightarrow> stream_inv rcfg s"
  by (rule streamrun.inv_reachable)

subsection \<open>The end\<close>

text \<open>Steps each thread has left once both queues are closed and the flag is down.\<close>

fun raw_left :: "raw_pc \<Rightarrow> nat" where
  "raw_left R_Pop = 3"
| "raw_left (R_Work _) = 2"
| "raw_left R_Check = 1"
| "raw_left _ = 0"

fun report_left :: "report_pc \<Rightarrow> nat" where
  "report_left T_Sleep = 3"
| "report_left T_Print = 2"
| "report_left T_Check = 1"
| "report_left _ = 0"

definition stream_left :: "stream_state \<Rightarrow> nat" where
  "stream_left s = (10 - stage (sp_main s)) + feeder_left (sp_rtsp s) + raw_left (sp_raw s) + report_left (sp_report s)"

definition closing :: "rtsp_config \<Rightarrow> stream_state \<Rightarrow> bool" where
  "closing cfg s \<longleftrightarrow> stream_inv cfg s \<and> 6 \<le> stage (sp_main s)"

lemma stage_bound: "stage p \<le> 10"
  by (cases p) simp_all

lemma raw_less: "raw_step s t \<Longrightarrow> \<not> sp_run s \<Longrightarrow> stream_left t < stream_left s \<and> sp_main t = sp_main s"
  by (induction rule: raw_step.induct) (simp_all add: stream_left_def)

lemma report_less: "report_step s t \<Longrightarrow> \<not> sp_run s \<Longrightarrow> stream_left t < stream_left s \<and> sp_main t = sp_main s"
  by (induction rule: report_step.induct) (simp_all add: stream_left_def)

lemma feeder_left_fields [simp]:
  "feeder_left (r\<lparr>rt_running := b\<rparr>) = feeder_left r" "feeder_left (r\<lparr>rt_appsrc := a, rt_refs := m\<rparr>) = feeder_left r"
  by (simp_all add: feeder_left_def split: feeder_pc.split)

lemma main_less: "stream_main_step s t \<Longrightarrow> 6 \<le> stage (sp_main s) \<Longrightarrow> stream_left t < stream_left s \<and> 6 \<le> stage (sp_main t)"
  by (induction rule: stream_main_step.induct) (simp_all add: stream_left_def)

lemma closing_facts:
  assumes "closing cfg s"
  shows "\<not> sp_run s" "fq_closed (rt_q (sp_rtsp s))" "fq_closed (sp_raw_q s)" "stage_inv s"
  using assms by (simp_all add: closing_def stream_inv_def stage_inv_def)

lemma prog_less:
  assumes "stream_prog_step cfg s t" "closing cfg s"
  shows "stream_left t < stream_left s \<and> closing cfg t"
proof -
  note c = closing_facts [OF assms(2)]
  have "stream_left t < stream_left s \<and> 6 \<le> stage (sp_main t)"
    using assms(1)
  proof cases
    case (prog_feeder r)
    then show ?thesis using feeder_left_decreases [OF prog_feeder(2) c(2)] assms(2) by (simp add: stream_left_def closing_def)
  next
    case prog_raw
    then show ?thesis using raw_less c(1) assms(2) by (simp add: closing_def)
  next
    case prog_report
    then show ?thesis using report_less c(1) assms(2) by (simp add: closing_def)
  next
    case prog_main
    then show ?thesis using main_less assms(2) by (simp add: closing_def)
  qed
  then show ?thesis using prog_step_inv [OF assms(1)] assms(2) by (simp add: closing_def)
qed

lemma stream_env_left:
  assumes "stream_env_step s t" "closing cfg s"
  shows "stream_left t = stream_left s \<and> closing cfg t"
proof -
  note c = closing_facts [OF assms(2)]
  have "stream_left t = stream_left s \<and> sp_main t = sp_main s"
    using assms(1)
  proof cases
    case (media r)
    then have "feeder_left r = feeder_left (sp_rtsp s)" using env_left [OF _ c(2)] media_env by blast
    then show ?thesis using media by (simp add: stream_left_def)
  qed (use assms(2) in \<open>simp_all add: stream_left_def closing_def\<close>)
  then show ?thesis using env_step_stream_inv [OF assms(1)] assms(2) by (simp add: closing_def)
qed

lemma raw_not_stuck: "fq_closed (sp_raw_q s) \<Longrightarrow> sp_raw s \<noteq> R_None \<Longrightarrow> sp_raw s \<noteq> R_Done \<Longrightarrow> \<exists>t. raw_step s t"
proof (cases "sp_raw s")
  case R_Check
  then show ?thesis using raw_step.raw_leave raw_step.raw_enter by blast
next
  case R_Pop
  assume "fq_closed (sp_raw_q s)"
  then obtain r q where "fq_pop (sp_raw_q s) = Some (r, q)" by (cases "fq_q (sp_raw_q s)") (auto simp: fq_defs)
  then show ?thesis using R_Pop raw_step.raw_frame raw_step.raw_end by (cases r) blast+
next
  case (R_Work f)
  then show ?thesis using raw_step.raw_work by blast
qed simp_all

lemma report_not_stuck: "sp_report s \<noteq> T_None \<Longrightarrow> sp_report s \<noteq> T_Done \<Longrightarrow> \<exists>t. report_step s t"
proof (cases "sp_report s")
  case T_Check
  then show ?thesis using report_step.report_leave report_step.report_enter by blast
next
  case T_Sleep
  then show ?thesis using report_step.report_wake by blast
next
  case T_Print
  then show ?thesis using report_step.report_print by blast
qed simp_all

lemma main_not_stuck_closing:
  assumes "6 \<le> stage (sp_main s)" "sp_main s \<noteq> P_End" "rt_pc (sp_rtsp s) = FDone" "sp_raw s = R_Done" "sp_report s = T_Done"
  shows "\<exists>t. stream_main_step s t"
proof (cases "sp_main s")
  case P_Shutdown
  then show ?thesis using stream_main_step.shutdown_flag by blast
next
  case P_Join_Feeder
  then show ?thesis using stream_main_step.join_feeder assms(3) by blast
next
  case P_Join_Raw
  then show ?thesis using stream_main_step.join_raw assms(4) by blast
next
  case P_Join_Report
  then show ?thesis using stream_main_step.join_report assms(5) by blast
qed (use assms(1,2) in simp_all)

lemma closing_progress:
  assumes "closing cfg s"
  shows "(\<exists>t. stream_prog_step cfg s t) \<longleftrightarrow> sp_main s \<noteq> P_End" "stream_left s = 0 \<longleftrightarrow> sp_main s = P_End"
proof -
  note c = closing_facts [OF assms]
  have st: "6 \<le> stage (sp_main s)" using assms by (simp add: closing_def)
  then have started: "sp_raw s \<noteq> R_None" "sp_report s \<noteq> T_None" using c(4) by (auto simp: stage_inv_def)
  have stage10: "stage (sp_main s) = 10 \<longleftrightarrow> sp_main s = P_End" by (cases "sp_main s") simp_all
  have ended: "rt_pc (sp_rtsp s) = FDone \<and> sp_raw s = R_Done \<and> sp_report s = T_Done" if "sp_main s = P_End"
    using c(4) that by (simp add: stage_inv_def)
  have ex: "\<exists>t. stream_prog_step cfg s t" if "sp_main s \<noteq> P_End"
  proof -
    consider (feeder) "rt_pc (sp_rtsp s) \<noteq> FDone" | (raw) "sp_raw s \<noteq> R_Done" | (report) "sp_report s \<noteq> T_Done"
      | (joined) "rt_pc (sp_rtsp s) = FDone" "sp_raw s = R_Done" "sp_report s = T_Done" by blast
    then show ?thesis
    proof cases
      case feeder
      then show ?thesis using feeder_not_stuck [OF c(2)] stream_prog_step.prog_feeder by blast
    next
      case raw
      then show ?thesis using raw_not_stuck [OF c(3) started(1)] stream_prog_step.prog_raw by blast
    next
      case report
      then show ?thesis using report_not_stuck [OF started(2)] stream_prog_step.prog_report by blast
    next
      case joined
      then show ?thesis using main_not_stuck_closing [OF st that] stream_prog_step.prog_main by blast
    qed
  qed
  show zero: "stream_left s = 0 \<longleftrightarrow> sp_main s = P_End"
    using ended stage10 stage_bound [of "sp_main s"] by (auto simp: stream_left_def feeder_left_0)
  have "sp_main s \<noteq> P_End" if "stream_prog_step cfg s t" for t
    using prog_less [OF that assms] zero by auto
  with ex show "(\<exists>t. stream_prog_step cfg s t) \<longleftrightarrow> sp_main s \<noteq> P_End" by blast
qed

interpretation streamdown: bounded_thread "stream_prog_step cfg" stream_env_step "closing cfg" stream_left
proof
  fix s t :: stream_state assume c: "closing cfg s"
  show "stream_prog_step cfg s t \<Longrightarrow> stream_left t < stream_left s \<and> closing cfg t" using prog_less c by blast
  show "stream_env_step s t \<Longrightarrow> stream_left t \<le> stream_left s \<and> closing cfg t" using stream_env_left c by fastforce
  show "0 < stream_left s \<Longrightarrow> \<exists>t. stream_prog_step cfg s t" using closing_progress [OF c] by simp
qed

lemma stream_left_bound: "closing cfg s \<Longrightarrow> stream_left s \<le> 4 * fq_size (rt_q (sp_rtsp s)) + 14"
proof -
  assume "closing cfg s"
  then have "10 - stage (sp_main s) \<le> 4" by (auto simp: closing_def)
  moreover have "feeder_left (sp_rtsp s) \<le> 4 * fq_size (rt_q (sp_rtsp s)) + 4" by (cases "rt_pc (sp_rtsp s)") (simp_all add: feeder_left_def)
  moreover have "raw_left (sp_raw s) \<le> 3" by (cases "sp_raw s") simp_all
  moreover have "report_left (sp_report s) \<le> 3" by (cases "sp_report s") simp_all
  ultimately show ?thesis by (simp add: stream_left_def)
qed

subsection \<open>Property\<close>

text \<open>C15: The streaming program ends after its pipeline has been stopped. From any reachable state in which \<open>pipeline.stop()\<close> has
  returned, whatever the threads were doing, however full the queues and however callbacks still interleave, the four threads together take at
  most four steps per queued encoded frame and fourteen more, no join waits for ever, and the end of \<open>main\<close> is reached. There
  the feeder, the raw consumer and the reporter are done, and the consumer's totals count exactly the frames and bytes it popped.\<close>

theorem stream_ends:
  assumes "(stream_step rcfg)\<^sup>*\<^sup>* (stream_init cfg) s" "6 \<le> stage (sp_main s)"
  shows "(\<forall>n t. interleaving (stream_prog_step rcfg) stream_env_step n s t \<longrightarrow>
        n \<le> 4 * fq_size (rt_q (sp_rtsp s)) + 14 \<and> ((\<exists>u. stream_prog_step rcfg t u) \<longleftrightarrow> sp_main t \<noteq> P_End)
      \<and> (sp_main t = P_End \<longrightarrow> rt_pc (sp_rtsp t) = FDone \<and> sp_raw t = R_Done \<and> sp_report t = T_Done
           \<and> rw_frames (sp_stats t) = of_nat (length (sp_popped t))
           \<and> rw_bytes (sp_stats t) = of_nat (sum_list (map (length \<circ> rf_data) (sp_popped t)))))
     \<and> (\<exists>n t. interleaving (stream_prog_step rcfg) stream_env_step n s t \<and> sp_main t = P_End)"
proof -
  have c: "closing rcfg s" using assms stream_reachable by (simp add: closing_def)
  have totals: "rt_pc (sp_rtsp t) = FDone \<and> sp_raw t = R_Done \<and> sp_report t = T_Done
      \<and> rw_frames (sp_stats t) = of_nat (length (sp_popped t)) \<and> rw_bytes (sp_stats t) = of_nat (sum_list (map (length \<circ> rf_data) (sp_popped t)))"
    if "closing rcfg t" "sp_main t = P_End" for t
    using that raw_consume_totals [of "sp_popped t" raw_new] by (auto simp: closing_def stream_inv_def stage_inv_def folded_def raw_new_def)
  have "n \<le> 4 * fq_size (rt_q (sp_rtsp s)) + 14 \<and> closing rcfg t" if "interleaving (stream_prog_step rcfg) stream_env_step n s t" for n t
    using streamdown.work_bounded [OF that c] stream_left_bound [OF c] by linarith
  moreover have "\<exists>n t. interleaving (stream_prog_step rcfg) stream_env_step n s t \<and> sp_main t = P_End"
    using streamdown.can_finish [OF c] streamdown.work_bounded [OF _ c] closing_progress(2) by blast
  ultimately show ?thesis using totals closing_progress(1) by blast
qed

text \<open>The program is interrupted as soon as its threads run.\<close>

definition sim_run :: "stream_state list" where
  "sim_run = (let s0 = stream_init pipeline_default; s1 = s0\<lparr>sp_main := P_Spawn_Report, sp_raw := R_Check\<rparr>; s2 = s1\<lparr>sp_main := P_Loop, sp_report := T_Check\<rparr>;
     s3 = s2\<lparr>sp_main := P_Stop\<rparr>; s4 = s3\<lparr>sp_main := P_Close_Enc, sp_run := False\<rparr>;
     s5 = s4\<lparr>sp_main := P_Close_Raw, sp_rtsp := (sp_rtsp s4)\<lparr>rt_q := fq_close (rt_q (sp_rtsp s4))\<rparr>\<rparr>
     in [s0, s1, s2, s3, s4, s5, s5\<lparr>sp_main := P_Shutdown, sp_raw_q := fq_close (sp_raw_q s5)\<rparr>])"

lemma sim_run_reaches: "(stream_step rtsp_default)\<^sup>*\<^sup>* (stream_init pipeline_default) (sim_run ! 6)"
proof -
  have main: "stream_main_step s t \<Longrightarrow> stream_step rtsp_default s t" for s t
    by (simp add: stream_step_def stream_prog_step.prog_main)
  have "stream_step rtsp_default (sim_run ! 0) (sim_run ! 1)"
    using main [OF stream_main_step.spawn_raw [of "sim_run ! 0"]] by (simp add: sim_run_def Let_def stream_init_def)
  moreover have "stream_step rtsp_default (sim_run ! 1) (sim_run ! 2)"
    using main [OF stream_main_step.spawn_report [of "sim_run ! 1"]] by (simp add: sim_run_def Let_def)
  moreover have "stream_step rtsp_default (sim_run ! 2) (sim_run ! 3)"
    using stream_env_step.quit_loop [of "sim_run ! 2"] by (simp add: stream_step_def sim_run_def Let_def)
  moreover have "stream_step rtsp_default (sim_run ! 3) (sim_run ! 4)"
    using main [OF stream_main_step.stop_flag [of "sim_run ! 3"]] by (simp add: sim_run_def Let_def)
  moreover have "stream_step rtsp_default (sim_run ! 4) (sim_run ! 5)"
    using main [OF stream_main_step.close_enc [of "sim_run ! 4"]] by (simp add: sim_run_def Let_def)
  moreover have "stream_step rtsp_default (sim_run ! 5) (sim_run ! 6)"
    using main [OF stream_main_step.close_raw [of "sim_run ! 5"]] by (simp add: sim_run_def Let_def)
  moreover have "sim_run ! 0 = stream_init pipeline_default" by (simp add: sim_run_def Let_def)
  ultimately show ?thesis by (metis rtranclp.rtrancl_refl rtranclp.rtrancl_into_rtrancl)
qed

theorem stream_ends_witness:
  "\<exists>n t. interleaving (stream_prog_step rtsp_default) stream_env_step n (sim_run ! 6) t \<and> sp_main t = P_End"
proof -
  have "6 \<le> stage (sp_main (sim_run ! 6))" by (simp add: sim_run_def Let_def)
  from stream_ends [OF sim_run_reaches this] show ?thesis by blast
qed

end
