(* ===== verification/Yolo_Postprocess.thy ===== *)
theory Yolo_Postprocess
  imports Floats
begin

text \<open>
  Decoding of the YOLO output tensor and non-maximum suppression
  (\<^verbatim>\<open>edge-ai-detector-tensorrt-ros2/src/yolo_postprocess.cpp\<close> and \<open>yolo_postprocess.hpp\<close>).

  Every arithmetic operation on \<open>float\<close> is one operation on rationals followed by \<open>f32\<close>, in
  the order the source writes them. \<open>None\<close> says that the code leaves the modelled domain:
  a read outside the output tensor, \<open>std::clamp\<close> with crossed bounds (both undefined behaviour),
  or a division by a zero scale.

  \<open>nms\<close> keeps the two nested index loops and the \<open>removed\<close> flags of the source;
  \<open>greedy_nms\<close> is the textbook definition it is proved equal to. \<open>std::sort\<close> does not say how
  it orders equal scores, so \<open>nms\<close> takes the sort as an argument with the contract \<open>score_sort\<close>;
  \<open>stable_score_sort\<close> is an executable sort that meets it.
\<close>

subsection \<open>Data\<close>

record detection =
  det_x :: rat
  det_y :: rat
  det_w :: rat
  det_h :: rat
  det_score :: rat
  det_class_id :: int

record letterbox_info =
  lb_scale :: rat
  lb_pad_x :: int
  lb_pad_y :: int
  lb_src_w :: int
  lb_src_h :: int

record postprocess_config =
  pp_num_classes :: int
  pp_conf_threshold :: rat
  pp_iou_threshold :: rat
  pp_max_detections :: int
  pp_transposed :: bool

definition postprocess_default :: postprocess_config where
  "postprocess_default = \<lparr>pp_num_classes = 80, pp_conf_threshold = f32 (25/100), pp_iou_threshold = f32 (45/100),
     pp_max_detections = 300, pp_transposed = False\<rparr>"

subsection \<open>Boxes\<close>

definition iou :: "detection \<Rightarrow> detection \<Rightarrow> rat" where
  "iou a b =
     (let ax2 = f32 (det_x a + det_w a); ay2 = f32 (det_y a + det_h a);
          bx2 = f32 (det_x b + det_w b); by2 = f32 (det_y b + det_h b);
          ix1 = max (det_x a) (det_x b); iy1 = max (det_y a) (det_y b);
          ix2 = min ax2 bx2; iy2 = min ay2 by2;
          iw = max 0 (f32 (ix2 - ix1)); ih = max 0 (f32 (iy2 - iy1));
          inter = f32 (iw * ih);
          uni = f32 (f32 (f32 (det_w a * det_h a) + f32 (det_w b * det_h b)) - inter)
      in if 0 < uni then f32 (inter / uni) else 0)"

definition unletterbox :: "rat \<Rightarrow> rat \<Rightarrow> rat \<Rightarrow> rat \<Rightarrow> letterbox_info \<Rightarrow> detection option" where
  "unletterbox cx cy bw bh lb =
     (if lb_scale lb = 0 then None else
      let x = f32 (f32 (f32 (cx - f32 (bw * (1/2))) - f32 (of_int (lb_pad_x lb))) / lb_scale lb);
          y = f32 (f32 (f32 (cy - f32 (bh * (1/2))) - f32 (of_int (lb_pad_y lb))) / lb_scale lb);
          w = f32 (bw / lb_scale lb);
          h = f32 (bh / lb_scale lb)
      in case std_clamp x 0 (f32 (of_int (lb_src_w lb - 1))) of None \<Rightarrow> None | Some x \<Rightarrow>
         case std_clamp y 0 (f32 (of_int (lb_src_h lb - 1))) of None \<Rightarrow> None | Some y \<Rightarrow>
         case std_clamp w 0 (f32 (f32 (of_int (lb_src_w lb)) - x)) of None \<Rightarrow> None | Some w \<Rightarrow>
         case std_clamp h 0 (f32 (f32 (of_int (lb_src_h lb)) - y)) of None \<Rightarrow> None | Some h \<Rightarrow>
         Some \<lparr>det_x = x, det_y = y, det_w = w, det_h = h, det_score = 0, det_class_id = 0\<rparr>)"

subsection \<open>Non-maximum suppression\<close>

definition suppresses :: "rat \<Rightarrow> detection \<Rightarrow> detection \<Rightarrow> bool" where
  "suppresses thr di dj \<longleftrightarrow> det_class_id dj = det_class_id di \<and> thr < iou di dj"

text \<open>The inner loop, over \<open>j\<close>.\<close>

fun nms_mark :: "detection list \<Rightarrow> rat \<Rightarrow> detection \<Rightarrow> nat list \<Rightarrow> bool list \<Rightarrow> bool list" where
  "nms_mark dets thr di [] removed = removed"
| "nms_mark dets thr di (j # js) removed =
     nms_mark dets thr di js
       (if removed ! j then removed
        else if suppresses thr di (dets ! j) then removed[j := True] else removed)"

text \<open>The outer loop, over \<open>i\<close>.\<close>

function nms_loop :: "detection list \<Rightarrow> rat \<Rightarrow> int \<Rightarrow> nat \<Rightarrow> bool list \<Rightarrow> detection list \<Rightarrow> detection list" where
  "nms_loop dets thr max_out i removed keep =
     (if i < length dets
      then if removed ! i then nms_loop dets thr max_out (i + 1) removed keep
           else let keep' = keep @ [dets ! i]
                in if max_out \<le> int (length keep') then keep'
                   else nms_loop dets thr max_out (i + 1)
                          (nms_mark dets thr (dets ! i) [i + 1..<length dets] removed) keep'
      else keep)"
  by pat_completeness auto
termination
  by (relation "measure (\<lambda>(dets, thr, max_out, i, removed, keep). length dets - i)") auto

declare nms_loop.simps [simp del]

definition nms :: "(detection list \<Rightarrow> detection list) \<Rightarrow> detection list \<Rightarrow> rat \<Rightarrow> int \<Rightarrow> detection list" where
  "nms srt dets iou_threshold max_out =
     (let dets = srt dets
      in nms_loop dets iou_threshold max_out 0 (replicate (length dets) False) [])"

definition stable_score_sort :: "detection list \<Rightarrow> detection list" where
  "stable_score_sort dets = sort_key (\<lambda>d. - det_score d) dets"

text \<open>The reference definition.\<close>

function greedy_nms :: "rat \<Rightarrow> detection list \<Rightarrow> detection list" where
  "greedy_nms thr [] = []"
| "greedy_nms thr (d # ds) = d # greedy_nms thr (filter (\<lambda>e. \<not> suppresses thr d e) ds)"
  by pat_completeness auto
termination
  by (relation "measure (\<lambda>(thr, ds). length ds)") (auto simp: le_imp_less_Suc)

subsection \<open>Decoding\<close>

definition yolo_at :: "rat list \<Rightarrow> bool \<Rightarrow> int \<Rightarrow> int \<Rightarrow> int \<Rightarrow> rat option" where
  "yolo_at output transposed stride box attr =
     (let i = (if transposed then attr * stride + box else box * stride + attr)
      in if 0 \<le> i then nth_ub output (nat i) else None)"

text \<open>The loop over the classes: the best class so far and its score.\<close>

fun best_class :: "(int \<Rightarrow> rat option) \<Rightarrow> nat list \<Rightarrow> int \<Rightarrow> rat \<Rightarrow> (int \<times> rat) option" where
  "best_class score_of [] best_c best_s = Some (best_c, best_s)"
| "best_class score_of (c # cs) best_c best_s =
     (case score_of (int c) of
        None \<Rightarrow> None
      | Some s \<Rightarrow> if best_s < s then best_class score_of cs (int c) s
                  else best_class score_of cs best_c best_s)"

text \<open>The body of the loop over the boxes: \<open>Some None\<close> is \<open>continue\<close>.\<close>

definition yolo_attrs :: "int \<Rightarrow> int \<Rightarrow> postprocess_config \<Rightarrow> int" where
  "yolo_attrs rows cols cfg = (if pp_transposed cfg then rows else cols)"

definition yolo_has_obj :: "int \<Rightarrow> int \<Rightarrow> postprocess_config \<Rightarrow> bool" where
  "yolo_has_obj rows cols cfg \<longleftrightarrow> yolo_attrs rows cols cfg = pp_num_classes cfg + 5"

definition yolo_cls_off :: "int \<Rightarrow> int \<Rightarrow> postprocess_config \<Rightarrow> int" where
  "yolo_cls_off rows cols cfg = (if yolo_has_obj rows cols cfg then 5 else 4)"

definition yolo_num_boxes :: "int \<Rightarrow> int \<Rightarrow> postprocess_config \<Rightarrow> int" where
  "yolo_num_boxes rows cols cfg = (if pp_transposed cfg then cols else rows)"

definition decode_box :: "rat list \<Rightarrow> int \<Rightarrow> int \<Rightarrow> letterbox_info \<Rightarrow> postprocess_config \<Rightarrow> nat \<Rightarrow> detection option option" where
  "decode_box output rows cols lb cfg i =
     (let has_obj = yolo_has_obj rows cols cfg;
          attr = yolo_at output (pp_transposed cfg) cols (int i)
      in case attr 0 of None \<Rightarrow> None | Some cx \<Rightarrow>
         case attr 1 of None \<Rightarrow> None | Some cy \<Rightarrow>
         case attr 2 of None \<Rightarrow> None | Some bw \<Rightarrow>
         case attr 3 of None \<Rightarrow> None | Some bh \<Rightarrow>
         case (if has_obj then attr 4 else Some 1) of None \<Rightarrow> None | Some obj \<Rightarrow>
         if obj < f32 (pp_conf_threshold cfg * (1/2)) \<and> has_obj then Some None else
         case best_class (\<lambda>c. attr (yolo_cls_off rows cols cfg + c)) [0..<nat (pp_num_classes cfg)] (-1) 0 of
           None \<Rightarrow> None
         | Some (best_c, best_s) \<Rightarrow>
           let score = f32 (best_s * obj)
           in if best_c < 0 \<or> score < pp_conf_threshold cfg then Some None
              else case unletterbox cx cy bw bh lb of None \<Rightarrow> None
                   | Some d \<Rightarrow> Some (Some (d\<lparr>det_score := score, det_class_id := best_c\<rparr>)))"

fun decode_boxes :: "(nat \<Rightarrow> detection option option) \<Rightarrow> nat list \<Rightarrow> detection list option" where
  "decode_boxes dec [] = Some []"
| "decode_boxes dec (i # is) =
     (case dec i of
        None \<Rightarrow> None
      | Some r \<Rightarrow> (case decode_boxes dec is of
                     None \<Rightarrow> None
                   | Some ds \<Rightarrow> Some (case r of None \<Rightarrow> ds | Some d \<Rightarrow> d # ds)))"

definition decode_yolo :: "(detection list \<Rightarrow> detection list) \<Rightarrow> rat list \<Rightarrow> int \<Rightarrow> int \<Rightarrow> letterbox_info \<Rightarrow>
    postprocess_config \<Rightarrow> detection list option" where
  "decode_yolo srt output rows cols lb cfg =
     (case decode_boxes (decode_box output rows cols lb cfg) [0..<nat (yolo_num_boxes rows cols cfg)] of
        None \<Rightarrow> None
      | Some raw \<Rightarrow> Some (nms srt raw (pp_iou_threshold cfg) (pp_max_detections cfg)))"

subsection \<open>Labels\<close>

definition coco_labels :: "string list" where
  "coco_labels =
    [''person'', ''bicycle'', ''car'', ''motorcycle'', ''airplane'', ''bus'', ''train'', ''truck'', ''boat'',
     ''traffic light'', ''fire hydrant'', ''stop sign'', ''parking meter'', ''bench'', ''bird'', ''cat'', ''dog'',
     ''horse'', ''sheep'', ''cow'', ''elephant'', ''bear'', ''zebra'', ''giraffe'', ''backpack'', ''umbrella'', ''handbag'',
     ''tie'', ''suitcase'', ''frisbee'', ''skis'', ''snowboard'', ''sports ball'', ''kite'', ''baseball bat'',
     ''baseball glove'', ''skateboard'', ''surfboard'', ''tennis racket'', ''bottle'', ''wine glass'', ''cup'',
     ''fork'', ''knife'', ''spoon'', ''bowl'', ''banana'', ''apple'', ''sandwich'', ''orange'', ''broccoli'', ''carrot'',
     ''hot dog'', ''pizza'', ''donut'', ''cake'', ''chair'', ''couch'', ''potted plant'', ''bed'', ''dining table'',
     ''toilet'', ''tv'', ''laptop'', ''mouse'', ''remote'', ''keyboard'', ''cell phone'', ''microwave'', ''oven'',
     ''toaster'', ''sink'', ''refrigerator'', ''book'', ''clock'', ''vase'', ''scissors'', ''teddy bear'',
     ''hair drier'', ''toothbrush'']"

definition coco_label :: "int \<Rightarrow> string" where
  "coco_label k = (if k < 0 \<or> int (length coco_labels) \<le> k then ''unknown'' else coco_labels ! nat k)"

subsection \<open>The sorting contract\<close>

locale score_sort =
  fixes srt :: "detection list \<Rightarrow> detection list"
  assumes srt_mset: "mset (srt ds) = mset ds"
    and srt_sorted: "sorted_wrt (\<lambda>a b. det_score b \<le> det_score a) (srt ds)"
begin

lemma srt_set [simp]: "set (srt ds) = set ds"
  by (metis set_mset_mset srt_mset)

lemma srt_length [simp]: "length (srt ds) = length ds"
  by (metis size_mset srt_mset)

end

interpretation stable: score_sort stable_score_sort
proof
  fix ds
  show "mset (stable_score_sort ds) = mset ds" by (simp add: stable_score_sort_def)
  have "sorted (map (\<lambda>d. - det_score d) (stable_score_sort ds))"
    by (simp add: stable_score_sort_def)
  then show "sorted_wrt (\<lambda>a b. det_score b \<le> det_score a) (stable_score_sort ds)"
    by (simp add: sorted_map)
qed

subsection \<open>The index loops compute greedy suppression\<close>

lemma nms_mark_length [simp]: "length (nms_mark dets thr d js removed) = length removed"
  by (induction js arbitrary: removed) auto

lemma nms_mark_nth:
  "k < length removed \<Longrightarrow> (\<forall>j \<in> set js. j < length removed) \<Longrightarrow>
     nms_mark dets thr d js removed ! k \<longleftrightarrow> removed ! k \<or> (k \<in> set js \<and> suppresses thr d (dets ! k))"
  by (induction js arbitrary: removed) (auto simp: nth_list_update)

text \<open>The candidates from index \<open>i\<close> on that no flag removes.\<close>

definition nms_cands :: "detection list \<Rightarrow> bool list \<Rightarrow> nat \<Rightarrow> detection list" where
  "nms_cands dets removed i = map (\<lambda>j. dets ! j) (filter (\<lambda>j. \<not> removed ! j) [i..<length dets])"

lemma nms_cands_Suc:
  "i < length dets \<Longrightarrow> nms_cands dets removed i =
     (if removed ! i then nms_cands dets removed (Suc i) else dets ! i # nms_cands dets removed (Suc i))"
  by (simp add: nms_cands_def upt_conv_Cons)

lemma nms_cands_mark:
  assumes "length removed = length dets"
  shows "nms_cands dets (nms_mark dets thr d [i..<length dets] removed) i
    = filter (\<lambda>e. \<not> suppresses thr d e) (nms_cands dets removed i)"
proof -
  have "filter (\<lambda>j. \<not> nms_mark dets thr d [i..<length dets] removed ! j) [i..<length dets]
      = filter (\<lambda>j. \<not> removed ! j \<and> \<not> suppresses thr d (dets ! j)) [i..<length dets]"
    using assms by (intro filter_cong) (auto simp: nms_mark_nth)
  then show ?thesis by (simp add: nms_cands_def filter_map o_def filter_filter conj_commute)
qed

lemma nms_loop_greedy:
  assumes "length removed = length dets" "int (length keep) < max 1 max_out"
  shows "nms_loop dets thr max_out i removed keep
    = keep @ take (nat (max 1 max_out) - length keep) (greedy_nms thr (nms_cands dets removed i))"
  using assms
proof (induction dets thr max_out i removed keep rule: nms_loop.induct)
  case (1 dets thr max_out i removed keep)
  let ?rest = "nms_cands dets removed (Suc i)"
  show ?case
  proof (cases "i < length dets")
    case False
    then show ?thesis by (simp add: nms_loop.simps [of dets] nms_cands_def)
  next
    case lt: True
    show ?thesis
    proof (cases "removed ! i")
      case True
      then show ?thesis using 1 lt by (simp add: nms_loop.simps [of dets] nms_cands_Suc [OF lt])
    next
      case False
      let ?keep = "keep @ [dets ! i]" and ?d = "dets ! i"
      have g: "greedy_nms thr (nms_cands dets removed i) = ?d # greedy_nms thr (filter (\<lambda>e. \<not> suppresses thr ?d e) ?rest)"
        using False by (simp add: nms_cands_Suc [OF lt])
      show ?thesis
      proof (cases "max_out \<le> int (length ?keep)")
        case True
        then have "nat (max 1 max_out) - length keep = 1" using "1.prems"(2) by auto
        then show ?thesis using True False lt by (simp add: nms_loop.simps [of dets] g Let_def)
      next
        case cont: False
        let ?rem = "nms_mark dets thr ?d [i + 1..<length dets] removed"
        have "nms_loop dets thr max_out (i + 1) ?rem ?keep
            = ?keep @ take (nat (max 1 max_out) - length ?keep) (greedy_nms thr (nms_cands dets ?rem (i + 1)))"
          using cont "1.prems"(1) by (intro "1.IH"(2) [OF lt False refl]) auto
        moreover have "nat (max 1 max_out) - length keep = Suc (nat (max 1 max_out) - length ?keep)"
          using cont by auto
        ultimately show ?thesis
          using False lt cont nms_cands_mark [OF "1.prems"(1), of thr ?d "Suc i"]
          by (simp add: nms_loop.simps [of dets thr max_out i removed keep] g Let_def)
      qed
    qed
  qed
qed

lemma nms_greedy: "nms srt dets thr max_out = take (nat (max 1 max_out)) (greedy_nms thr (srt dets))"
proof -
  have "nms_cands ds (replicate (length ds) False) 0 = ds" for ds
    by (simp add: nms_cands_def map_nth cong: filter_cong)
  then show ?thesis by (simp add: nms_def Let_def nms_loop_greedy)
qed

subsection \<open>Greedy suppression\<close>

lemma greedy_subseq: "subseq (greedy_nms thr ds) ds"
proof (induction thr ds rule: greedy_nms.induct)
  case (2 thr d ds)
  then have "subseq (greedy_nms thr (filter (\<lambda>e. \<not> suppresses thr d e) ds)) ds"
    using subseq_order.order_trans subseq_filter_left by blast
  then show ?case by simp
qed simp

lemma greedy_set: "set (greedy_nms thr ds) \<subseteq> set ds"
  by (rule subseq_set_subset [OF greedy_subseq])

lemma greedy_separated: "sorted_wrt (\<lambda>a b. \<not> suppresses thr a b) (greedy_nms thr ds)"
proof (induction thr ds rule: greedy_nms.induct)
  case (2 thr d ds)
  then show ?case using greedy_set [of thr "filter (\<lambda>e. \<not> suppresses thr d e) ds"] by auto
qed simp

lemma greedy_complete:
  "sorted_wrt (\<lambda>a b. det_score b \<le> det_score a) ds \<Longrightarrow> e \<in> set ds \<Longrightarrow>
     e \<in> set (greedy_nms thr ds) \<or>
     (\<exists>d \<in> set (greedy_nms thr ds). suppresses thr d e \<and> det_score e \<le> det_score d)"
proof (induction thr ds rule: greedy_nms.induct)
  case (2 thr d ds)
  then show ?case by (auto simp: sorted_wrt_filter)
qed simp

subsection \<open>Intersection over union\<close>

lemma iou_commute: "iou a b = iou b a"
  unfolding iou_def Let_def
  by (simp only: max.commute [of "det_x a"] max.commute [of "det_y a"] min.commute [of "f32 (det_x a + det_w a)"]
        min.commute [of "f32 (det_y a + det_h a)"] add.commute [of "f32 (det_w a * det_h a)"])

lemma iou_nonneg: "0 \<le> iou a b"
  by (auto simp: iou_def Let_def intro!: f32.rnd_nonneg divide_nonneg_pos mult_nonneg_nonneg)

lemma suppresses_sym: "suppresses thr a b \<longleftrightarrow> suppresses thr b a"
  using iou_commute [of a b] by (auto simp: suppresses_def)

subsection \<open>Decoding stays inside the tensor\<close>

lemma row_major_bound:
  fixes a b r c :: int
  assumes "0 \<le> a" "a < r" "0 \<le> b" "b < c"
  shows "0 \<le> a * c + b \<and> a * c + b < r * c"
proof -
  have "a * c + c \<le> r * c" using mult_right_mono [of "a + 1" r c] assms by (simp add: algebra_simps)
  then show ?thesis using assms by auto
qed

lemma yolo_at_defined:
  assumes "nat (rows * cols) \<le> length output" "i < nat (yolo_num_boxes rows cols cfg)"
    "0 \<le> attr" "attr < yolo_attrs rows cols cfg"
  shows "\<exists>v. yolo_at output (pp_transposed cfg) cols (int i) attr = Some v"
proof -
  have len: "rows * cols \<le> int (length output)" using assms(1) by (simp add: nat_le_iff)
  have i: "int i < yolo_num_boxes rows cols cfg" using assms(2) by linarith
  show ?thesis
  proof (cases "pp_transposed cfg")
    case True
    then show ?thesis using len i assms(3,4) row_major_bound [of attr rows "int i" cols]
      by (auto simp: yolo_at_def yolo_num_boxes_def yolo_attrs_def nat_less_iff)
  next
    case False
    then show ?thesis using len i assms(3,4) row_major_bound [of "int i" rows attr cols]
      by (auto simp: yolo_at_def yolo_num_boxes_def yolo_attrs_def nat_less_iff)
  qed
qed

lemma best_class_defined: "(\<forall>c \<in> set cs. \<exists>v. score_of (int c) = Some v) \<Longrightarrow> \<exists>r. best_class score_of cs bc bs = Some r"
  by (induction cs arbitrary: bc bs) auto

lemma best_class_range:
  "best_class score_of cs bc bs = Some (c, s) \<Longrightarrow> c = bc \<or> c \<in> int ` set cs"
  by (induction cs arbitrary: bc bs) (auto split: option.splits if_splits)

lemma unletterbox_defined:
  assumes "lb_scale lb \<noteq> 0" "1 \<le> lb_src_w lb" "1 \<le> lb_src_h lb"
  shows "\<exists>d. unletterbox cx cy bw bh lb = Some d"
proof -
  have nn: "0 \<le> f32 (of_int (lb_src_w lb - 1))" "0 \<le> f32 (of_int (lb_src_h lb - 1))"
    using assms by (auto intro!: f32.rnd_nonneg)
  have le: "f32 (of_int (lb_src_w lb - 1)) \<le> f32 (of_int (lb_src_w lb))" "f32 (of_int (lb_src_h lb - 1)) \<le> f32 (of_int (lb_src_h lb))"
    by (auto intro!: f32.rnd_mono)
  have c: "std_clamp v 0 hi = Some (max 0 (min v hi))" if "0 \<le> hi" for v hi :: rat
    using that by (simp add: std_clamp_Some_iff)
  have d: "0 \<le> f32 (f32 (of_int (lb_src_w lb)) - max 0 (min v (f32 (of_int (lb_src_w lb - 1)))))"
    "0 \<le> f32 (f32 (of_int (lb_src_h lb)) - max 0 (min v (f32 (of_int (lb_src_h lb - 1)))))" for v
    using nn le assms(2,3) by (auto intro!: f32.rnd_nonneg simp: max_def min_def)
  show ?thesis unfolding unletterbox_def Let_def by (simp only: assms(1) if_False c nn d option.case) simp
qed

lemma unletterbox_box:
  assumes "unletterbox cx cy bw bh lb = Some d"
  shows "0 \<le> det_x d \<and> det_x d \<le> f32 (of_int (lb_src_w lb - 1)) \<and> 0 \<le> det_y d \<and> det_y d \<le> f32 (of_int (lb_src_h lb - 1))
    \<and> 0 \<le> det_w d \<and> det_w d \<le> f32 (f32 (of_int (lb_src_w lb)) - det_x d)
    \<and> 0 \<le> det_h d \<and> det_h d \<le> f32 (f32 (of_int (lb_src_h lb)) - det_y d)"
  using assms unfolding unletterbox_def Let_def opt_iffs
  by (elim exE conjE) (drule std_clamp_bounds, drule std_clamp_bounds, drule std_clamp_bounds, drule std_clamp_bounds, auto)

text \<open>The box and score conditions of a decoded detection.\<close>

definition det_ok :: "letterbox_info \<Rightarrow> postprocess_config \<Rightarrow> detection \<Rightarrow> bool" where
  "det_ok lb cfg d \<longleftrightarrow> pp_conf_threshold cfg \<le> det_score d \<and> 0 \<le> det_class_id d \<and> det_class_id d < pp_num_classes cfg
    \<and> 0 \<le> det_x d \<and> det_x d \<le> f32 (of_int (lb_src_w lb - 1)) \<and> 0 \<le> det_y d \<and> det_y d \<le> f32 (of_int (lb_src_h lb - 1))
    \<and> 0 \<le> det_w d \<and> det_w d \<le> f32 (f32 (of_int (lb_src_w lb)) - det_x d)
    \<and> 0 \<le> det_h d \<and> det_h d \<le> f32 (f32 (of_int (lb_src_h lb)) - det_y d)"

lemma decode_box_ok: "decode_box output rows cols lb cfg i = Some (Some d) \<Longrightarrow> det_ok lb cfg d"
  unfolding decode_box_def Let_def
  by (fastforce simp: det_ok_def split: option.splits if_splits dest: unletterbox_box best_class_range)

lemma decode_box_defined:
  assumes "nat (rows * cols) \<le> length output" "i < nat (yolo_num_boxes rows cols cfg)"
    "yolo_cls_off rows cols cfg + pp_num_classes cfg \<le> yolo_attrs rows cols cfg" "0 \<le> pp_num_classes cfg"
    "lb_scale lb \<noteq> 0" "1 \<le> lb_src_w lb" "1 \<le> lb_src_h lb"
  shows "\<exists>r. decode_box output rows cols lb cfg i = Some r"
proof -
  let ?at = "yolo_at output (pp_transposed cfg) cols (int i)"
  have off: "4 \<le> yolo_cls_off rows cols cfg" "yolo_has_obj rows cols cfg \<Longrightarrow> yolo_cls_off rows cols cfg = 5"
    by (auto simp: yolo_cls_off_def)
  have a: "\<exists>v. ?at k = Some v" if "0 \<le> k" "k < yolo_attrs rows cols cfg" for k
    using yolo_at_defined [OF assms(1,2)] that by blast
  obtain v0 v1 v2 v3 where v: "?at 0 = Some v0" "?at 1 = Some v1" "?at 2 = Some v2" "?at 3 = Some v3"
    using a [of 0] a [of 1] a [of 2] a [of 3] off(1) assms(3,4) by auto
  obtain ob where ob: "(if yolo_has_obj rows cols cfg then ?at 4 else Some 1) = Some ob"
    using a [of 4] off assms(3,4) by (cases "yolo_has_obj rows cols cfg") auto
  obtain bc bs where b: "best_class (\<lambda>c. ?at (yolo_cls_off rows cols cfg + c)) [0..<nat (pp_num_classes cfg)] (-1) 0 = Some (bc, bs)"
    using best_class_defined [of "[0..<nat (pp_num_classes cfg)]" "\<lambda>c. ?at (yolo_cls_off rows cols cfg + c)" "-1" 0]
      a off(1) assms(3) by (fastforce simp: nat_less_iff)
  obtain d where "unletterbox v0 v1 v2 v3 lb = Some d" using unletterbox_defined assms(5-7) by blast
  with v ob b show ?thesis by (simp add: decode_box_def Let_def)
qed

lemma decode_boxes_defined: "(\<forall>i \<in> set is. \<exists>r. dec i = Some r) \<Longrightarrow> \<exists>ds. decode_boxes dec is = Some ds"
  by (induction "is") auto

lemma decode_boxes_from:
  "decode_boxes dec is = Some ds \<Longrightarrow> d \<in> set ds \<Longrightarrow> \<exists>i \<in> set is. dec i = Some (Some d)"
  by (induction "is" arbitrary: ds) (auto split: option.splits)

lemma decode_boxes_length: "decode_boxes dec is = Some ds \<Longrightarrow> length ds \<le> length is"
  by (induction "is" arbitrary: ds) (auto split: option.splits intro: le_SucI)

lemma decode_boxes_undefined: "i \<in> set is \<Longrightarrow> dec i = None \<Longrightarrow> decode_boxes dec is = None"
  by (induction "is") (auto split: option.splits)

lemma best_class_undefined: "c \<in> set cs \<Longrightarrow> score_of (int c) = None \<Longrightarrow> best_class score_of cs bc bs = None"
  by (induction cs arbitrary: bc bs) (auto split: option.splits)

subsection \<open>Suppression, for every sort that meets the contract\<close>

context score_sort
begin

lemma nms_subset: "set (nms srt ds thr m) \<subseteq> set ds"
  using set_take_subset [of "nat (max 1 m)" "greedy_nms thr (srt ds)"] greedy_set [of thr "srt ds"]
  by (auto simp: nms_greedy)

lemma nms_length: "length (nms srt ds thr m) \<le> nat (max 1 m)"
  by (simp add: nms_greedy)

lemma nms_subseq: "subseq (nms srt ds thr m) (srt ds)"
  unfolding nms_greedy by (rule subseq_order.order_trans [OF prefix_imp_subseq [OF take_is_prefix] greedy_subseq])

lemma nms_descending: "sorted_wrt (\<lambda>a b. det_score b \<le> det_score a) (nms srt ds thr m)"
  by (rule sorted_wrt_subseq [OF nms_subseq srt_sorted])

lemma nms_separated: "sorted_wrt (\<lambda>a b. \<not> suppresses thr a b) (nms srt ds thr m)"
  unfolding nms_greedy by (rule sorted_wrt_take [OF greedy_separated])

lemma nms_covers:
  assumes "length (nms srt ds thr m) < nat (max 1 m)" "e \<in> set ds"
  shows "e \<in> set (nms srt ds thr m) \<or> (\<exists>d \<in> set (nms srt ds thr m). suppresses thr d e \<and> det_score e \<le> det_score d)"
proof -
  have "nms srt ds thr m = greedy_nms thr (srt ds)" using assms(1) by (simp add: nms_greedy)
  then show ?thesis using greedy_complete [OF srt_sorted] assms(2) by simp
qed

end


text \<open>Decoding a tensor that holds at least the values of its shape.\<close>

lemma decode_yolo_defined:
  assumes "score_sort srt" and "nat (rows * cols) \<le> length output"
    and "yolo_cls_off rows cols cfg + pp_num_classes cfg \<le> yolo_attrs rows cols cfg" and "0 \<le> pp_num_classes cfg"
    and "lb_scale lb \<noteq> 0" and "1 \<le> lb_src_w lb" and "1 \<le> lb_src_h lb"
  shows "\<exists>ds. decode_yolo srt output rows cols lb cfg = Some ds \<and> (\<forall>d \<in> set ds. det_ok lb cfg d)
     \<and> length ds \<le> nat (max 1 (pp_max_detections cfg))"
proof -
  obtain raw where raw: "decode_boxes (decode_box output rows cols lb cfg) [0..<nat (yolo_num_boxes rows cols cfg)] = Some raw"
    using decode_boxes_defined [of "[0..<nat (yolo_num_boxes rows cols cfg)]"] decode_box_defined assms(2-7) by fastforce
  have "det_ok lb cfg d" if "d \<in> set raw" for d
    using decode_boxes_from [OF raw that] decode_box_ok by blast
  then show ?thesis
    using raw score_sort.nms_subset [OF assms(1), of raw "pp_iou_threshold cfg" "pp_max_detections cfg"]
      score_sort.nms_length [OF assms(1), of raw "pp_iou_threshold cfg" "pp_max_detections cfg"]
    by (auto simp: decode_yolo_def)
qed

subsection \<open>Properties\<close>

text \<open>C3: The index-and-flags implementation of \<open>nms\<close> is greedy suppression. For every sort,
  every threshold and every limit, the nested loops return the first \<open>max_out\<close> detections of the
  greedy suppression of the sorted list; a limit below 1 acts like 1, because the code tests the
  limit after it has stored a detection.\<close>

theorem nms_equals_greedy:
  "nms srt dets thr max_out = take (nat (max 1 max_out)) (greedy_nms thr (srt dets))"
  by (rule nms_greedy)

text \<open>C4: Class-aware non-maximum suppression is sound and complete. For every sort that orders by
  descending score, the result is made of input detections in descending order of score, at most
  \<open>max 1 max_out\<close> of them; no two of them with the same class overlap by more than the
  threshold; and unless the limit cut the list, every input detection was kept or is overlapped
  beyond the threshold by a kept one of the same class with at least its score.\<close>

theorem nms_sound_complete:
  assumes "score_sort srt"
  shows "set (nms srt dets thr max_out) \<subseteq> set dets
     \<and> length (nms srt dets thr max_out) \<le> nat (max 1 max_out)
     \<and> sorted_wrt (\<lambda>a b. det_score b \<le> det_score a) (nms srt dets thr max_out)
     \<and> sorted_wrt (\<lambda>a b. det_class_id a = det_class_id b \<longrightarrow> iou a b \<le> thr \<and> iou b a \<le> thr) (nms srt dets thr max_out)
     \<and> (length (nms srt dets thr max_out) < nat (max 1 max_out) \<longrightarrow>
          (\<forall>e \<in> set dets. e \<in> set (nms srt dets thr max_out)
             \<or> (\<exists>d \<in> set (nms srt dets thr max_out).
                  det_class_id d = det_class_id e \<and> thr < iou d e \<and> det_score e \<le> det_score d)))"
proof -
  note ss = score_sort.nms_subset [OF assms] score_sort.nms_length [OF assms] score_sort.nms_descending [OF assms]
  have "sorted_wrt (\<lambda>a b. det_class_id a = det_class_id b \<longrightarrow> iou a b \<le> thr \<and> iou b a \<le> thr) (nms srt dets thr max_out)"
    using score_sort.nms_separated [OF assms, of thr dets max_out]
    by (rule sorted_wrt_mono_rel [rotated]) (auto simp: suppresses_def iou_commute)
  then show ?thesis
    using ss score_sort.nms_covers [OF assms, of dets thr max_out] by (fastforce simp: suppresses_def)
qed

theorem nms_sound_complete_witness:
  "score_sort stable_score_sort \<and>
   length (nms stable_score_sort [\<lparr>det_x = 0, det_y = 0, det_w = 4, det_h = 4, det_score = 1/2, det_class_id = 1\<rparr>] (1/2) 0) \<le> 1"
  using nms_sound_complete [OF stable.score_sort_axioms,
      of "[\<lparr>det_x = 0, det_y = 0, det_w = 4, det_h = 4, det_score = 1/2, det_class_id = 1\<rparr>]" "1/2" 0]
    stable.score_sort_axioms by simp



text \<open>Decoding reads outside the tensor when the configured number of classes is too large.
  On a transposed output with at least one box, if \<open>4 + num_classes\<close> exceeds the number of rows,
  the class loop of the first box reads past the end: the code has undefined behaviour, although
  the shape of the tensor is known at that point.\<close>

lemma decode_yolo_reads_outside:
  assumes "pp_transposed cfg" and "length output = nat (rows * cols)" and "0 < cols" and "0 \<le> rows"
    and "rows < 4 + pp_num_classes cfg" and "0 < pp_num_classes cfg"
  shows "decode_yolo srt output rows cols lb cfg = None"
proof -
  have no: "\<not> yolo_has_obj rows cols cfg" using assms by (simp add: yolo_has_obj_def yolo_attrs_def)
  then have off: "yolo_cls_off rows cols cfg = 4" by (simp add: yolo_cls_off_def)
  have out: "yolo_at output (pp_transposed cfg) cols (int 0) (4 + int (nat (pp_num_classes cfg - 1))) = None"
  proof -
    have "rows \<le> 4 + (pp_num_classes cfg - 1)" using assms by simp
    then have "rows * cols \<le> (4 + (pp_num_classes cfg - 1)) * cols" using assms(3) by (intro mult_right_mono) auto
    then show ?thesis using assms by (auto simp: yolo_at_def nth_ub_def not_less nat_le_iff)
  qed
  have "best_class (\<lambda>c. yolo_at output (pp_transposed cfg) cols (int 0) (4 + c)) [0..<nat (pp_num_classes cfg)] (-1) 0 = None"
    by (rule best_class_undefined [of "nat (pp_num_classes cfg - 1)"]) (use assms out in auto)
  then have "decode_box output rows cols lb cfg 0 = None"
    using no by (auto simp: decode_box_def Let_def off split: option.splits)
  then show ?thesis
    using assms decode_boxes_undefined [of 0 "[0..<nat (yolo_num_boxes rows cols cfg)]"]
    by (simp add: decode_yolo_def yolo_num_boxes_def)
qed

end
