(* ===== verification/Letterbox.thy ===== *)
theory Letterbox
  imports Yolo_Postprocess "HOL-Library.Signed_Division"
begin

text \<open>
  The letterbox transform of the detector node (\<open>letterbox_bgr_to_nchw\<close> of
  \<open>src/edge-ai-detector-tensorrt-ros2/src/detector_node.cpp\<close>): a BGR8 frame is resized by nearest
  neighbour into the middle of an RGB planar float blob, the rest of the blob stays grey.

  The frame is the list of its bytes; a read or a write outside the list, a negative index and a
  float-to-int conversion out of the range of \<open>int\<close> are undefined behaviour (\<open>None\<close>). An
  empty source axis makes the scale infinite, which the arithmetic here does not represent: it is
  \<open>None\<close> too.
\<close>

subsection \<open>Definitions\<close>

text \<open>Conversion of a float to \<open>int\<close>.\<close>

definition float_to_int :: "rat \<Rightarrow> int option" where
  "float_to_int x = (if - (2 ^ 31) \<le> ftrunc x \<and> ftrunc x < 2 ^ 31 then Some (ftrunc x) else None)"

definition nth_int :: "'a list \<Rightarrow> int \<Rightarrow> 'a option" where
  "nth_int xs i = (if 0 \<le> i then nth_ub xs (nat i) else None)"

definition upd_int :: "'a list \<Rightarrow> int \<Rightarrow> 'a \<Rightarrow> 'a list option" where
  "upd_int xs i v = (if 0 \<le> i then upd_ub xs (nat i) v else None)"

text \<open>Scale, resized extent and padding.\<close>

definition letterbox_scale :: "int \<Rightarrow> int \<Rightarrow> int \<Rightarrow> int \<Rightarrow> rat" where
  "letterbox_scale src_w src_h dst_w dst_h =
     min (f32 (f32 (of_int dst_w) / f32 (of_int src_w))) (f32 (f32 (of_int dst_h) / f32 (of_int src_h)))"

definition letterbox_extent :: "int \<Rightarrow> rat \<Rightarrow> int option" where
  "letterbox_extent src scale = float_to_int (of_int (cround (f32 (f32 (of_int src) * scale))))"

definition letterbox_pad :: "int \<Rightarrow> int \<Rightarrow> int" where
  "letterbox_pad dst new = (dst - new) sdiv 2"

text \<open>Source coordinate of a resized coordinate.\<close>

definition letterbox_src :: "int \<Rightarrow> rat \<Rightarrow> nat \<Rightarrow> int option" where
  "letterbox_src src scale i =
     (let s = f32 (f32 (f32 (f32 (of_nat i) + 1/2) / scale) - 1/2)
      in case float_to_int s of None \<Rightarrow> None | Some k \<Rightarrow> Some (min (src - 1) (max 0 k)))"

definition letterbox_px :: "byte \<Rightarrow> rat" where
  "letterbox_px v = f32 (of_nat (unat v) / 255)"

text \<open>Body of the inner loop, for row \<open>y\<close> with the source row \<open>iy\<close>.\<close>

definition letterbox_pixel ::
  "byte list \<Rightarrow> int \<Rightarrow> int \<Rightarrow> letterbox_info \<Rightarrow> int \<Rightarrow> nat \<Rightarrow> int \<Rightarrow> nat \<Rightarrow> rat list \<Rightarrow> rat list option" where
  "letterbox_pixel bgr stride dst_w lb plane y iy x out =
     (case letterbox_src (lb_src_w lb) (lb_scale lb) x of None \<Rightarrow> None | Some ix \<Rightarrow>
      let px = iy * stride + ix * 3;
          orow = (int y + lb_pad_y lb) * dst_w + lb_pad_x lb in
      case nth_int bgr px of None \<Rightarrow> None | Some b \<Rightarrow>
      case nth_int bgr (px + 1) of None \<Rightarrow> None | Some g \<Rightarrow>
      case nth_int bgr (px + 2) of None \<Rightarrow> None | Some r \<Rightarrow>
      case upd_int out (orow + int x) (letterbox_px r) of None \<Rightarrow> None | Some out \<Rightarrow>
      case upd_int out (orow + int x + plane) (letterbox_px g) of None \<Rightarrow> None | Some out \<Rightarrow>
      upd_int out (orow + int x + 2 * plane) (letterbox_px b))"

definition letterbox_row ::
  "byte list \<Rightarrow> int \<Rightarrow> int \<Rightarrow> letterbox_info \<Rightarrow> int \<Rightarrow> int \<Rightarrow> nat \<Rightarrow> rat list \<Rightarrow> rat list option" where
  "letterbox_row bgr stride dst_w lb plane new_w y out =
     (case letterbox_src (lb_src_h lb) (lb_scale lb) y of None \<Rightarrow> None | Some iy \<Rightarrow>
      for_each (letterbox_pixel bgr stride dst_w lb plane y iy) [0..<nat new_w] out)"

definition letterbox_bgr_to_nchw ::
  "byte list \<Rightarrow> int \<Rightarrow> int \<Rightarrow> int \<Rightarrow> int \<Rightarrow> int \<Rightarrow> (letterbox_info \<times> rat list) option" where
  "letterbox_bgr_to_nchw bgr src_w src_h stride dst_w dst_h =
     (if src_w = 0 \<or> src_h = 0 then None else
      let scale = letterbox_scale src_w src_h dst_w dst_h in
      case letterbox_extent src_w scale of None \<Rightarrow> None | Some new_w \<Rightarrow>
      case letterbox_extent src_h scale of None \<Rightarrow> None | Some new_h \<Rightarrow>
      let lb = \<lparr>lb_scale = scale, lb_pad_x = letterbox_pad dst_w new_w, lb_pad_y = letterbox_pad dst_h new_h,
                lb_src_w = src_w, lb_src_h = src_h\<rparr>;
          out = replicate (nat (3 * dst_w * dst_h)) (1/2);
          plane = dst_w * dst_h in
      case for_each (letterbox_row bgr stride dst_w lb plane new_w) [0..<nat new_h] out of
        None \<Rightarrow> None | Some out \<Rightarrow> Some (lb, out))"

subsection \<open>Geometry\<close>

text \<open>Largest image axis the geometry lemmas cover.\<close>

abbreviation axis_ok :: "int \<Rightarrow> bool" where
  "axis_ok n \<equiv> 1 \<le> n \<and> n \<le> 2 ^ 20"

lemma f32_axis: "axis_ok n \<Longrightarrow> f32 (of_int n) = of_int n"
  by (rule f32.rnd_int) simp

lemma f32_tiny: "f32 (1 / 1048576) = 1 / 1048576"
  by code_simp

lemma powi_tiny: "(2::rat) powi (-126) \<le> 1 / 2 ^ 20"
proof -
  have "(1::rat) / 2 ^ 20 = 2 powi (-20)" by code_simp
  then show ?thesis using powi2_mono [of "-126" "-20"] by (simp only: numeral_le_iff neg_le_iff_le) simp
qed

lemma rel_error_upper:
  assumes "1 / 2 ^ 20 \<le> x"
  shows "f32 x \<le> x * (1 + 1 / 2 ^ 24)"
proof -
  have x: "0 \<le> x" using assms by (rule order_trans [rotated]) simp
  have "\<bar>f32 x - x\<bar> \<le> \<bar>x\<bar> / 2 ^ 24"
    using x order_trans [OF powi_tiny assms] by (intro f32_rel_error) simp
  then show ?thesis using x abs_ge_self [of "f32 x - x"] by (simp add: distrib_left)
qed

lemma axis_quot_ge: "axis_ok a \<Longrightarrow> axis_ok b \<Longrightarrow> (1::rat) / 2 ^ 20 \<le> of_int a / of_int b"
proof -
  assume a: "axis_ok a" and b: "axis_ok b"
  have "(of_int b :: rat) \<le> 2 ^ 20 * 1" using b of_int_le_iff [of b "2 ^ 20", where 'a = rat] by simp
  also have "\<dots> \<le> 2 ^ 20 * of_int a" using a by (intro mult_left_mono) auto
  finally show ?thesis using b by (simp add: field_simps)
qed

lemma scale_pos:
  assumes "axis_ok src_w" "axis_ok src_h" "axis_ok dst_w" "axis_ok dst_h"
  shows "1 / 2 ^ 20 \<le> letterbox_scale src_w src_h dst_w dst_h"
  using assms f32.rnd_mono [OF axis_quot_ge [of dst_w src_w]] f32.rnd_mono [OF axis_quot_ge [of dst_h src_h]] f32_tiny
  by (simp add: letterbox_scale_def f32_axis)

lemma f32_le_above:
  assumes "x \<le> of_int n * (1 + 1 / 2 ^ 24)" "axis_ok n"
  shows "f32 x < of_int n + 1/2"
proof -
  define u :: rat where "u = of_int n * (1 + 1 / 2 ^ 24)"
  have n: "1 \<le> (of_int n :: rat)" "(of_int n :: rat) \<le> 2 ^ 20"
    using assms(2) of_int_le_iff [of n "2 ^ 20", where 'a = rat] by auto
  then have "f32 u \<le> u * (1 + 1 / 2 ^ 24)" by (intro rel_error_upper) (simp add: u_def)
  moreover have "u * (1 + 1 / 2 ^ 24) < of_int n + 1/2" using n by (simp add: u_def)
  moreover have "f32 x \<le> f32 u" using assms(1) by (intro f32.rnd_mono) (simp add: u_def)
  ultimately show ?thesis by linarith
qed

text \<open>The scale times a source axis never exceeds the destination axis by more than rounding.\<close>

lemma scale_quot:
  assumes "axis_ok src" "axis_ok dst" "scale \<le> f32 (f32 (of_int dst) / f32 (of_int src))"
  shows "of_int src * scale \<le> of_int dst * (1 + 1 / 2 ^ 24)"
proof -
  define q :: rat where "q = of_int dst / of_int src"
  have q: "1 / 2 ^ 20 \<le> q" unfolding q_def using assms by (intro axis_quot_ge) auto
  then have "f32 q \<le> q * (1 + 1 / 2 ^ 24)" by (rule rel_error_upper)
  then have "scale \<le> q * (1 + 1 / 2 ^ 24)" using assms by (simp add: q_def f32_axis)
  then have "of_int src * scale \<le> of_int src * (q * (1 + 1 / 2 ^ 24))" using assms by (intro mult_left_mono) auto
  also have "\<dots> = of_int dst * (1 + 1 / 2 ^ 24)" using assms by (simp add: q_def)
  finally show ?thesis .
qed

lemma extent_bounds:
  assumes "axis_ok src" "axis_ok dst" "1 / 2 ^ 20 \<le> scale" "scale \<le> f32 (f32 (of_int dst) / f32 (of_int src))"
  shows "\<exists>n. letterbox_extent src scale = Some n \<and> 0 \<le> n \<and> n \<le> dst \<and> of_int n - 1/2 \<le> f32 (of_int src * scale)"
proof -
  define v where "v = f32 (of_int src * scale)"
  have "0 \<le> of_int src * scale" using assms by (intro mult_nonneg_nonneg order_trans [OF _ assms(3)]) auto
  then have "0 \<le> v" unfolding v_def by (rule f32.rnd_nonneg)
  moreover have "v < of_int dst + 1/2"
    unfolding v_def using scale_quot [OF assms(1,2,4)] assms(2) by (rule f32_le_above)
  ultimately have r: "0 \<le> cround v" "cround v \<le> dst" "of_int (cround v) - 1/2 \<le> v"
    using cround_le [of v dst] cround_ge [of 0 v] assms(2) by (auto simp: cround_def) linarith
  then have "float_to_int (of_int (cround v)) = Some (cround v)"
    using assms(2) by (auto simp: float_to_int_def ftrunc_def)
  then show ?thesis using r assms(1) by (simp add: letterbox_extent_def f32_axis v_def)
qed

lemma letterbox_src_in:
  assumes "axis_ok src" "1 / 2 ^ 20 \<le> scale" "of_nat i + 1/2 \<le> f32 (of_int src * scale)" "i < 2 ^ 20"
  shows "\<exists>k. letterbox_src src scale i = Some k \<and> 0 \<le> k \<and> k < src"
proof -
  define R where "R = f32 (of_int src * scale)"
  have sc: "0 < scale" using assms(2) by (rule less_le_trans [rotated]) simp
  have "1 * (1 / 2 ^ 20) \<le> of_int src * scale" using assms by (intro mult_mono) auto
  then have "R \<le> of_int src * (1 + 1 / 2 ^ 24) * scale"
    unfolding R_def using rel_error_upper [of "of_int src * scale"] by (simp add: mult_ac)
  then have quot: "R / scale \<le> of_int src * (1 + 1 / 2 ^ 24)" using sc by (simp add: divide_le_eq)
  have "f32 (of_nat i) = of_nat i" using f32.rnd_int [of "int i"] assms(4) by simp
  then have "f32 (f32 (of_nat i) + 1/2) \<le> R" using f32.rnd_mono [OF assms(3)] by (simp add: R_def f32.rnd_idem)
  then have "f32 (f32 (of_nat i) + 1/2) / scale \<le> of_int src * (1 + 1 / 2 ^ 24)"
    using quot sc by (meson divide_right_mono less_imp_le order_trans)
  then have hi: "f32 (f32 (f32 (of_nat i) + 1/2) / scale) < of_int src + 1/2" using assms(1) by (rule f32_le_above)
  have lo: "0 \<le> f32 (f32 (f32 (of_nat i) + 1/2) / scale)"
    using sc f32.rnd_nonneg [of "of_nat i"] by (intro f32.rnd_nonneg divide_nonneg_pos) auto
  define s where "s = f32 (f32 (f32 (f32 (of_nat i) + 1/2) / scale) - 1/2)"
  have "s \<le> of_int src" unfolding s_def using hi assms(1) by (intro f32.rnd_le_int) auto
  moreover have "of_int (-1) \<le> s" unfolding s_def using lo by (intro f32.rnd_ge_int) auto
  ultimately have "ftrunc s \<le> src \<and> -1 \<le> ftrunc s"
    using ftrunc_mono [of s "of_int src"] ftrunc_mono [of "of_int (-1)" s] unfolding ftrunc_of_int by blast
  then have "float_to_int s = Some (ftrunc s)" using assms(1) by (auto simp: float_to_int_def)
  then show ?thesis using assms(1) by (auto simp: letterbox_src_def Let_def s_def [symmetric])
qed

subsection \<open>The painted blob\<close>

text \<open>Index of channel \<open>c\<close>, row \<open>Y\<close>, column \<open>X\<close> in a planar blob of \<open>W * H\<close> pixels.\<close>

definition nchw_idx :: "nat \<Rightarrow> nat \<Rightarrow> nat \<Rightarrow> nat \<Rightarrow> nat \<Rightarrow> nat" where
  "nchw_idx W H c Y X = c * (W * H) + Y * W + X"

lemma row_idx_less: "Y < H \<Longrightarrow> X < W \<Longrightarrow> Y * W + X < W * (H::nat)"
proof -
  assume "Y < H" "X < W"
  then have "Y * W + X < Suc Y * W" by simp
  also have "\<dots> \<le> H * W" using \<open>Y < H\<close> by (intro mult_right_mono) auto
  finally show ?thesis by (simp add: mult.commute)
qed

lemma mixed_radix_inj:
  fixes W :: nat
  assumes "a * W + x = b * W + y" "x < W" "y < W"
  shows "a = b \<and> x = y"
proof -
  have "(a * W + x) div W = (b * W + y) div W" "(a * W + x) mod W = (b * W + y) mod W" using assms(1) by simp_all
  then show ?thesis using assms(2,3) by simp
qed

lemma nchw_idx_inj:
  assumes "nchw_idx W H c Y X = nchw_idx W H c' Y' X'" "X < W" "X' < W" "Y < H" "Y' < H"
  shows "c = c' \<and> Y = Y' \<and> X = X'"
proof -
  have "c * (W * H) + (Y * W + X) = c' * (W * H) + (Y' * W + X')" using assms(1) by (simp add: nchw_idx_def)
  then have "c = c' \<and> Y * W + X = Y' * W + X'" using assms row_idx_less by (intro mixed_radix_inj) auto
  then show ?thesis using mixed_radix_inj assms(2,3) by blast
qed

lemma nchw_idx_eq_iff:
  "X < W \<Longrightarrow> X' < W \<Longrightarrow> Y < H \<Longrightarrow> Y' < H \<Longrightarrow>
   nchw_idx W H c Y X = nchw_idx W H c' Y' X' \<longleftrightarrow> c = c' \<and> Y = Y' \<and> X = X'"
  using nchw_idx_inj by blast

lemma nchw_idx_less: "c < 3 \<Longrightarrow> Y < H \<Longrightarrow> X < W \<Longrightarrow> nchw_idx W H c Y X < 3 * (W * H)"
proof -
  assume "c < 3" "Y < H" "X < W"
  then have "c * (W * H) + (Y * W + X) < Suc c * (W * H)" using row_idx_less by simp
  also have "\<dots> \<le> 3 * (W * H)" using \<open>c < 3\<close> by (intro mult_right_mono) auto
  finally show ?thesis by (simp add: nchw_idx_def)
qed

text \<open>A blob in which exactly the resized pixels \<open>P\<close> are painted with \<open>val\<close>.\<close>

definition painted :: "nat \<Rightarrow> nat \<Rightarrow> nat \<Rightarrow> nat \<Rightarrow> (nat \<Rightarrow> nat \<Rightarrow> nat \<Rightarrow> rat) \<Rightarrow> (nat \<times> nat) set \<Rightarrow> rat list \<Rightarrow> bool" where
  "painted W H px py val P out \<longleftrightarrow> length out = 3 * (W * H) \<and>
     (\<forall>c < 3. \<forall>Y < H. \<forall>X < W. out ! nchw_idx W H c Y X =
        (if py \<le> Y \<and> px \<le> X \<and> (Y - py, X - px) \<in> P then val c (Y - py) (X - px) else 1/2))"

lemma painted_replicate: "painted W H px py val {} (replicate (3 * (W * H)) (1/2))"
  by (simp add: painted_def nchw_idx_less)

lemma painted_nth: "painted W H px py val P out \<Longrightarrow> c < 3 \<Longrightarrow> Y < H \<Longrightarrow> X < W \<Longrightarrow>
    out ! nchw_idx W H c Y X = (if py \<le> Y \<and> px \<le> X \<and> (Y - py, X - px) \<in> P then val c (Y - py) (X - px) else 1/2)"
  by (simp add: painted_def)

lemma painted_step:
  assumes "painted W H px py val P out" "y + py < H" "x + px < W"
  shows "painted W H px py val (insert (y, x) P)
     (out[nchw_idx W H 0 (y + py) (x + px) := val 0 y x, nchw_idx W H 1 (y + py) (x + px) := val 1 y x,
          nchw_idx W H 2 (y + py) (x + px) := val 2 y x])"
proof -
  have len: "length out = 3 * (W * H)" using assms(1) by (simp add: painted_def)
  have "out[nchw_idx W H 0 (y + py) (x + px) := val 0 y x, nchw_idx W H 1 (y + py) (x + px) := val 1 y x,
          nchw_idx W H 2 (y + py) (x + px) := val 2 y x] ! nchw_idx W H c Y X
      = (if py \<le> Y \<and> px \<le> X \<and> (Y - py, X - px) \<in> insert (y, x) P then val c (Y - py) (X - px) else 1/2)"
    if c: "c < 3" "Y < H" "X < W" for c Y X
  proof (cases "Y = y + py \<and> X = x + px")
    case True
    have "c = 0 \<or> c = 1 \<or> c = 2" using c(1) by linarith
    then show ?thesis using True assms(2,3) len
      by (elim disjE) (simp_all add: nth_list_update nchw_idx_eq_iff nchw_idx_less)
  next
    case False
    then have "(Y - py, X - px) \<noteq> (y, x) \<or> \<not> (py \<le> Y \<and> px \<le> X)" by auto
    then show ?thesis
      using False c assms(2,3) painted_nth [OF assms(1) c] by (auto simp: nth_list_update_neq nchw_idx_eq_iff)
  qed
  then show ?thesis using len by (simp add: painted_def)
qed

text \<open>The sample that channel \<open>c\<close> (0 red, 1 green, 2 blue) of the resized pixel \<open>(y, x)\<close> shows.\<close>

definition resized_sample :: "byte list \<Rightarrow> int \<Rightarrow> letterbox_info \<Rightarrow> nat \<Rightarrow> nat \<Rightarrow> nat \<Rightarrow> rat" where
  "resized_sample bgr stride lb c y x =
     (let iy = the (letterbox_src (lb_src_h lb) (lb_scale lb) y); ix = the (letterbox_src (lb_src_w lb) (lb_scale lb) x)
      in letterbox_px (bgr ! nat (iy * stride + ix * 3 + 2 - int c)))"

text \<open>The frame holds every pixel of \<open>src_w\<close> by \<open>src_h\<close> with the given stride.\<close>

definition frame_holds :: "byte list \<Rightarrow> int \<Rightarrow> int \<Rightarrow> int \<Rightarrow> bool" where
  "frame_holds bgr src_w src_h stride \<longleftrightarrow>
     3 * src_w \<le> stride \<and> (src_h - 1) * stride + 3 * src_w \<le> int (length bgr)"

lemma frame_holds_idx:
  assumes "frame_holds bgr src_w src_h stride" "0 \<le> iy" "iy < src_h" "0 \<le> ix" "ix < src_w"
  shows "0 \<le> iy * stride + ix * 3 \<and> iy * stride + ix * 3 + 2 < int (length bgr)"
proof -
  have "0 \<le> stride" using assms by (simp add: frame_holds_def)
  then have "iy * stride \<le> (src_h - 1) * stride" "0 \<le> iy * stride" using assms by (auto intro: mult_right_mono)
  then show ?thesis using assms unfolding frame_holds_def by linarith
qed

lemma nchw_idx_int:
  "(int y + int py) * int W + int px + int x = int (nchw_idx W H 0 (y + py) (x + px))"
  by (simp add: nchw_idx_def algebra_simps)

lemma nchw_idx_plane:
  "int (nchw_idx W H 0 Y X) + int W * int H = int (nchw_idx W H 1 Y X)"
  "int (nchw_idx W H 0 Y X) + 2 * (int W * int H) = int (nchw_idx W H 2 Y X)"
  by (simp_all add: nchw_idx_def)

lemma letterbox_pixel_paints:
  assumes "frame_holds bgr (lb_src_w lb) (lb_src_h lb) stride"
    and "letterbox_src (lb_src_h lb) (lb_scale lb) y = Some iy" "0 \<le> iy" "iy < lb_src_h lb"
    and "letterbox_src (lb_src_w lb) (lb_scale lb) x = Some ix" "0 \<le> ix" "ix < lb_src_w lb"
    and "lb_pad_x lb = int px" "lb_pad_y lb = int py" "y + py < H" "x + px < W"
    and "painted W H px py (resized_sample bgr stride lb) P out"
  shows "\<exists>out'. letterbox_pixel bgr stride (int W) lb (int W * int H) y iy x out = Some out' \<and>
     painted W H px py (resized_sample bgr stride lb) (insert (y, x) P) out'"
proof -
  define b where "b = iy * stride + ix * 3"
  have b: "0 \<le> b" "b + 2 < int (length bgr)"
    using frame_holds_idx [OF assms(1) assms(3,4) assms(6,7)] by (auto simp: b_def)
  then have rd: "nth_int bgr b = Some (bgr ! nat b)" "nth_int bgr (b + 1) = Some (bgr ! nat (b + 1))"
      "nth_int bgr (b + 2) = Some (bgr ! nat (b + 2))"
    by (auto simp: nth_int_def nth_ub_def)
  have val: "resized_sample bgr stride lb 0 y x = letterbox_px (bgr ! nat (b + 2))"
    "resized_sample bgr stride lb 1 y x = letterbox_px (bgr ! nat (b + 1))"
    "resized_sample bgr stride lb 2 y x = letterbox_px (bgr ! nat b)"
    using assms(2,5) by (simp_all add: resized_sample_def b_def add_ac)
  have len: "length out = 3 * (W * H)" using assms(12) by (simp add: painted_def)
  have wr: "upd_int o' (int (nchw_idx W H c (y + py) (x + px))) v = Some (o'[nchw_idx W H c (y + py) (x + px) := v])"
    if "c < 3" "length o' = length out" for c v and o' :: "rat list"
    using that assms(10,11) len by (simp add: upd_int_def nchw_idx_less)
  show ?thesis
    using painted_step [OF assms(12,10,11)]
    by (simp add: letterbox_pixel_def Let_def assms(5,8,9) b_def [symmetric] rd nchw_idx_int [of y py W px x H]
        nchw_idx_plane wr val del: One_nat_def)
qed

lemma for_each_induct:
  assumes "\<And>k s. k < n \<Longrightarrow> I k s \<Longrightarrow> \<exists>t. f k s = Some t \<and> I (Suc k) t" and "I 0 s"
  shows "\<exists>t. for_each f [0..<n] s = Some t \<and> I n t"
proof -
  have "m \<le> n \<Longrightarrow> \<exists>t. for_each f [0..<m] s = Some t \<and> I m t" for m
  proof (induction m)
    case (Suc m)
    then obtain t where t: "for_each f [0..<m] s = Some t" "I m t" by auto
    then obtain u where "f m t = Some u" "I (Suc m) u" using assms(1) [of m t] Suc.prems by auto
    with t show ?case by (simp add: for_each_append)
  qed (use assms(2) in simp)
  then show ?thesis by simp
qed

lemma letterbox_row_paints:
  assumes "frame_holds bgr (lb_src_w lb) (lb_src_h lb) stride"
    and "letterbox_src (lb_src_h lb) (lb_scale lb) y = Some iy" "0 \<le> iy" "iy < lb_src_h lb"
    and "\<And>x. x < nw \<Longrightarrow> \<exists>k. letterbox_src (lb_src_w lb) (lb_scale lb) x = Some k \<and> 0 \<le> k \<and> k < lb_src_w lb"
    and "lb_pad_x lb = int px" "lb_pad_y lb = int py" "y + py < H" "nw + px \<le> W"
    and "painted W H px py (resized_sample bgr stride lb) P out"
  shows "\<exists>out'. letterbox_row bgr stride (int W) lb (int W * int H) (int nw) y out = Some out' \<and>
     painted W H px py (resized_sample bgr stride lb) (P \<union> {y} \<times> {..<nw}) out'"
proof -
  let ?I = "\<lambda>n. painted W H px py (resized_sample bgr stride lb) (P \<union> {y} \<times> {..<n})"
  have "\<exists>t. letterbox_pixel bgr stride (int W) lb (int W * int H) y iy k s = Some t \<and> ?I (Suc k) t"
    if k: "k < nw" "?I k s" for k s
  proof -
    obtain ix where "letterbox_src (lb_src_w lb) (lb_scale lb) k = Some ix" "0 \<le> ix" "ix < lb_src_w lb"
      using assms(5) [OF k(1)] by blast
    moreover have "P \<union> {y} \<times> {..<Suc k} = insert (y, k) (P \<union> {y} \<times> {..<k})" by auto
    ultimately show ?thesis
      using letterbox_pixel_paints [OF assms(1-4) _ _ _ assms(6,7,8) _ k(2)] assms(9) k(1) by simp
  qed
  moreover have "?I 0 out" using assms(10) by simp
  ultimately have "\<exists>t. for_each (letterbox_pixel bgr stride (int W) lb (int W * int H) y iy) [0..<nw] out = Some t \<and> ?I nw t"
    by (rule for_each_induct)
  then show ?thesis by (simp add: letterbox_row_def assms(2))
qed

lemma letterbox_pad_fits:
  assumes "0 \<le> n" "n \<le> dst"
  shows "letterbox_pad dst n = (dst - n) div 2" "0 \<le> letterbox_pad dst n" "letterbox_pad dst n + n \<le> dst"
  using assms by (auto simp: letterbox_pad_def signed_divide_int_def sgn_if)

lemma letterbox_rows_paint:
  assumes "frame_holds bgr (lb_src_w lb) (lb_src_h lb) stride"
    and "\<And>y. y < nh \<Longrightarrow> \<exists>k. letterbox_src (lb_src_h lb) (lb_scale lb) y = Some k \<and> 0 \<le> k \<and> k < lb_src_h lb"
    and "\<And>x. x < nw \<Longrightarrow> \<exists>k. letterbox_src (lb_src_w lb) (lb_scale lb) x = Some k \<and> 0 \<le> k \<and> k < lb_src_w lb"
    and "lb_pad_x lb = int px" "lb_pad_y lb = int py" "nh + py \<le> H" "nw + px \<le> W"
  shows "\<exists>out. for_each (letterbox_row bgr stride (int W) lb (int W * int H) (int nw)) [0..<nh]
       (replicate (3 * (W * H)) (1/2)) = Some out \<and>
     painted W H px py (resized_sample bgr stride lb) ({..<nh} \<times> {..<nw}) out"
proof -
  let ?I = "\<lambda>n. painted W H px py (resized_sample bgr stride lb) ({..<n} \<times> {..<nw})"
  have "\<exists>t. letterbox_row bgr stride (int W) lb (int W * int H) (int nw) k s = Some t \<and> ?I (Suc k) t"
    if k: "k < nh" "?I k s" for k s
  proof -
    obtain iy where "letterbox_src (lb_src_h lb) (lb_scale lb) k = Some iy" "0 \<le> iy" "iy < lb_src_h lb"
      using assms(2) [OF k(1)] by blast
    moreover have "{..<Suc k} \<times> {..<nw} = {..<k} \<times> {..<nw} \<union> {k} \<times> {..<nw}" by auto
    ultimately show ?thesis
      using letterbox_row_paints [OF assms(1) _ _ _ assms(3-5) _ assms(7) k(2)] assms(6) k(1) by simp
  qed
  moreover have "?I 0 (replicate (3 * (W * H)) (1/2))" using painted_replicate by simp
  ultimately show ?thesis by (rule for_each_induct)
qed

lemma painted_rect:
  assumes "painted W H (nat a) (nat b) val ({..<nat nh} \<times> {..<nat nw}) out"
    and "0 \<le> a" "0 \<le> b" "0 \<le> nw" "0 \<le> nh" "c < 3" "Y < H" "X < W"
  shows "out ! nchw_idx W H c Y X =
    (if nat b \<le> Y \<and> Y < nat (b + nh) \<and> nat a \<le> X \<and> X < nat (a + nw) then val c (Y - nat b) (X - nat a) else 1/2)"
proof -
  have "(nat b \<le> Y \<and> nat a \<le> X \<and> (Y - nat b, X - nat a) \<in> {..<nat nh} \<times> {..<nat nw}) =
    (nat b \<le> Y \<and> Y < nat (b + nh) \<and> nat a \<le> X \<and> X < nat (a + nw))"
    using assms(2-5) by (simp add: nat_add_distrib) linarith
  then show ?thesis unfolding painted_nth [OF assms(1,6-8)] by (simp only:)
qed

text \<open>The whole transform.\<close>

lemma letterbox_painted:
  assumes "axis_ok src_w" "axis_ok src_h" "axis_ok dst_w" "axis_ok dst_h" "frame_holds bgr src_w src_h stride"
  shows "\<exists>lb out nw nh.
     letterbox_bgr_to_nchw bgr src_w src_h stride dst_w dst_h = Some (lb, out)
   \<and> 0 < lb_scale lb \<and> lb_src_w lb = src_w \<and> lb_src_h lb = src_h
   \<and> letterbox_extent src_w (lb_scale lb) = Some nw \<and> 0 \<le> nw \<and> nw \<le> dst_w \<and> lb_pad_x lb = (dst_w - nw) div 2
   \<and> letterbox_extent src_h (lb_scale lb) = Some nh \<and> 0 \<le> nh \<and> nh \<le> dst_h \<and> lb_pad_y lb = (dst_h - nh) div 2
   \<and> length out = nat (3 * dst_w * dst_h)
   \<and> (\<forall>c < 3. \<forall>Y < nat dst_h. \<forall>X < nat dst_w. out ! nchw_idx (nat dst_w) (nat dst_h) c Y X =
        (if nat (lb_pad_y lb) \<le> Y \<and> Y < nat (lb_pad_y lb + nh) \<and> nat (lb_pad_x lb) \<le> X \<and> X < nat (lb_pad_x lb + nw)
         then resized_sample bgr stride lb c (Y - nat (lb_pad_y lb)) (X - nat (lb_pad_x lb)) else 1/2))"
proof -
  define sc where "sc = letterbox_scale src_w src_h dst_w dst_h"
  have sc: "1 / 2 ^ 20 \<le> sc" unfolding sc_def using assms by (intro scale_pos) auto
  have sc0: "0 < sc" using sc by (rule less_le_trans [rotated]) simp
  have le: "sc \<le> f32 (f32 (of_int dst_w) / f32 (of_int src_w))" "sc \<le> f32 (f32 (of_int dst_h) / f32 (of_int src_h))"
    by (simp_all add: sc_def letterbox_scale_def)
  obtain nw where nw: "letterbox_extent src_w sc = Some nw" "0 \<le> nw" "nw \<le> dst_w" "of_int nw - 1/2 \<le> f32 (of_int src_w * sc)"
    using extent_bounds [OF assms(1,3) sc le(1)] by blast
  obtain nh where nh: "letterbox_extent src_h sc = Some nh" "0 \<le> nh" "nh \<le> dst_h" "of_int nh - 1/2 \<le> f32 (of_int src_h * sc)"
    using extent_bounds [OF assms(2,4) sc le(2)] by blast
  define lb where "lb = \<lparr>lb_scale = sc, lb_pad_x = letterbox_pad dst_w nw, lb_pad_y = letterbox_pad dst_h nh,
      lb_src_w = src_w, lb_src_h = src_h\<rparr>"
  define px where "px = nat (lb_pad_x lb)"
  define py where "py = nat (lb_pad_y lb)"
  note fits = letterbox_pad_fits [OF nw(2,3)] letterbox_pad_fits [OF nh(2,3)]
  have src: "\<exists>k. letterbox_src s sc i = Some k \<and> 0 \<le> k \<and> k < s"
    if "axis_ok s" "i < nat n" "of_int n - 1/2 \<le> f32 (of_int s * sc)" "n \<le> 2 ^ 20" for s i n
  proof -
    have "int i + 1 \<le> n" using that(2) by linarith
    then have "of_nat i + 1 \<le> (of_int n :: rat)" by (metis of_int_1 of_int_add of_int_le_iff of_int_of_nat_eq)
    then show ?thesis using that sc by (intro letterbox_src_in) auto
  qed
  have room: "nat nh + py \<le> nat dst_h" "nat nw + px \<le> nat dst_w"
    using fits(2,3,5,6) nw(2,3) nh(2,3) by (simp_all add: px_def py_def lb_def nat_add_distrib [symmetric])
  obtain out where out: "for_each (letterbox_row bgr stride (int (nat dst_w)) lb (int (nat dst_w) * int (nat dst_h)) (int (nat nw)))
       [0..<nat nh] (replicate (3 * (nat dst_w * nat dst_h)) (1/2)) = Some out"
    and pt: "painted (nat dst_w) (nat dst_h) px py (resized_sample bgr stride lb) ({..<nat nh} \<times> {..<nat nw}) out"
    using letterbox_rows_paint [of bgr lb stride "nat nh" "nat nw" px py "nat dst_h" "nat dst_w"]
      src [OF assms(1) _ nw(4)] src [OF assms(2) _ nh(4)] assms room fits(2,5) nw(3) nh(3)
    by (auto simp: lb_def px_def py_def)
  have cnt: "nat (3 * dst_w * dst_h) = 3 * (nat dst_w * nat dst_h)" using assms by (simp add: nat_mult_distrib)
  have run: "letterbox_bgr_to_nchw bgr src_w src_h stride dst_w dst_h = Some (lb, out)"
    using assms(1-4) nw(1,2) nh(1,2) out
    by (simp add: letterbox_bgr_to_nchw_def Let_def sc_def [symmetric] lb_def [symmetric] cnt)
  have pads: "0 \<le> lb_pad_x lb" "0 \<le> lb_pad_y lb" "lb_pad_x lb = (dst_w - nw) div 2" "lb_pad_y lb = (dst_h - nh) div 2"
    using fits by (simp_all add: lb_def)
  have pts: "out ! nchw_idx (nat dst_w) (nat dst_h) c Y X =
        (if nat (lb_pad_y lb) \<le> Y \<and> Y < nat (lb_pad_y lb + nh) \<and> nat (lb_pad_x lb) \<le> X \<and> X < nat (lb_pad_x lb + nw)
         then resized_sample bgr stride lb c (Y - nat (lb_pad_y lb)) (X - nat (lb_pad_x lb)) else 1/2)"
    if "c < 3" "Y < nat dst_h" "X < nat dst_w" for c Y X
    using painted_rect [OF pt [unfolded px_def py_def] pads(1,2) nw(2) nh(2) that] .
  have fin: "length out = nat (3 * dst_w * dst_h)" "0 < lb_scale lb" "lb_src_w lb = src_w" "lb_src_h lb = src_h"
    "letterbox_extent src_w (lb_scale lb) = Some nw" "letterbox_extent src_h (lb_scale lb) = Some nh"
    using pt cnt sc0 nw(1) nh(1) by (simp_all add: lb_def painted_def)
  show ?thesis
    by (intro exI [of _ lb] exI [of _ out] exI [of _ nw] exI [of _ nh] conjI allI impI pts run fin pads nw(2,3) nh(2,3))
qed

subsection \<open>Property\<close>



end
