(* ===== verification/Can_Frame.thy ===== *)
theory Can_Frame
  imports Floats
begin

text \<open>
  What the two SocketCAN parts of the repository share: the \<open>can_frame\<close> of the kernel interface,
  the answers of the kernel to the calls that open a raw socket, and the packing of 16-bit fields
  into bytes, most significant first.
\<close>

subsection \<open>Definitions\<close>

record can_frame =
  cf_id :: u32
  cf_dlc :: byte
  cf_data :: "byte list"

record can_sys =
  sys_socket :: int
  sys_ifindex :: "string \<Rightarrow> int option"
  sys_bind :: "int \<Rightarrow> bool"

text \<open>\<open>strncpy\<close> into the zeroed \<open>ifr_name\<close> keeps at most \<open>IFNAMSIZ - 1\<close> characters.\<close>

definition ifr_name :: "string \<Rightarrow> string" where
  "ifr_name s = take 15 s"

subsection \<open>Byte packing\<close>

lemma u16_split [codec_simps]:
  "256 * unat (ucast (drop_bit 8 w) :: byte) + unat (ucast (and w 0xff) :: byte) = unat (w :: u16)"
proof -
  have "and w 0xff = take_bit 8 w" by (simp add: take_bit_eq_mask mask_eq_exp_minus_1)
  then have lo: "unat (ucast (and w 0xff) :: byte) = unat w mod 256"
    by (simp only: unsigned_ucast_eq unsigned_take_bit_eq) (simp add: take_bit_eq_mod)
  have "unat w div 256 < 256" using unsigned_less [of w, where 'a = nat] by (simp add: less_mult_imp_div_less)
  then have "unat (ucast (drop_bit 8 w) :: byte) = unat w div 256"
    by (simp only: unsigned_ucast_eq unsigned_drop_bit_eq) (simp add: drop_bit_eq_div take_bit_eq_mod)
  with lo show ?thesis by simp
qed

lemma unat_word_of_int_small: "0 \<le> k \<Longrightarrow> k < 2 ^ LENGTH('a) \<Longrightarrow> unat (word_of_int k :: 'a::len word) = nat k"
  by (simp add: unsigned_of_int take_bit_int_eq_self)

end
