(* ===== verification/Socketcan_Publisher.thy ===== *)
theory Socketcan_Publisher
  imports Yolo_Postprocess Can_Frame
begin

text \<open>
  Detection telemetry over SocketCAN (\<open>socketcan_publisher.hpp\<close> and \<open>socketcan_publisher.cpp\<close>
  of \<open>src/edge-ai-detector-tensorrt-ros2\<close>).

  The kernel is a parameter: \<open>can_sys\<close> holds the results of \<open>socket\<close>, of the
  \<open>SIOCGIFINDEX\<close> request for an interface name and of \<open>bind\<close> to an interface index, and
  \<open>publish\<close> takes the result of each \<open>write\<close>. The model keeps the set of descriptors the process
  has open, so that a leaked or doubly closed descriptor is visible. \<open>can_decode\<close> is the receiver's
  reading of the frame layout documented in the header file.
\<close>

subsection \<open>Definitions\<close>

record can_publisher =
  cp_iface :: string
  cp_base_id :: u32
  cp_fd :: int

definition can_new :: "string \<Rightarrow> u32 \<Rightarrow> can_publisher" where
  "can_new iface base_id = \<lparr>cp_iface = iface, cp_base_id = base_id, cp_fd = -1\<rparr>"

definition can_is_open :: "can_publisher \<Rightarrow> bool" where
  "can_is_open p \<longleftrightarrow> 0 \<le> cp_fd p"

text \<open>Destructor: the descriptors left open.\<close>

definition can_destroy :: "can_publisher \<Rightarrow> int set \<Rightarrow> int set" where
  "can_destroy p fds = (if 0 \<le> cp_fd p then fds - {cp_fd p} else fds)"

definition can_open :: "can_sys \<Rightarrow> can_publisher \<Rightarrow> int set \<Rightarrow> bool \<times> can_publisher \<times> int set" where
  "can_open sys p fds =
     (let fd = sys_socket sys in
      if fd < 0 then (False, p\<lparr>cp_fd := fd\<rparr>, fds)
      else case sys_ifindex sys (ifr_name (cp_iface p)) of
        None \<Rightarrow> (False, p\<lparr>cp_fd := -1\<rparr>, insert fd fds - {fd})
      | Some ix \<Rightarrow>
          if \<not> sys_bind sys ix then (False, p\<lparr>cp_fd := -1\<rparr>, insert fd fds - {fd})
          else (True, p\<lparr>cp_fd := fd\<rparr>, insert fd fds))"

text \<open>\<open>std::clamp(v, 0.f, 1.f)\<close>.\<close>

definition clamp01 :: "rat \<Rightarrow> rat" where
  "clamp01 v = (if v < 0 then 0 else if 1 < v then 1 else v)"

definition can_center :: "rat \<Rightarrow> rat \<Rightarrow> int \<Rightarrow> rat" where
  "can_center pos len ext = f32 (f32 (pos + f32 (len * (1/2))) / f32 (of_int ext))"

definition can_norm :: "rat \<Rightarrow> u16" where
  "can_norm c = word_of_int (ftrunc (f32 (clamp01 c * 65535)))"

definition can_pack :: "u32 \<Rightarrow> nat \<Rightarrow> nat \<Rightarrow> int \<Rightarrow> int \<Rightarrow> detection \<Rightarrow> can_frame" where
  "can_pack base_id tot i frame_w frame_h d =
     (let nx = can_norm (can_center (det_x d) (det_w d) frame_w);
          ny = can_norm (can_center (det_y d) (det_h d) frame_h)
      in \<lparr>cf_id = base_id, cf_dlc = 8,
          cf_data = [of_nat i, of_nat tot, word_of_int (max 0 (min 255 (det_class_id d))),
                     word_of_int (ftrunc (f32 (clamp01 (det_score d) * 255))),
                     ucast (drop_bit 8 nx), ucast (and nx 0xff), ucast (drop_bit 8 ny), ucast (and ny 0xff)]\<rparr>)"

text \<open>The loop: \<open>wr i\<close> is what the kernel returns for the \<open>i\<close>-th \<open>write\<close>; a full write returns
  \<open>sizeof(can_frame)\<close>, 16. The result is the status and the frames handed to \<open>write\<close>.\<close>

fun can_send :: "(nat \<Rightarrow> int) \<Rightarrow> (nat \<Rightarrow> can_frame) \<Rightarrow> nat list \<Rightarrow> bool \<times> can_frame list" where
  "can_send wr fr [] = (True, [])"
| "can_send wr fr (i # is) =
     (if wr i \<noteq> 16 then (False, [fr i])
      else case can_send wr fr is of (ok, out) \<Rightarrow> (ok, fr i # out))"

definition can_publish :: "(nat \<Rightarrow> int) \<Rightarrow> can_publisher \<Rightarrow> detection list \<Rightarrow> int \<Rightarrow> int \<Rightarrow> bool \<times> can_frame list" where
  "can_publish wr p dets frame_w frame_h =
     (if cp_fd p < 0 \<or> frame_w \<le> 0 \<or> frame_h \<le> 0 then (False, [])
      else let tot = min (length dets) 255
           in can_send wr (\<lambda>i. can_pack (cp_base_id p) tot i frame_w frame_h (dets ! i)) [0..<tot])"

subsection \<open>The receiver\<close>

record can_report =
  cr_index :: nat
  cr_total :: nat
  cr_class :: nat
  cr_conf :: nat
  cr_x :: nat
  cr_y :: nat

definition can_decode :: "can_frame \<Rightarrow> can_report option" where
  "can_decode f = (case cf_data f of
      [i, t, c, s, xh, xl, yh, yl] \<Rightarrow>
        Some \<lparr>cr_index = unat i, cr_total = unat t, cr_class = unat c, cr_conf = unat s,
              cr_x = 256 * unat xh + unat xl, cr_y = 256 * unat yh + unat yl\<rparr>
    | _ \<Rightarrow> None)"

subsection \<open>Fields\<close>

lemma clamp01_bounds: "0 \<le> clamp01 v \<and> clamp01 v \<le> 1"
  by (simp add: clamp01_def)

text \<open>Quantising a value of the unit interval to \<open>0..n\<close> is off by at most one step and stays in range.\<close>

lemma quantise_range:
  assumes "0 \<le> v" "v \<le> 1" "0 \<le> n" "n \<le> 65535"
  defines "q \<equiv> ftrunc (f32 (v * of_int n))"
  shows "0 \<le> q \<and> q \<le> n \<and> \<bar>of_int q - v * of_int n\<bar> \<le> 1"
proof -
  let ?x = "v * of_int n"
  have fits: "0 \<le> k \<Longrightarrow> k \<le> n \<Longrightarrow> \<bar>k\<bar> \<le> 2 ^ 24" for k using assms(4) by simp
  have x: "0 \<le> ?x" "?x \<le> of_int n" using assms mult_right_mono [of v 1 "of_int n"] by auto
  have "\<lfloor>?x\<rfloor> \<le> n" "\<lceil>?x\<rceil> \<le> n" using x(2) by (simp_all add: floor_le_iff ceiling_le_iff)
  moreover have "0 \<le> \<lfloor>?x\<rfloor>" "0 \<le> \<lceil>?x\<rceil>" using x(1) by (simp, linarith)
  ultimately have small: "\<bar>\<lfloor>?x\<rfloor>\<bar> \<le> 2 ^ 24" "\<bar>\<lceil>?x\<rceil>\<bar> \<le> 2 ^ 24"
    using fits [of "\<lfloor>?x\<rfloor>"] fits [of "\<lceil>?x\<rceil>"] by blast+
  have "of_int \<lfloor>?x\<rfloor> \<le> f32 ?x" "f32 ?x \<le> of_int \<lceil>?x\<rceil>"
    by (rule f32.rnd_ge_int [OF _ small(1)], simp) (rule f32.rnd_le_int [OF _ small(2)], simp)
  then have "\<lfloor>?x\<rfloor> \<le> q" "q \<le> \<lceil>?x\<rceil>" unfolding q_def by (metis ftrunc_mono ftrunc_of_int)+
  then have "of_int \<lfloor>?x\<rfloor> \<le> (of_int q :: rat)" "(of_int q :: rat) \<le> of_int \<lceil>?x\<rceil>" by simp_all
  then show ?thesis
    using \<open>\<lfloor>?x\<rfloor> \<le> q\<close> \<open>q \<le> \<lceil>?x\<rceil>\<close> \<open>\<lceil>?x\<rceil> \<le> n\<close> \<open>0 \<le> \<lfloor>?x\<rfloor>\<close> floor_correct [of ?x] ceiling_correct [of ?x] by linarith
qed

lemma can_norm_quantises: "\<bar>of_nat (unat (can_norm c)) - clamp01 c * 65535\<bar> \<le> 1"
  using quantise_range [of "clamp01 c" 65535] clamp01_bounds [of c]
  by (simp add: can_norm_def unat_word_of_int_small)

lemma can_send_all: "\<forall>i \<in> set is. wr i = 16 \<Longrightarrow> can_send wr fr is = (True, map fr is)"
  by (induction "is") auto

lemma can_send_fails:
  "\<forall>i \<in> set is. wr i = 16 \<Longrightarrow> wr k \<noteq> 16 \<Longrightarrow> can_send wr fr (is @ k # js) = (False, map fr (is @ [k]))"
  by (induction "is") auto

lemma can_publish_loop:
  assumes "can_is_open p" "0 < frame_w" "0 < frame_h"
  shows "can_publish wr p dets frame_w frame_h =
    can_send wr (\<lambda>i. can_pack (cp_base_id p) (min (length dets) 255) i frame_w frame_h (dets ! i)) [0..<min (length dets) 255]"
  using assms by (simp add: can_publish_def can_is_open_def Let_def)

lemma can_pack_decodes:
  assumes "i < 256" "n < 256"
  shows "can_decode (can_pack base n i fw fh d) =
    Some \<lparr>cr_index = i, cr_total = n, cr_class = nat (max 0 (min 255 (det_class_id d))),
      cr_conf = nat (ftrunc (f32 (clamp01 (det_score d) * 255))),
      cr_x = unat (can_norm (can_center (det_x d) (det_w d) fw)), cr_y = unat (can_norm (can_center (det_y d) (det_h d) fh))\<rparr>"
  using assms quantise_range [of "clamp01 (det_score d)" 255] clamp01_bounds [of "det_score d"]
  by (simp add: can_decode_def can_pack_def Let_def codec_simps unat_of_nat_small unat_word_of_int_small)

subsection \<open>Properties\<close>

text \<open>Opening the CAN socket never leaks a descriptor. Whatever the kernel answers, when
  \<open>open()\<close> fails the publisher is closed and the process has the descriptors it had before;
  when it succeeds exactly the new socket was added and the destructor releases it.\<close>

lemma can_open_no_leak:
  assumes "can_open sys p fds = (ok, p', fds')" and "sys_socket sys \<notin> fds"
  shows "(ok \<longrightarrow> can_is_open p' \<and> fds' = insert (cp_fd p') fds) \<and> (\<not> ok \<longrightarrow> \<not> can_is_open p' \<and> fds' = fds)
     \<and> can_destroy p' fds' = fds"
  using assms by (auto simp: can_open_def can_is_open_def can_destroy_def Let_def split: if_splits option.splits)

text \<open>C21: A receiver reads back what was published. On an open socket whose writes succeed,
  \<open>publish\<close> sends one frame for each of the first 255 detections, in order; decoding the
  documented layout gives the index, the number of frames of the set, the class clamped to a byte,
  and confidence and centre within one quantisation step of the clamped values. No field wraps.\<close>

theorem can_publish_roundtrip:
  fixes dets :: "detection list"
  assumes "can_is_open p" "0 < frame_w" "0 < frame_h" "\<forall>i. wr i = 16"
  defines "n \<equiv> min (length dets) 255"
  shows "\<exists>frames. can_publish wr p dets frame_w frame_h = (True, frames) \<and> length frames = n \<and>
     (\<forall>i < n. \<exists>r. can_decode (frames ! i) = Some r \<and> cf_id (frames ! i) = cp_base_id p \<and> cr_index r = i \<and> cr_total r = n
        \<and> int (cr_class r) = max 0 (min 255 (det_class_id (dets ! i)))
        \<and> \<bar>of_nat (cr_conf r) - clamp01 (det_score (dets ! i)) * 255\<bar> \<le> 1
        \<and> \<bar>of_nat (cr_x r) - clamp01 (can_center (det_x (dets ! i)) (det_w (dets ! i)) frame_w) * 65535\<bar> \<le> 1
        \<and> \<bar>of_nat (cr_y r) - clamp01 (can_center (det_y (dets ! i)) (det_h (dets ! i)) frame_h) * 65535\<bar> \<le> 1)"
proof -
  let ?fr = "\<lambda>i. can_pack (cp_base_id p) n i frame_w frame_h (dets ! i)"
  have run: "can_publish wr p dets frame_w frame_h = (True, map ?fr [0..<n])"
    unfolding can_publish_loop [OF assms(1-3)] n_def using assms(4) by (intro can_send_all) simp
  have conf: "\<bar>of_nat (nat (ftrunc (f32 (clamp01 s * 255)))) - clamp01 s * 255\<bar> \<le> 1" for s
    using quantise_range [of "clamp01 s" 255] clamp01_bounds [of s] by simp
  have "\<exists>r. can_decode (?fr i) = Some r \<and> cf_id (?fr i) = cp_base_id p \<and> cr_index r = i \<and> cr_total r = n
        \<and> int (cr_class r) = max 0 (min 255 (det_class_id (dets ! i)))
        \<and> \<bar>of_nat (cr_conf r) - clamp01 (det_score (dets ! i)) * 255\<bar> \<le> 1
        \<and> \<bar>of_nat (cr_x r) - clamp01 (can_center (det_x (dets ! i)) (det_w (dets ! i)) frame_w) * 65535\<bar> \<le> 1
        \<and> \<bar>of_nat (cr_y r) - clamp01 (can_center (det_y (dets ! i)) (det_h (dets ! i)) frame_h) * 65535\<bar> \<le> 1"
    if "i < n" for i
    using that can_pack_decodes [of i n "cp_base_id p" frame_w frame_h "dets ! i"] conf can_norm_quantises
    by (simp add: n_def) (simp add: can_pack_def Let_def)
  with run show ?thesis by simp
qed

theorem can_publish_roundtrip_witness:
  "\<exists>frames. can_publish (\<lambda>_. 16) \<lparr>cp_iface = ''can0'', cp_base_id = 0x300, cp_fd = 3\<rparr>
     [\<lparr>det_x = 10, det_y = 20, det_w = 30, det_h = 40, det_score = 1/2, det_class_id = 7\<rparr>] 640 480 = (True, frames) \<and> length frames = 1"
  using can_publish_roundtrip [of "\<lparr>cp_iface = ''can0'', cp_base_id = 0x300, cp_fd = 3\<rparr>" 640 480 "\<lambda>_. 16"
    "[\<lparr>det_x = 10, det_y = 20, det_w = 30, det_h = 40, det_score = 1/2, det_class_id = 7\<rparr>]"]
  by (auto simp: can_is_open_def)

text \<open>C39: A failed write ends the set. If the kernel takes the first \<open>k\<close> frames and not the next one, \<open>publish\<close>
  returns false and has handed exactly \<open>k + 1\<close> frames to the kernel; a closed publisher or a
  frame without extent sends nothing and returns false.\<close>

theorem can_publish_errors:
  "(\<not> can_is_open p \<or> frame_w \<le> 0 \<or> frame_h \<le> 0 \<longrightarrow> can_publish wr p dets frame_w frame_h = (False, [])) \<and>
   (can_is_open p \<and> 0 < frame_w \<and> 0 < frame_h \<and> k < min (length dets) 255 \<and> (\<forall>i < k. wr i = 16) \<and> wr k \<noteq> 16 \<longrightarrow>
      can_publish wr p dets frame_w frame_h =
        (False, map (\<lambda>i. can_pack (cp_base_id p) (min (length dets) 255) i frame_w frame_h (dets ! i)) [0..<Suc k]))"
proof -
  have "[0..<n] = [0..<k] @ k # [Suc k..<n]" if "k < n" for n
    using that upt_add_eq_append [of 0 k "n - k"] by (simp add: upt_conv_Cons)
  then show ?thesis using can_send_fails [of "[0..<k]" wr k]
    by (auto simp: can_publish_loop) (simp_all add: can_publish_def can_is_open_def)
qed

theorem can_publish_errors_witness:
  "can_publish (\<lambda>i. if i = 0 then -1 else 16) \<lparr>cp_iface = ''can0'', cp_base_id = 0x300, cp_fd = 3\<rparr> (replicate 2 \<lparr>det_x = 10, det_y = 20, det_w = 30, det_h = 40, det_score = 1/2, det_class_id = 7\<rparr>) 640 480 =
     (False, [can_pack 0x300 2 0 640 480 \<lparr>det_x = 10, det_y = 20, det_w = 30, det_h = 40, det_score = 1/2, det_class_id = 7\<rparr>])"
  using can_publish_errors [of "\<lparr>cp_iface = ''can0'', cp_base_id = 0x300, cp_fd = 3\<rparr>" 640 480 "\<lambda>i. if i = 0 then -1 else 16" "replicate 2 \<lparr>det_x = 10, det_y = 20, det_w = 30, det_h = 40, det_score = 1/2, det_class_id = 7\<rparr>" 0]
  by (simp add: can_is_open_def eval_nat_numeral)

end
