(* ===== verification/Benchmark.thy ===== *)
theory Benchmark
  imports Rolling_Window
begin

text \<open>
  The instrumentation of the edge-AI detector
  (\<^verbatim>\<open>edge-ai-detector-tensorrt-ros2/include/edge_ai_detector/benchmark.hpp\<close>): \<open>RollingStats\<close>,
  \<open>ScopedTimer\<close>, \<open>rss_mib\<close>, \<open>FrameMetrics\<close> and \<open>BenchmarkTrace\<close>.

  Clock readings are integers of nanoseconds. The two numbers read from
  \<^verbatim>\<open>/proc/self/statm\<close> are an argument (\<open>None\<close> when the file cannot be read). The CSV file is
  the list of lines written; \<open>bt_csv_open\<close> and \<open>bt_csv_fail\<close> are \<open>is_open()\<close> and the
  fail bit of the \<open>std::ofstream\<close>: an unopened stream tests true until the first output to it
  fails. Number formatting is not modelled: a CSV row and the summary line are the values they
  print.
\<close>

subsection \<open>RollingStats\<close>

record rolling_stats =
  rs_window :: nat
  rs_cursor :: nat
  rs_n :: u64
  rs_sum :: rat
  rs_buf :: "rat list"

record rs_snapshot =
  sn_n :: u64
  sn_mean :: rat
  sn_p50 :: rat
  sn_p90 :: rat
  sn_p99 :: rat
  sn_max :: rat

definition rs_new :: "nat \<Rightarrow> rolling_stats" where
  "rs_new window = \<lparr>rs_window = window, rs_cursor = 0, rs_n = 0, rs_sum = 0, rs_buf = []\<rparr>"

definition rs_add :: "rat \<Rightarrow> rolling_stats \<Rightarrow> rolling_stats option" where
  "rs_add v s =
     (case (if length (rs_buf s) < rs_window s then Some (rs_buf s @ [v]) else upd_ub (rs_buf s) (rs_cursor s) v) of
        None \<Rightarrow> None
      | Some b \<Rightarrow> if rs_window s = 0 then None
                  else Some (s\<lparr>rs_buf := b, rs_cursor := (rs_cursor s + 1) mod rs_window s,
                               rs_n := rs_n s + 1, rs_sum := f64 (rs_sum s + v)\<rparr>))"

definition rs_snap :: "rolling_stats \<Rightarrow> rs_snapshot" where
  "rs_snap s =
     (if rs_buf s = []
      then \<lparr>sn_n = rs_n s, sn_mean = 0, sn_p50 = 0, sn_p90 = 0, sn_p99 = 0, sn_max = 0\<rparr>
      else let v = sort (rs_buf s); q = (\<lambda>p. v ! pct_index (f64 p) (length v))
           in \<lparr>sn_n = rs_n s, sn_mean = f64 (rs_sum s / f64 (of_nat (unat (rs_n s)))),
               sn_p50 = q (50/100), sn_p90 = q (90/100), sn_p99 = q (99/100), sn_max = last v\<rparr>)"

subsection \<open>Timers and memory\<close>

definition scoped_timer_ms :: "int \<Rightarrow> int \<Rightarrow> rat" where
  "scoped_timer_ms t0 t1 = f64 (f64 (of_int (t1 - t0)) / 1000000)"

definition rss_mib :: "(int \<times> int) option \<Rightarrow> rat" where
  "rss_mib statm =
     (case statm of
        Some (size_pages, resident_pages) \<Rightarrow> f64 (f64 (f64 (of_int resident_pages) * 4096) / f64 (1024 * 1024))
      | None \<Rightarrow> 0)"

subsection \<open>FrameMetrics and BenchmarkTrace\<close>

record frame_metrics =
  fm_frame_id :: u64
  fm_capture_latency_ms :: rat
  fm_preprocess_ms :: rat
  fm_inference_ms :: rat
  fm_postprocess_ms :: rat
  fm_publish_ms :: rat
  fm_end_to_end_ms :: rat
  fm_rss_mib :: rat
  fm_detections :: int

datatype csv_line = CsvHeader "string list" | CsvRow u64 "rat list" int

record benchmark_trace =
  bt_cap :: rolling_stats
  bt_pre :: rolling_stats
  bt_inf :: rolling_stats
  bt_post :: rolling_stats
  bt_e2e :: rolling_stats
  bt_last_rss :: rat
  bt_csv :: "csv_line list"
  bt_csv_open :: bool
  bt_csv_fail :: bool

record bench_summary =
  bs_n :: u64
  bs_capture :: "rat \<times> rat"
  bs_pre :: "rat \<times> rat"
  bs_infer :: "rat \<times> rat \<times> rat"
  bs_post :: "rat \<times> rat"
  bs_e2e :: "rat \<times> rat \<times> rat"
  bs_rss :: rat
  bs_fps :: rat

definition bt_new :: benchmark_trace where
  "bt_new = \<lparr>bt_cap = rs_new 300, bt_pre = rs_new 300, bt_inf = rs_new 300, bt_post = rs_new 300,
     bt_e2e = rs_new 300, bt_last_rss = 0, bt_csv = [], bt_csv_open = False, bt_csv_fail = False\<rparr>"

definition csv_header :: csv_line where
  "csv_header = CsvHeader [''frame_id'', ''capture_ms'', ''preprocess_ms'', ''inference_ms'', ''postprocess_ms'',
     ''publish_ms'', ''end_to_end_ms'', ''rss_mib'', ''detections'']"

definition csv_row :: "frame_metrics \<Rightarrow> csv_line" where
  "csv_row m = CsvRow (fm_frame_id m)
     [fm_capture_latency_ms m, fm_preprocess_ms m, fm_inference_ms m, fm_postprocess_ms m, fm_publish_ms m,
      fm_end_to_end_ms m, fm_rss_mib m] (fm_detections m)"

text \<open>\<open>csv_ << line\<close>: writes on an open stream in a good state, fails on an unopened one.\<close>

definition csv_put :: "csv_line \<Rightarrow> benchmark_trace \<Rightarrow> benchmark_trace" where
  "csv_put l b =
     (if bt_csv_fail b then b
      else if bt_csv_open b then b\<lparr>bt_csv := bt_csv b @ [l]\<rparr>
      else b\<lparr>bt_csv_fail := True\<rparr>)"

text \<open>\<open>open(path, trunc)\<close>; \<open>ok\<close> says whether the file can be created. Opening an open stream
  fails, a successful open clears the state.\<close>

definition bt_open :: "bool \<Rightarrow> benchmark_trace \<Rightarrow> benchmark_trace" where
  "bt_open ok b =
     (let b' = (if bt_csv_open b then b\<lparr>bt_csv_fail := True\<rparr>
                else if ok then b\<lparr>bt_csv := [], bt_csv_open := True, bt_csv_fail := False\<rparr>
                else b\<lparr>bt_csv_fail := True\<rparr>)
      in if bt_csv_fail b' then b' else csv_put csv_header b')"

definition bt_record :: "frame_metrics \<Rightarrow> benchmark_trace \<Rightarrow> benchmark_trace option" where
  "bt_record m b =
     (case rs_add (fm_capture_latency_ms m) (bt_cap b) of None \<Rightarrow> None | Some c \<Rightarrow>
      case rs_add (fm_preprocess_ms m) (bt_pre b) of None \<Rightarrow> None | Some p \<Rightarrow>
      case rs_add (fm_inference_ms m) (bt_inf b) of None \<Rightarrow> None | Some i \<Rightarrow>
      case rs_add (fm_postprocess_ms m) (bt_post b) of None \<Rightarrow> None | Some q \<Rightarrow>
      case rs_add (fm_end_to_end_ms m) (bt_e2e b) of None \<Rightarrow> None | Some e \<Rightarrow>
      (let b' = b\<lparr>bt_cap := c, bt_pre := p, bt_inf := i, bt_post := q, bt_e2e := e, bt_last_rss := fm_rss_mib m\<rparr>
       in Some (if bt_csv_fail b' then b' else csv_put (csv_row m) b')))"

definition bt_summary :: "benchmark_trace \<Rightarrow> bench_summary" where
  "bt_summary b =
     (let c = rs_snap (bt_cap b); p = rs_snap (bt_pre b); i = rs_snap (bt_inf b);
          q = rs_snap (bt_post b); e = rs_snap (bt_e2e b)
      in \<lparr>bs_n = sn_n e, bs_capture = (sn_mean c, sn_p90 c), bs_pre = (sn_mean p, sn_p90 p),
          bs_infer = (sn_mean i, sn_p90 i, sn_p99 i), bs_post = (sn_mean q, sn_p90 q),
          bs_e2e = (sn_mean e, sn_p90 e, sn_p99 e), bs_rss = bt_last_rss b,
          bs_fps = (if 0 < sn_mean e then f64 (1000 / sn_mean e) else 0)\<rparr>)"

fun bt_record_all :: "frame_metrics list \<Rightarrow> benchmark_trace \<Rightarrow> benchmark_trace option" where
  "bt_record_all [] b = Some b"
| "bt_record_all (m # ms) b = (case bt_record m b of None \<Rightarrow> None | Some b' \<Rightarrow> bt_record_all ms b')"

subsection \<open>RollingStats is a ring window\<close>

interpretation rs: ring_window rs_add rs_buf rs_window rs_cursor rs_n rs_sum
  by unfold_locales (auto simp: rs_add_def split: if_splits)

lemma rs_ring_new [simp]: "0 < w \<Longrightarrow> rs.ring (rs_new w) []"
  by (simp add: rs.ring_def rs_new_def fsum_def)

lemma rs_run:
  assumes "0 < w"
  obtains t where "for_each rs_add xs (rs_new w) = Some t" "rs.ring t xs" "rs_window t = w"
  using rs.ring_for_each [OF rs_ring_new [OF assms], of xs] that by (auto simp: rs_new_def)

lemma rs_snap_ordered:
  "sn_p50 (rs_snap s) \<le> sn_p90 (rs_snap s) \<and> sn_p90 (rs_snap s) \<le> sn_p99 (rs_snap s) \<and> sn_p99 (rs_snap s) \<le> sn_max (rs_snap s)"
proof (cases "rs_buf s = []")
  case False
  have "f64 (50/100) \<le> f64 (90/100)" "f64 (90/100) \<le> f64 (99/100)" by (intro f64.rnd_mono; simp)+
  then show ?thesis
    using False sort_nth_pct_mono [OF False] sort_nth_pct_bounds [OF False]
    by (simp add: rs_snap_def Let_def)
qed (simp add: rs_snap_def)

subsection \<open>The trace\<close>

text \<open>What every recorded frame adds to each stage.\<close>

definition bt_tracks :: "benchmark_trace \<Rightarrow> frame_metrics list \<Rightarrow> bool" where
  "bt_tracks b ms \<longleftrightarrow> rs.ring (bt_cap b) (map fm_capture_latency_ms ms) \<and> rs.ring (bt_pre b) (map fm_preprocess_ms ms)
     \<and> rs.ring (bt_inf b) (map fm_inference_ms ms) \<and> rs.ring (bt_post b) (map fm_postprocess_ms ms)
     \<and> rs.ring (bt_e2e b) (map fm_end_to_end_ms ms)"

lemma bt_tracks_new: "bt_tracks (bt_open ok bt_new) []"
  by (simp add: bt_tracks_def bt_open_def bt_new_def csv_put_def)

lemma bt_record_tracks:
  assumes "bt_tracks b ms"
  shows "\<exists>b'. bt_record m b = Some b' \<and> bt_tracks b' (ms @ [m]) \<and> bt_csv_open b' = bt_csv_open b
    \<and> (bt_csv_open b \<longrightarrow> bt_csv_fail b' = bt_csv_fail b)
    \<and> bt_csv b' = (if bt_csv_open b \<and> \<not> bt_csv_fail b then bt_csv b @ [csv_row m] else bt_csv b)"
proof -
  have r: "\<exists>t. rs_add v s = Some t \<and> rs.ring t (xs @ [v])" if "rs.ring s xs" for s v xs
    using rs.ring_add [OF that] by blast
  obtain c where "rs_add (fm_capture_latency_ms m) (bt_cap b) = Some c" "rs.ring c (map fm_capture_latency_ms (ms @ [m]))"
    using r assms by (force simp: bt_tracks_def)
  moreover obtain p where "rs_add (fm_preprocess_ms m) (bt_pre b) = Some p" "rs.ring p (map fm_preprocess_ms (ms @ [m]))"
    using r assms by (force simp: bt_tracks_def)
  moreover obtain i where "rs_add (fm_inference_ms m) (bt_inf b) = Some i" "rs.ring i (map fm_inference_ms (ms @ [m]))"
    using r assms by (force simp: bt_tracks_def)
  moreover obtain q where "rs_add (fm_postprocess_ms m) (bt_post b) = Some q" "rs.ring q (map fm_postprocess_ms (ms @ [m]))"
    using r assms by (force simp: bt_tracks_def)
  moreover obtain e where "rs_add (fm_end_to_end_ms m) (bt_e2e b) = Some e" "rs.ring e (map fm_end_to_end_ms (ms @ [m]))"
    using r assms by (force simp: bt_tracks_def)
  ultimately show ?thesis by (simp add: bt_record_def bt_tracks_def csv_put_def Let_def)
qed

lemma bt_record_all_tracks:
  "bt_tracks b ms \<Longrightarrow> bt_csv_open b \<Longrightarrow> \<not> bt_csv_fail b \<Longrightarrow>
     \<exists>b'. bt_record_all ns b = Some b' \<and> bt_tracks b' (ms @ ns) \<and> bt_csv b' = bt_csv b @ map csv_row ns"
proof (induction ns arbitrary: b ms)
  case (Cons n ns)
  obtain b' where b': "bt_record n b = Some b'" "bt_tracks b' (ms @ [n])" "bt_csv_open b'" "\<not> bt_csv_fail b'"
    "bt_csv b' = bt_csv b @ [csv_row n]"
    using bt_record_tracks [OF Cons.prems(1), of n] Cons.prems(2,3) by auto
  from Cons.IH [OF b'(2-4)] b' show ?case by auto
qed simp

subsection \<open>Properties\<close>

text \<open>The percentiles of a \<open>RollingStats\<close> window are consistent: after any samples, with the
  indices computed in double precision, \<open>p50 \<le> p90 \<le> p99 \<le> max\<close>, the maximum is that of the
  newest \<open>window\<close> samples and each percentile is one of them.\<close>

lemma rs_percentiles:
  assumes "0 < w" and "xs \<noteq> []"
  shows "\<exists>t. for_each rs_add xs (rs_new w) = Some t
     \<and> sn_p50 (rs_snap t) \<le> sn_p90 (rs_snap t) \<and> sn_p90 (rs_snap t) \<le> sn_p99 (rs_snap t)
     \<and> sn_p99 (rs_snap t) \<le> sn_max (rs_snap t) \<and> sn_max (rs_snap t) = Max (set (newest w xs))
     \<and> {sn_p50 (rs_snap t), sn_p90 (rs_snap t), sn_p99 (rs_snap t)} \<subseteq> set (newest w xs)"
proof -
  obtain t where t: "for_each rs_add xs (rs_new w) = Some t" "rs.ring t xs" "rs_window t = w"
    using rs_run [OF assms(1)] by blast
  let ?ys = "newest w xs"
  have ne: "rs_buf t \<noteq> []" "?ys \<noteq> []"
    using rs.ring_buf_empty [OF t(2)] rs.ring_length [OF t(2)] t(3) assms by auto
  have s: "sort (rs_buf t) = sort ?ys" using rs.ring_sort [OF t(2)] t(3) by simp
  then have l: "length (rs_buf t) = length ?ys" by (metis length_sort)
  have q: "sort ?ys ! pct_index p (length ?ys) \<in> set ?ys" for p
    using nth_mem [of "pct_index p (length ?ys)" "sort ?ys"] pct_index_less [of "length ?ys" p] ne(2) by simp
  show ?thesis
    using t(1) rs_snap_ordered [of t] ne q
    by (simp add: rs_snap_def Let_def s l last_sort_Max [OF ne(2)])
qed


end
