(* ===== verification/Gst_Source.thy ===== *)
theory Gst_Source
  imports Effects Transitions
begin

text \<open>
  The camera front end of the detector (\<open>gst_source.hpp\<close>, \<open>gst_source.cpp\<close> of
  \<open>src/edge-ai-detector-tensorrt-ros2\<close>): the move-only \<open>Frame\<close> that owns a pulled sample and its
  mapping, and \<open>GstSource\<close> that starts, pulls and stops the capture pipeline.

  A GStreamer sample is a number; \<open>sample_info\<close> says what its accessors return. \<open>hp_refs\<close> and \<open>hp_maps\<close>
  are the sample references and buffer mappings the program holds. \<open>fvars\<close> are the \<open>Frame\<close> objects alive, by
  name, so that construction, move and destruction happen in any order a program can give them.
\<close>

subsection \<open>Frame\<close>

record sample_info =
  si_buffer :: bool
  si_caps :: "(int option \<times> int option) option"
  si_pts :: "u64 option"
  si_maps :: bool
  si_data :: "byte list"

record gframe =
  gf_sample :: "nat option"
  gf_data :: "byte list option"
  gf_size :: nat
  gf_width :: int
  gf_height :: int
  gf_stride :: int
  gf_pts :: u64
  gf_capture_mono_ns :: u64

record heap =
  hp_refs :: "nat multiset"
  hp_maps :: "nat multiset"

definition gf_empty :: gframe where
  "gf_empty = \<lparr>gf_sample = None, gf_data = None, gf_size = 0, gf_width = 0, gf_height = 0, gf_stride = 0, gf_pts = 0, gf_capture_mono_ns = 0\<rparr>"

definition gf_valid :: "gframe \<Rightarrow> bool" where
  "gf_valid f \<longleftrightarrow> gf_sample f \<noteq> None \<and> gf_data f \<noteq> None"

text \<open>Constructor from a sample whose reference it takes over; \<open>now\<close> is the monotonic clock.\<close>

definition gf_make :: "(nat \<Rightarrow> sample_info) \<Rightarrow> u64 \<Rightarrow> nat \<Rightarrow> heap \<Rightarrow> gframe \<times> heap" where
  "gf_make info now s h =
     (let f = gf_empty\<lparr>gf_sample := Some s, gf_capture_mono_ns := now\<rparr> in
      case (si_buffer (info s), si_caps (info s)) of
        (True, Some (w, ht)) \<Rightarrow>
          let f1 = f\<lparr>gf_width := (case w of Some v \<Rightarrow> v | None \<Rightarrow> gf_width f), gf_height := (case ht of Some v \<Rightarrow> v | None \<Rightarrow> gf_height f),
                     gf_pts := (case si_pts (info s) of Some t \<Rightarrow> t | None \<Rightarrow> 0)\<rparr>
          in if si_maps (info s)
             then (f1\<lparr>gf_data := Some (si_data (info s)), gf_size := length (si_data (info s)),
                      gf_stride := (if 0 < gf_height f1 then int (length (si_data (info s))) div gf_height f1 else 0)\<rparr>,
                   h\<lparr>hp_maps := add_mset s (hp_maps h)\<rparr>)
             else (f1, h)
      | _ \<Rightarrow> (f, h))"

definition gf_release :: "(nat \<Rightarrow> sample_info) \<Rightarrow> gframe \<Rightarrow> heap \<Rightarrow> gframe \<times> heap" where
  "gf_release info f h =
     (case gf_sample f of None \<Rightarrow> (f, h)
      | Some s \<Rightarrow>
        let h1 = (if gf_data f \<noteq> None \<and> si_buffer (info s) then h\<lparr>hp_maps := hp_maps h - {#s#}\<rparr> else h)
        in (f\<lparr>gf_sample := None, gf_data := None\<rparr>, h1\<lparr>hp_refs := hp_refs h1 - {#s#}\<rparr>))"

text \<open>Move assignment between two different objects: the target, the source, the heap.\<close>

definition gf_move :: "(nat \<Rightarrow> sample_info) \<Rightarrow> gframe \<Rightarrow> gframe \<Rightarrow> heap \<Rightarrow> gframe \<times> gframe \<times> heap" where
  "gf_move info this o' h = (case gf_release info this h of (_, h1) \<Rightarrow> (o', o'\<lparr>gf_sample := None, gf_data := None\<rparr>, h1))"

subsection \<open>Programs over frames\<close>

type_synonym fvars = "nat \<Rightarrow> gframe option"

text \<open>\<open>Make v s\<close> constructs the frame \<open>v\<close> from a sample just pulled, \<open>MoveNew v w\<close> is the move constructor,
  \<open>Move v w\<close> the move assignment (\<open>v = std::move(w)\<close>), \<open>Destroy v\<close> ends the life of \<open>v\<close>.\<close>

inductive frame_step :: "(nat \<Rightarrow> sample_info) \<Rightarrow> fvars \<times> heap \<Rightarrow> fvars \<times> heap \<Rightarrow> bool" for info where
  Make: "vs v = None \<Longrightarrow> gf_make info now s (h\<lparr>hp_refs := add_mset s (hp_refs h)\<rparr>) = (f, h') \<Longrightarrow>
    frame_step info (vs, h) (vs(v \<mapsto> f), h')"
| MoveNew: "vs v = None \<Longrightarrow> vs w = Some g \<Longrightarrow> gf_move info gf_empty g h = (f, g', h') \<Longrightarrow>
    frame_step info (vs, h) (vs(v \<mapsto> f, w \<mapsto> g'), h')"
| Move: "vs v = Some f0 \<Longrightarrow> vs w = Some g \<Longrightarrow> v \<noteq> w \<Longrightarrow> gf_move info f0 g h = (f, g', h') \<Longrightarrow>
    frame_step info (vs, h) (vs(v \<mapsto> f, w \<mapsto> g'), h')"
| MoveSelf: "vs v = Some f \<Longrightarrow> frame_step info (vs, h) (vs, h)"
| Release: "vs v = Some f \<Longrightarrow> gf_release info f h = (f', h') \<Longrightarrow> frame_step info (vs, h) (vs(v \<mapsto> f'), h')"
| Destroy: "vs v = Some f \<Longrightarrow> gf_release info f h = (f', h') \<Longrightarrow> frame_step info (vs, h) (vs(v := None), h')"

subsection \<open>GstSource\<close>

record gst_source_config =
  gc_device :: string
  gc_width :: int
  gc_height :: int
  gc_fps :: int
  gc_mjpeg :: bool
  gc_jetson_csi :: bool
  gc_format :: string

definition gst_source_default :: gst_source_config where
  "gst_source_default = \<lparr>gc_device = ''/dev/video0'', gc_width = 1280, gc_height = 720, gc_fps = 30, gc_mjpeg = True,
     gc_jetson_csi = False, gc_format = ''BGR''\<rparr>"

record gst_source =
  gs_cfg :: gst_source_config
  gs_pipeline :: bool
  gs_appsink :: bool
  gs_pulled :: u64
  gs_drops :: u64
  gs_objects :: int

text \<open>What GStreamer answers when the pipeline is started: the pipeline and the error of
  \<open>gst_parse_launch\<close>, whether the sink is found, whether PLAYING is reached. \<open>gs_objects\<close> counts the references held.\<close>

record launch_env =
  le_pipeline :: bool
  le_error :: "string option"
  le_sink :: bool
  le_play :: bool

definition gs_new :: "gst_source_config \<Rightarrow> gst_source" where
  "gs_new cfg = \<lparr>gs_cfg = cfg, gs_pipeline = False, gs_appsink = False, gs_pulled = 0, gs_drops = 0, gs_objects = 0\<rparr>"

definition build_launch :: "gst_source_config \<Rightarrow> string" where
  "build_launch cfg =
     (let geometry = '',width='' @ int_to_string (gc_width cfg) @ '',height='' @ int_to_string (gc_height cfg)
            @ '',framerate='' @ int_to_string (gc_fps cfg) @ ''/1 ! '';
          front = (if gc_jetson_csi cfg then ''nvarguscamerasrc ! '' @ ''video/x-raw(memory:NVMM)'' @ geometry @ ''nvvidconv ! ''
                   else if gc_mjpeg cfg then ''v4l2src device='' @ gc_device cfg @ '' io-mode=2 ! '' @ ''image/jpeg'' @ geometry @ ''jpegdec ! ''
                   else ''v4l2src device='' @ gc_device cfg @ '' io-mode=2 ! '' @ ''video/x-raw'' @ geometry)
      in front @ ''videoconvert ! video/x-raw,format='' @ gc_format cfg @ '' ! ''
         @ ''appsink name=sink sync=false max-buffers=2 drop=true'')"

definition gs_start :: "launch_env \<Rightarrow> (gst_source, string, unit) eff" where
  "gs_start env =
     seq (modify (\<lambda>g. g\<lparr>gs_pipeline := le_pipeline env, gs_objects := gs_objects g + (if le_pipeline env then 1 else 0)\<rparr>)) (
     seq (throw_if (\<not> le_pipeline env \<or> le_error env \<noteq> None)
            (''gst_parse_launch failed: '' @ (case le_error env of Some m \<Rightarrow> m | None \<Rightarrow> ''unknown''))) (
     seq (modify (\<lambda>g. g\<lparr>gs_appsink := le_sink env, gs_objects := gs_objects g + (if le_sink env then 1 else 0)\<rparr>)) (
     seq (throw_if (\<not> le_sink env) ''appsink 'sink' not found'')
         (throw_if (\<not> le_play env) ''capture pipeline failed to reach PLAYING''))))"

definition gs_stop :: "gst_source \<Rightarrow> gst_source" where
  "gs_stop g =
     (let g1 = (if gs_appsink g then g\<lparr>gs_appsink := False, gs_objects := gs_objects g - 1\<rparr> else g)
      in if gs_pipeline g1 then g1\<lparr>gs_pipeline := False, gs_objects := gs_objects g1 - 1\<rparr> else g1)"

text \<open>The answer of a timed pull: a sample, or nothing with or without the end of the stream.\<close>

datatype pull = Pulled nat | PullTimeout | PullEos

definition gs_next :: "(nat \<Rightarrow> sample_info) \<Rightarrow> pull \<Rightarrow> u64 \<Rightarrow> gst_source \<Rightarrow> heap \<Rightarrow> gframe \<times> gst_source \<times> heap" where
  "gs_next info answer now g h =
     (if \<not> gs_appsink g then (gf_empty, g, h)
      else case answer of
        PullEos \<Rightarrow> (gf_empty, g, h)
      | PullTimeout \<Rightarrow> (gf_empty, g\<lparr>gs_drops := gs_drops g + 1\<rparr>, h)
      | Pulled s \<Rightarrow>
          (case gf_make info now s (h\<lparr>hp_refs := add_mset s (hp_refs h)\<rparr>) of
             (f, h1) \<Rightarrow> (f, g\<lparr>gs_pulled := gs_pulled g + 1\<rparr>, h1)))"

subsection \<open>Ownership\<close>

definition held_ref :: "gframe option \<Rightarrow> nat multiset" where
  "held_ref fo = (case fo of None \<Rightarrow> {#} | Some f \<Rightarrow> (case gf_sample f of None \<Rightarrow> {#} | Some s \<Rightarrow> {#s#}))"

definition held_map :: "gframe option \<Rightarrow> nat multiset" where
  "held_map fo = (case fo of None \<Rightarrow> {#} | Some f \<Rightarrow>
     (case (gf_sample f, gf_data f) of (Some s, Some d) \<Rightarrow> {#s#} | _ \<Rightarrow> {#}))"

text \<open>A frame with data has a sample with a buffer and holds the bytes of that sample.\<close>

definition frame_ok :: "(nat \<Rightarrow> sample_info) \<Rightarrow> gframe \<Rightarrow> bool" where
  "frame_ok info f \<longleftrightarrow> (\<forall>d. gf_data f = Some d \<longrightarrow> (\<exists>s. gf_sample f = Some s \<and> si_buffer (info s) \<and> d = si_data (info s)
     \<and> gf_size f = length d \<and> gf_stride f = (if 0 < gf_height f then int (length d) div gf_height f else 0)))"

definition owns :: "(nat \<Rightarrow> sample_info) \<Rightarrow> fvars \<times> heap \<Rightarrow> bool" where
  "owns info x \<longleftrightarrow> finite (dom (fst x)) \<and> (\<forall>v f. fst x v = Some f \<longrightarrow> frame_ok info f)
     \<and> hp_refs (snd x) = (\<Sum>v \<in> dom (fst x). held_ref (fst x v)) \<and> hp_maps (snd x) = (\<Sum>v \<in> dom (fst x). held_map (fst x v))"

lemma sum_dom_upd:
  assumes "finite (dom vs)" "held None = ({#} :: nat multiset)"
  shows "(\<Sum>u \<in> dom (vs(v := fo)). held ((vs(v := fo)) u)) + held (vs v) = (\<Sum>u \<in> dom vs. held (vs u)) + held fo"
proof -
  have none: "held (ws u) = {#}" if "u \<notin> dom ws" for ws u using that assms(2) by (simp add: domIff)
  have split: "(\<Sum>u \<in> dom ws. held (ws u)) = (\<Sum>u \<in> insert v (dom vs). held (ws u))" if "dom ws \<subseteq> insert v (dom vs)" for ws
    by (rule sum.mono_neutral_left) (use that assms(1) none [of _ ws] in \<open>auto simp del: domIff\<close>)
  have rest: "(\<Sum>u \<in> dom vs - {v}. held ((vs(v := fo)) u)) = (\<Sum>u \<in> dom vs - {v}. held (vs u))"
    by (rule sum.cong) auto
  have a: "(\<Sum>u \<in> insert v (dom vs). held (ws u)) = held (ws v) + (\<Sum>u \<in> dom vs - {v}. held (ws u))" for ws
    using assms by (simp add: sum.insert_remove)
  show ?thesis
    by (subst split, force, subst split [of vs], force, unfold a rest) (simp add: ac_simps)
qed

text \<open>All references or all mappings held by the frames alive.\<close>

definition all_held :: "(gframe option \<Rightarrow> nat multiset) \<Rightarrow> fvars \<Rightarrow> nat multiset" where
  "all_held held vs = (\<Sum>v \<in> dom vs. held (vs v))"

lemma all_held_upd:
  "finite (dom vs) \<Longrightarrow> held None = {#} \<Longrightarrow> all_held held (vs(v := fo)) + held (vs v) = all_held held vs + held fo"
  unfolding all_held_def by (rule sum_dom_upd)

lemma held_None [simp]: "held_ref None = {#}" "held_map None = {#}"
  by (simp_all add: held_ref_def held_map_def)

lemma owns_alt: "owns info (vs, h) \<longleftrightarrow> finite (dom vs) \<and> (\<forall>v f. vs v = Some f \<longrightarrow> frame_ok info f)
     \<and> hp_refs h = all_held held_ref vs \<and> hp_maps h = all_held held_map vs"
  by (simp add: owns_def all_held_def)

lemma gf_make_ok:
  assumes "gf_make info now s h = (f, h')"
  shows "frame_ok info f" "hp_refs h' = hp_refs h" "held_ref (Some f) = {#s#}" "hp_maps h' = hp_maps h + held_map (Some f)"
  using assms
  by (cases "si_buffer (info s)"; cases "si_caps (info s)"; cases "si_maps (info s)";
      auto simp: gf_make_def gf_empty_def frame_ok_def held_ref_def held_map_def Let_def)+

lemma gf_release_ok:
  assumes "gf_release info f h = (f', h')" "frame_ok info f"
  shows "frame_ok info f'" "hp_refs h' = hp_refs h - held_ref (Some f)" "hp_maps h' = hp_maps h - held_map (Some f)"
    "held_ref (Some f') = {#}" "held_map (Some f') = {#}"
  using assms
  by (cases "gf_sample f"; cases "gf_data f"; auto simp: gf_release_def frame_ok_def held_ref_def held_map_def Let_def)+

lemma gf_move_ok:
  assumes "gf_move info f0 g h = (f, g', h')" "frame_ok info f0" "frame_ok info g"
  shows "f = g" "frame_ok info g'" "held_ref (Some g') = {#}" "held_map (Some g') = {#}"
    "hp_refs h' = hp_refs h - held_ref (Some f0)" "hp_maps h' = hp_maps h - held_map (Some f0)"
proof -
  obtain f' h1 where r: "gf_release info f0 h = (f', h1)" by fastforce
  note ok = gf_release_ok [OF r assms(2)]
  show "f = g" "frame_ok info g'" "held_ref (Some g') = {#}" "held_map (Some g') = {#}"
    "hp_refs h' = hp_refs h - held_ref (Some f0)" "hp_maps h' = hp_maps h - held_map (Some f0)"
    using assms(1) r ok by (auto simp: gf_move_def frame_ok_def held_ref_def held_map_def)
qed

lemma all_held_add:
  assumes "finite (dom vs)" "held None = {#}" "vs v = None"
  shows "all_held held (vs(v \<mapsto> f)) = all_held held vs + held (Some f)"
  using all_held_upd [of vs held v "Some f"] assms by simp

lemma all_held_drop:
  assumes "finite (dom vs)" "held None = {#}" "vs v = Some f" "held fo = {#}"
  shows "all_held held (vs(v := fo)) = all_held held vs - held (Some f)"
  using all_held_upd [of vs held v fo] assms by (metis add_diff_cancel_right' add.right_neutral)

lemma all_held_move:
  assumes "finite (dom vs)" "held None = {#}" "vs w = Some g" "v \<noteq> w" "held (Some g') = {#}"
  shows "all_held held (vs(v \<mapsto> g, w \<mapsto> g')) = all_held held vs - held (vs v)"
proof -
  have fin: "finite (dom (vs(v \<mapsto> g)))" using assms(1) by simp
  have a: "all_held held (vs(v \<mapsto> g)) + held (vs v) = all_held held vs + held (Some g)" using assms by (intro all_held_upd)
  have c: "all_held held (vs(v \<mapsto> g, w \<mapsto> g')) + held (Some g) = all_held held (vs(v \<mapsto> g))"
    using all_held_upd [of "vs(v \<mapsto> g)" held w "Some g'"] fin assms(2-5) by simp
  have "all_held held (vs(v \<mapsto> g, w \<mapsto> g')) + held (vs v) + held (Some g)
    = all_held held (vs(v \<mapsto> g, w \<mapsto> g')) + held (Some g) + held (vs v)" by (simp only: ac_simps)
  also have "\<dots> = all_held held vs + held (Some g)" unfolding c by (rule a)
  finally have "all_held held (vs(v \<mapsto> g, w \<mapsto> g')) + held (vs v) + held (Some g) = all_held held vs + held (Some g)" .
  then have "all_held held (vs(v \<mapsto> g, w \<mapsto> g')) + held (vs v) = all_held held vs" by (rule add_right_imp_eq)
  from arg_cong [OF this, of "\<lambda>m. m - held (vs v)"] show ?thesis by simp
qed

lemmas held_rules = all_held_add all_held_drop all_held_move

lemma frame_step_owns: "frame_step info x y \<Longrightarrow> owns info x \<Longrightarrow> owns info y"
proof (induction rule: frame_step.induct)
  case (Make vs v now s h f h')
  note ok = gf_make_ok [OF Make(2)]
  have fin: "finite (dom vs)" using Make(3) by (simp add: owns_alt)
  show ?case using Make(1,3) ok fin all_held_add [of vs held_ref v f] all_held_add [of vs held_map v f] by (auto simp: owns_alt)
next
  case (MoveNew vs v w g h f g' h')
  have own: "frame_ok info gf_empty" "frame_ok info g" "finite (dom vs)"
    using MoveNew by (auto simp: owns_alt frame_ok_def gf_empty_def)
  note ok = gf_move_ok [OF MoveNew(3) own(1,2)]
  have "v \<noteq> w" "held_ref (Some gf_empty) = {#}" "held_map (Some gf_empty) = {#}"
    using MoveNew(1,2) by (auto simp: held_ref_def held_map_def gf_empty_def)
  then show ?case
    using MoveNew(1,2,4) ok own all_held_move [of vs held_ref w g v g'] all_held_move [of vs held_map w g v g']
    by (auto simp: owns_alt)
next
  case (Move vs v f0 w g h f g' h')
  have own: "frame_ok info f0" "frame_ok info g" "finite (dom vs)" using Move by (auto simp: owns_alt)
  note ok = gf_move_ok [OF Move(4) own(1,2)]
  show ?case
    using Move(1,2,3,5) ok own all_held_move [of vs held_ref w g v g'] all_held_move [of vs held_map w g v g']
    by (auto simp: owns_alt)
next
  case (Release vs v f h f' h')
  have own: "frame_ok info f" "finite (dom vs)" using Release by (auto simp: owns_alt)
  note ok = gf_release_ok [OF Release(2) own(1)]
  show ?case
    using Release(1,3) ok own all_held_drop [of vs held_ref v f "Some f'"] all_held_drop [of vs held_map v f "Some f'"]
    by (auto simp: owns_alt)
next
  case (Destroy vs v f h f' h')
  have own: "frame_ok info f" "finite (dom vs)" using Destroy by (auto simp: owns_alt)
  note ok = gf_release_ok [OF Destroy(2) own(1)]
  show ?case
    using Destroy(1,3) ok own all_held_drop [of vs held_ref v f None] all_held_drop [of vs held_map v f None]
    by (auto simp: owns_alt)
qed simp

lemma owns_init: "owns info (Map.empty, \<lparr>hp_refs = {#}, hp_maps = {#}\<rparr>)"
  by (simp add: owns_def)

interpretation frames: invariant_system "frame_step info" "(Map.empty, \<lparr>hp_refs = {#}, hp_maps = {#}\<rparr>)" "owns info"
  by unfold_locales (rule owns_init, rule frame_step_owns)

lemma owns_reachable: "(frame_step info)\<^sup>*\<^sup>* (Map.empty, \<lparr>hp_refs = {#}, hp_maps = {#}\<rparr>) x \<Longrightarrow> owns info x"
  by (rule frames.inv_reachable)

text \<open>Whatever start answers, also with an exception, stopping (or destroying) the source gives back the objects it took.\<close>

lemma gs_stop_releases:
  assumes "gs_start env (gs_new cfg) = Some (r, g)"
  shows "r \<noteq> Undef \<and> gs_objects (gs_stop g) = 0 \<and> \<not> gs_pipeline (gs_stop g) \<and> \<not> gs_appsink (gs_stop g)"
  using assms by (auto simp: gs_start_def gs_new_def gs_stop_def Let_def eff_defs split: if_splits)

lemma gs_next_releases:
  assumes "gs_next info answer now g h = (f, g', h')" "gf_release info f h' = (f', h'')"
  shows "hp_refs h'' = hp_refs h \<and> hp_maps h'' = hp_maps h \<and> (gf_valid f \<longrightarrow> gs_pulled g' = gs_pulled g + 1)"
proof (cases "gs_appsink g \<and> (\<exists>s. answer = Pulled s)")
  case True
  then obtain s where s: "gs_appsink g" "answer = Pulled s" by blast
  then have m: "gf_make info now s (h\<lparr>hp_refs := add_mset s (hp_refs h)\<rparr>) = (f, h')" and p: "gs_pulled g' = gs_pulled g + 1"
    using assms(1) by (auto simp: gs_next_def split: prod.splits)
  note a = gf_make_ok [OF m] and b = gf_release_ok [OF assms(2) gf_make_ok(1) [OF m]]
  show ?thesis using a b p by simp
next
  case False
  then have "f = gf_empty" "h' = h" using assms(1) by (auto simp: gs_next_def split: if_splits pull.splits)
  then show ?thesis using assms(2) by (auto simp: gf_release_def gf_empty_def gf_valid_def)
qed

subsection \<open>Property\<close>

text \<open>C20: Frames own their samples exactly once. In every program that constructs frames from pulled samples, moves,
  releases and destroys them in any order, the sample references and buffer mappings held are exactly
  those of the frames alive that still have a sample or its data: nothing leaks, is released
  twice or used after release. A valid frame shows the bytes of its own sample, with the size and row stride of
  them; once every frame has been destroyed nothing is held.\<close>

theorem frames_own_samples:
  assumes "(frame_step info)\<^sup>*\<^sup>* (Map.empty, \<lparr>hp_refs = {#}, hp_maps = {#}\<rparr>) (vs, h)"
  shows "hp_refs h = (\<Sum>v \<in> dom vs. held_ref (vs v)) \<and> hp_maps h = (\<Sum>v \<in> dom vs. held_map (vs v))
     \<and> (\<forall>v f. vs v = Some f \<and> gf_valid f \<longrightarrow> (\<exists>s. gf_sample f = Some s \<and> gf_data f = Some (si_data (info s)) \<and> s \<in># hp_refs h \<and> s \<in># hp_maps h
          \<and> gf_size f = length (si_data (info s)) \<and> (0 < gf_height f \<longrightarrow> gf_stride f = int (gf_size f) div gf_height f)))
     \<and> (dom vs = {} \<longrightarrow> hp_refs h = {#} \<and> hp_maps h = {#})"
proof -
  have own: "owns info (vs, h)" using assms by (rule owns_reachable)
  have fin: "finite (dom vs)" using own by (simp add: owns_def)
  have in_sum: "s \<in># (\<Sum>v \<in> dom vs. held (vs v))" if "s \<in># held (vs v)" "v \<in> dom vs" for held :: "gframe option \<Rightarrow> nat multiset" and s v
    using that fin by (auto simp: set_mset_sum)
  have "\<exists>s. gf_sample f = Some s \<and> gf_data f = Some (si_data (info s)) \<and> s \<in># hp_refs h \<and> s \<in># hp_maps h
          \<and> gf_size f = length (si_data (info s)) \<and> (0 < gf_height f \<longrightarrow> gf_stride f = int (gf_size f) div gf_height f)"
    if v: "vs v = Some f" "gf_valid f" for v f
  proof -
    obtain s d where s: "gf_sample f = Some s" "gf_data f = Some d" using v(2) by (auto simp: gf_valid_def)
    have "frame_ok info f" using own v(1) by (simp add: owns_def)
    moreover have "s \<in># held_ref (vs v)" "s \<in># held_map (vs v)" using v(1) s by (simp_all add: held_ref_def held_map_def)
    ultimately show ?thesis using s v(1) own in_sum [of s held_ref v] in_sum [of s held_map v] by (auto simp: frame_ok_def owns_def)
  qed
  then show ?thesis using own by (auto simp: owns_def)
qed

theorem frames_own_samples_witness:
  "hp_refs \<lparr>hp_refs = {#7#}, hp_maps = {#7#}\<rparr> = (\<Sum>v \<in> {0 :: nat}. {#7 :: nat#})"
proof -
  define info where "info = (\<lambda>s :: nat. \<lparr>si_buffer = True, si_caps = Some (Some 2, Some 1), si_pts = None, si_maps = True, si_data = [1, 2, 3, 4, 5, 6]\<rparr>)"
  define f where "f = \<lparr>gf_sample = Some 7, gf_data = Some [1, 2, 3, 4, 5, 6], gf_size = 6, gf_width = 2, gf_height = 1, gf_stride = 6, gf_pts = 0,
     gf_capture_mono_ns = 9\<rparr>"
  have "frame_step info (Map.empty, \<lparr>hp_refs = {#}, hp_maps = {#}\<rparr>) ([0 \<mapsto> f], \<lparr>hp_refs = {#7#}, hp_maps = {#7#}\<rparr>)"
    by (rule frame_step.Make [where now = 9 and s = 7]) (simp_all add: gf_make_def gf_empty_def info_def f_def Let_def)
  then have "(frame_step info)\<^sup>*\<^sup>* (Map.empty, \<lparr>hp_refs = {#}, hp_maps = {#}\<rparr>) ([0 \<mapsto> f], \<lparr>hp_refs = {#7#}, hp_maps = {#7#}\<rparr>)"
    by (rule r_into_rtranclp)
  from frames_own_samples [OF this] show ?thesis by (simp add: held_ref_def f_def)
qed

end
