(* ===== verification/Trt_Engine.thy ===== *)
theory Trt_Engine
  imports Effects
begin

text \<open>
  The TensorRT engine wrapper of the detector (\<open>trt_engine.hpp\<close>, \<open>trt_engine.cpp\<close> of
  \<open>src/edge-ai-detector-tensorrt-ros2\<close>): loading an engine, allocating its tensor bindings, inference
  and destruction.

  CUDA and TensorRT are parameters: \<open>trt_env\<close> holds what the calls of \<open>load()\<close> answer and the tensors of the
  deserialised engine, \<open>exec_env\<close> what the calls of one inference answer and the content of every output
  tensor after it, as the sequence of 32-bit words that the copy to the host reads. A device allocation is a number; \<open>te_live\<close> are the
  allocations not yet freed and \<open>te_next\<close> is the number of the next one. Sizes in bytes are 64-bit and wrap. An exception
  carries its message without the CUDA error text.
\<close>

subsection \<open>Data\<close>

datatype trt_dtype = kFLOAT | kHALF | kINT32 | kINT8 | kBOOL | kOtherType

record io_tensor =
  io_name :: string
  io_input :: bool
  io_dtype :: trt_dtype
  io_shape :: "int list"

record tensor_binding =
  tb_name :: string
  tb_is_input :: bool
  tb_dims :: "int list"
  tb_dtype :: trt_dtype
  tb_bytes :: u64
  tb_device :: nat
  tb_host :: "rat list"

record infer_config =
  ic_engine_path :: string
  ic_device :: int
  ic_input_w :: int
  ic_input_h :: int
  ic_input_name :: string

definition infer_default :: infer_config where
  "infer_default = \<lparr>ic_engine_path = [], ic_device = 0, ic_input_w = 640, ic_input_h = 640, ic_input_name = []\<rparr>"

record trt_engine =
  te_cfg :: infer_config
  te_bindings :: "tensor_binding list"
  te_outputs :: "tensor_binding list"
  te_input_idx :: int
  te_stream :: bool
  te_ev_start :: bool
  te_ev_stop :: bool
  te_live :: "nat set"
  te_next :: nat

record trt_env =
  tv_set_device :: bool
  tv_open :: bool
  tv_read :: bool
  tv_runtime :: bool
  tv_engine :: "io_tensor list option"
  tv_context :: bool
  tv_stream :: bool
  tv_ev_start :: bool
  tv_ev_stop :: bool
  tv_set_shape :: "string \<Rightarrow> int list \<Rightarrow> bool"
  tv_malloc :: "nat \<Rightarrow> bool"
  tv_set_address :: "string \<Rightarrow> bool"

record exec_env =
  xv_h2d :: bool
  xv_event_start :: bool
  xv_enqueue :: bool
  xv_event_stop :: bool
  xv_d2h :: "nat \<Rightarrow> bool"
  xv_sync :: bool
  xv_elapsed :: bool
  xv_ms :: rat
  xv_run :: "rat list \<Rightarrow> string \<Rightarrow> rat list"

type_synonym 'a tact = "(trt_engine, string, 'a) eff"

definition te_new :: "infer_config \<Rightarrow> trt_engine" where
  "te_new cfg = \<lparr>te_cfg = cfg, te_bindings = [], te_outputs = [], te_input_idx = -1, te_stream = False, te_ev_start = False,
     te_ev_stop = False, te_live = {}, te_next = 0\<rparr>"

subsection \<open>Loading\<close>

definition dtype_size :: "trt_dtype \<Rightarrow> u64" where
  "dtype_size d = (case d of kFLOAT \<Rightarrow> 4 | kHALF \<Rightarrow> 2 | kINT32 \<Rightarrow> 4 | kINT8 \<Rightarrow> 1 | kBOOL \<Rightarrow> 1 | kOtherType \<Rightarrow> 4)"

definition volume :: "int list \<Rightarrow> u64" where
  "volume dims = foldl (\<lambda>v d. v * of_int (if d < 0 then 1 else d)) 1 dims"

definition resolve_dims :: "infer_config \<Rightarrow> int list \<Rightarrow> int list" where
  "resolve_dims cfg d =
     (if length d = 4
      then [if d ! 0 < 0 then 1 else d ! 0, d ! 1, if d ! 2 < 0 then ic_input_h cfg else d ! 2, if d ! 3 < 0 then ic_input_w cfg else d ! 3]
      else d)"

definition binding_dims :: "infer_config \<Rightarrow> io_tensor \<Rightarrow> int list" where
  "binding_dims cfg t = (if io_input t then resolve_dims cfg (io_shape t) else io_shape t)"

definition binding_bytes :: "infer_config \<Rightarrow> io_tensor \<Rightarrow> u64" where
  "binding_bytes cfg t = volume (binding_dims cfg t) * dtype_size (io_dtype t)"

text \<open>The binding of tensor \<open>t\<close> with device allocation \<open>k\<close>.\<close>

definition binding_of :: "infer_config \<Rightarrow> nat \<Rightarrow> io_tensor \<Rightarrow> tensor_binding" where
  "binding_of cfg k t = \<lparr>tb_name = io_name t, tb_is_input = io_input t, tb_dims = binding_dims cfg t, tb_dtype = io_dtype t,
     tb_bytes = binding_bytes cfg t, tb_device = k, tb_host = replicate (unat (binding_bytes cfg t) div 4 + 1) 0\<rparr>"

definition alloc_binding :: "trt_env \<Rightarrow> io_tensor \<Rightarrow> unit tact" where
  "alloc_binding env t =
     bind (gets te_cfg) (\<lambda>cfg.
     seq (throw_if (io_input t \<and> \<not> tv_set_shape env (io_name t) (binding_dims cfg t)) (''setInputShape failed for '' @ io_name t)) (
     bind (gets te_next) (\<lambda>k.
     seq (throw_if (\<not> tv_malloc env k) ''cudaMalloc binding'') (
     seq (modify (\<lambda>e. e\<lparr>te_live := insert k (te_live e), te_next := k + 1\<rparr>)) (
     seq (throw_if (\<not> tv_set_address env (io_name t)) (''setTensorAddress failed for '' @ io_name t))
         (modify (\<lambda>e. e\<lparr>te_bindings := te_bindings e @ [binding_of cfg k t]\<rparr>)))))))"

text \<open>The second loop of \<open>allocate_bindings\<close>: the index of the input, and the outputs with cleared hosts.\<close>

fun input_index :: "string \<Rightarrow> nat \<Rightarrow> tensor_binding list \<Rightarrow> int \<Rightarrow> int" where
  "input_index name i [] idx = idx"
| "input_index name i (b # bs) idx =
     input_index name (i + 1) bs (if tb_is_input b \<and> (name = [] \<or> name = tb_name b) \<and> idx < 0 then int i else idx)"

definition output_of :: "tensor_binding \<Rightarrow> tensor_binding" where
  "output_of b = b\<lparr>tb_host := replicate (unat (tb_bytes b) div 4 + 1) 0\<rparr>"

definition is_output :: "tensor_binding \<Rightarrow> bool" where
  "is_output b \<longleftrightarrow> \<not> tb_is_input b"

definition allocate_bindings :: "trt_env \<Rightarrow> io_tensor list \<Rightarrow> unit tact" where
  "allocate_bindings env ts =
     seq (for_eff (\<lambda>i. alloc_binding env (ts ! i)) [0..<length ts]) (
     seq (modify (\<lambda>e. e\<lparr>te_input_idx := input_index (ic_input_name (te_cfg e)) 0 (te_bindings e) (te_input_idx e),
                       te_outputs := te_outputs e @ filter is_output (te_bindings e)\<rparr>)) (
     bind (gets te_input_idx) (\<lambda>idx.
     seq (throw_if (idx < 0) ''engine has no input tensor'')
         (modify (\<lambda>e. e\<lparr>te_outputs := map output_of (te_outputs e)\<rparr>)))))"

definition te_load :: "trt_env \<Rightarrow> unit tact" where
  "te_load env =
     seq (throw_if (\<not> tv_set_device env) ''cudaSetDevice'') (
     bind (gets te_cfg) (\<lambda>cfg.
     seq (throw_if (\<not> tv_open env) (''cannot open engine: '' @ ic_engine_path cfg)) (
     seq (throw_if (\<not> tv_read env) ''short read on engine file'') (
     seq (throw_if (\<not> tv_runtime env) ''createInferRuntime failed'') (
     case tv_engine env of
       None \<Rightarrow> raise ''deserializeCudaEngine failed (version / arch mismatch?)''
     | Some ts \<Rightarrow>
       seq (throw_if (\<not> tv_context env) ''createExecutionContext failed'') (
       seq (throw_if (\<not> tv_stream env) ''cudaStreamCreate'') (
       seq (modify (\<lambda>e. e\<lparr>te_stream := True\<rparr>)) (
       seq (throw_if (\<not> tv_ev_start env) ''cudaEventCreate'') (
       seq (modify (\<lambda>e. e\<lparr>te_ev_start := True\<rparr>)) (
       seq (throw_if (\<not> tv_ev_stop env) ''cudaEventCreate'') (
       seq (modify (\<lambda>e. e\<lparr>te_ev_stop := True\<rparr>)) (
       allocate_bindings env ts))))))))))))"

text \<open>Destructor: what is still live afterwards.\<close>

definition te_destroy :: "trt_engine \<Rightarrow> trt_engine" where
  "te_destroy e = e\<lparr>te_live := te_live e - set (map tb_device (te_bindings e)), te_stream := False, te_ev_start := False, te_ev_stop := False\<rparr>"

subsection \<open>Inference\<close>

text \<open>Number of 32-bit words that a copy of the tensor's bytes touches.\<close>

definition words_of :: "tensor_binding \<Rightarrow> nat" where
  "words_of b = (unat (tb_bytes b) + 3) div 4"

text \<open>Copy of an output binding to the \<open>oi\<close>-th output.\<close>

definition copy_output :: "exec_env \<Rightarrow> rat list \<Rightarrow> nat \<times> tensor_binding \<Rightarrow> unit tact" where
  "copy_output xv inp x =
     (case x of (oi, b) \<Rightarrow>
      bind (gets te_outputs) (\<lambda>outs.
      if length outs \<le> oi \<or> length (tb_host (outs ! oi)) < words_of b then undef
      else seq (throw_if (\<not> xv_d2h xv oi) ''D2H output'')
               (modify (\<lambda>e. e\<lparr>te_outputs := outs[oi := (outs ! oi)\<lparr>tb_host :=
                  take (words_of b) (xv_run xv inp (tb_name b)) @ drop (words_of b) (tb_host (outs ! oi))\<rparr>]\<rparr>))))"

text \<open>\<open>infer()\<close>. The loop over the bindings skips the inputs and counts the outputs.\<close>

definition te_infer :: "exec_env \<Rightarrow> rat list \<Rightarrow> rat tact" where
  "te_infer xv input =
     bind (gets (\<lambda>e. (te_bindings e, te_input_idx e))) (\<lambda>(bs, idx).
     if idx < 0 \<or> int (length bs) \<le> idx then undef
     else let inb = bs ! nat idx in
       seq (throw_if (length input < unat (tb_bytes inb) div 4) ''infer(): input blob smaller than engine input'') (
       if 4 * length input < unat (tb_bytes inb) then undef
       else
         seq (throw_if (\<not> xv_h2d xv) ''H2D input'') (
         seq (throw_if (\<not> xv_event_start xv) ''event start'') (
         seq (throw_if (\<not> xv_enqueue xv) ''enqueueV3 failed'') (
         seq (throw_if (\<not> xv_event_stop xv) ''event stop'') (
         seq (for_eff (copy_output xv (take (words_of inb) input)) (enumerate 0 (filter is_output bs))) (
         seq (throw_if (\<not> xv_sync xv) ''stream sync'') (
         seq (throw_if (\<not> xv_elapsed xv) ''event elapsed'')
             (ret (xv_ms xv))))))))))"

subsection \<open>The bindings after loading\<close>

text \<open>The engine while the first loop has handled \<open>k\<close> tensors, and where it can throw: with a memory
  allocation that no binding owns only if the address of a tensor was refused.\<close>

definition loading :: "infer_config \<Rightarrow> io_tensor list \<Rightarrow> nat \<Rightarrow> trt_engine \<Rightarrow> bool" where
  "loading cfg ts k e \<longleftrightarrow> te_cfg e = cfg \<and> te_bindings e = map (\<lambda>i. binding_of cfg i (ts ! i)) [0..<k] \<and> te_live e = {..<k} \<and> te_next e = k
     \<and> te_outputs e = [] \<and> te_input_idx e = -1"

definition load_failed :: "trt_env \<Rightarrow> trt_engine \<Rightarrow> bool" where
  "load_failed env e \<longleftrightarrow> te_live e \<subseteq> set (map tb_device (te_bindings e)) \<or> (\<exists>ts t. tv_engine env = Some ts \<and> t \<in> set ts \<and> \<not> tv_set_address env (io_name t))"

lemma binding_of_simps [simp]:
  "tb_name (binding_of cfg k t) = io_name t" "tb_is_input (binding_of cfg k t) = io_input t" "tb_device (binding_of cfg k t) = k"
  "tb_bytes (binding_of cfg k t) = binding_bytes cfg t"
  by (simp_all add: binding_of_def)

lemma devices_upt: "map tb_device (map (\<lambda>i. binding_of cfg i (ts ! i)) [0..<k]) = [0..<k]"
  by (rule nth_equalityI) simp_all

lemma loading_owned: "loading cfg ts k e \<Longrightarrow> te_live e = set (map tb_device (te_bindings e))"
  by (simp add: loading_def devices_upt atLeast0LessThan del: map_map)

lemma alloc_binding_loading:
  assumes "tv_engine env = Some ts" "k < length ts"
  shows "hoare (loading cfg ts k) (alloc_binding env (ts ! k)) (\<lambda>_. loading cfg ts (Suc k)) (\<lambda>_. load_failed env)"
proof (rule hoareI)
  fix e r e' assume l: "loading cfg ts k e" and run: "alloc_binding env (ts ! k) e = Some (r, e')"
  have t: "ts ! k \<in> set ts" using assms(2) by simp
  have own: "te_live e \<subseteq> set (map tb_device (te_bindings e))" using loading_owned [OF l] by simp
  show "case r of Ok a \<Rightarrow> loading cfg ts (Suc k) e' | Throw x \<Rightarrow> load_failed env e' | Undef \<Rightarrow> False"
    using l run t own assms(1) by (auto simp: alloc_binding_def eff_defs loading_def load_failed_def lessThan_Suc split: if_splits)
qed

lemma input_index_keeps: "0 \<le> idx \<Longrightarrow> input_index name i bs idx = idx"
  by (induction bs arbitrary: i) auto

lemma input_index_found:
  "input_index name i bs (-1) = r \<Longrightarrow> r = -1 \<or> (int i \<le> r \<and> r < int (i + length bs) \<and> tb_is_input (bs ! nat (r - int i)))"
proof (induction bs arbitrary: i)
  case (Cons b bs)
  show ?case
  proof (cases "tb_is_input b \<and> (name = [] \<or> name = tb_name b)")
    case True
    then show ?thesis using Cons.prems by (auto simp: input_index_keeps)
  next
    case False
    then have "input_index name (i + 1) bs (-1) = r" using Cons.prems by auto
    from Cons.IH [OF this] show ?thesis
    proof (elim disjE conjE)
      assume a: "int (i + 1) \<le> r" "r < int (i + 1 + length bs)" "tb_is_input (bs ! nat (r - int (i + 1)))"
      then have "nat (r - int i) = Suc (nat (r - int (i + 1)))" by simp
      then show ?thesis using a by simp
    qed simp
  qed
qed simp

text \<open>The loaded engine.\<close>

definition loaded :: "infer_config \<Rightarrow> io_tensor list \<Rightarrow> trt_engine \<Rightarrow> bool" where
  "loaded cfg ts e \<longleftrightarrow> te_bindings e = map (\<lambda>i. binding_of cfg i (ts ! i)) [0..<length ts] \<and> te_live e = set (map tb_device (te_bindings e))
     \<and> te_outputs e = map output_of (filter is_output (te_bindings e)) \<and> 0 \<le> te_input_idx e \<and> te_input_idx e < int (length ts)
     \<and> tb_is_input (te_bindings e ! nat (te_input_idx e))"

lemma allocate_loaded:
  assumes "tv_engine env = Some ts"
  shows "hoare (loading cfg ts 0) (allocate_bindings env ts) (\<lambda>_. loaded cfg ts) (\<lambda>_. load_failed env)"
proof -
  have loop: "hoare (loading cfg ts 0) (for_eff (\<lambda>i. alloc_binding env (ts ! i)) [0..<length ts]) (\<lambda>_. loading cfg ts (length ts)) (\<lambda>_. load_failed env)"
    by (rule hoare_for_upt [where I = "loading cfg ts"]) (auto intro: alloc_binding_loading [OF assms])
  have tail: "hoare (loading cfg ts (length ts)) (seq (modify (\<lambda>e. e\<lparr>te_input_idx := input_index (ic_input_name (te_cfg e)) 0 (te_bindings e) (te_input_idx e),
                       te_outputs := te_outputs e @ filter is_output (te_bindings e)\<rparr>)) (
     bind (gets te_input_idx) (\<lambda>idx.
     seq (throw_if (idx < 0) ''engine has no input tensor'')
         (modify (\<lambda>e. e\<lparr>te_outputs := map output_of (te_outputs e)\<rparr>))))) (\<lambda>_. loaded cfg ts) (\<lambda>_. load_failed env)"
    (is "hoare _ ?m _ _")
  proof (rule hoareI)
    fix e r e' assume l: "loading cfg ts (length ts) e" and run: "?m e = Some (r, e')"
    define idx where "idx = input_index (ic_input_name cfg) 0 (te_bindings e) (-1)"
    have e: "te_cfg e = cfg" "te_input_idx e = -1" "te_outputs e = []" using l by (simp_all add: loading_def)
    have len: "length (te_bindings e) = length ts" using l by (simp add: loading_def)
    note own = loading_owned [OF l]
    have r: "if idx < 0 then r = Throw ''engine has no input tensor'' \<and> e' = e\<lparr>te_input_idx := idx, te_outputs := filter is_output (te_bindings e)\<rparr>
        else r = Ok () \<and> e' = e\<lparr>te_input_idx := idx, te_outputs := map output_of (filter is_output (te_bindings e))\<rparr>"
      using run by (auto simp: eff_defs e idx_def [symmetric] split: if_splits)
    show "case r of Ok a \<Rightarrow> loaded cfg ts e' | Throw x \<Rightarrow> load_failed env e' | Undef \<Rightarrow> False"
    proof (cases "idx < 0")
      case True
      then show ?thesis using r own by (simp add: load_failed_def)
    next
      case False
      then have idx: "0 \<le> idx" "idx < int (length ts)" "tb_is_input (te_bindings e ! nat idx)"
        using input_index_found [OF idx_def [symmetric]] len by auto
      have e': "te_bindings e' = te_bindings e" "te_live e' = te_live e" "te_outputs e' = map output_of (filter is_output (te_bindings e))"
        "te_input_idx e' = idx" "r = Ok ()"
        using r False by auto
      have bs: "te_bindings e = map (\<lambda>i. binding_of cfg i (ts ! i)) [0..<length ts]" using l by (simp add: loading_def)
      show ?thesis unfolding e'(5) outcome.case loaded_def e'(1-4) by (intro conjI bs own refl idx)
    qed
  qed
  show ?thesis unfolding allocate_bindings_def by (rule hoare_seq [OF tail loop])
qed

lemma load_loaded:
  "hoare (\<lambda>e. e = te_new cfg) (te_load env) (\<lambda>_ e. \<exists>ts. tv_engine env = Some ts \<and> loaded cfg ts e) (\<lambda>_. load_failed env)"
proof (cases "tv_engine env")
  case None
  then show ?thesis by (auto simp: hoare_def te_load_def eff_defs load_failed_def te_new_def split: if_splits)
next
  case (Some ts)
  define e0 where "e0 = (te_new cfg)\<lparr>te_stream := True, te_ev_start := True, te_ev_stop := True\<rparr>"
  have "loading cfg ts 0 e0" by (simp add: loading_def e0_def te_new_def)
  then have alloc: "hoare (\<lambda>e. e = e0) (allocate_bindings env ts) (\<lambda>_. loaded cfg ts) (\<lambda>_. load_failed env)"
    by (intro hoare_pre [OF allocate_loaded [OF Some]]) simp
  show ?thesis
  proof (rule hoareI)
    fix e r e' assume "e = te_new cfg" and run: "te_load env e = Some (r, e')"
    then have "(\<exists>x. r = Throw x) \<and> te_live e' = {} \<or> allocate_bindings env ts e0 = Some (r, e')"
      using Some by (auto simp: te_load_def eff_defs e0_def te_new_def split: if_splits)
    then show "case r of Ok a \<Rightarrow> \<exists>ts. tv_engine env = Some ts \<and> loaded cfg ts e' | Throw x \<Rightarrow> load_failed env e' | Undef \<Rightarrow> False"
      using hoareD [OF alloc refl] Some by (cases r) (auto simp: load_failed_def)
  qed
qed

subsection \<open>Inference on a loaded engine\<close>

text \<open>An output after the copy of the words \<open>d\<close> of its binding.\<close>

definition filled :: "tensor_binding \<Rightarrow> rat list \<Rightarrow> tensor_binding" where
  "filled b d = (output_of b)\<lparr>tb_host := take (words_of b) d @ drop (words_of b) (tb_host (output_of b))\<rparr>"

lemma words_fit: "words_of b \<le> length (tb_host (output_of b))"
  by (simp add: words_of_def output_of_def)

lemma copy_outputs_run:
  assumes "\<forall>k < length bs. xv_d2h xv (n + k)" "length pre = n" "te_outputs e = pre @ map output_of bs"
  shows "for_eff (copy_output xv inp) (enumerate n bs) e = Some (Ok (), e\<lparr>te_outputs := pre @ map (\<lambda>b. filled b (xv_run xv inp (tb_name b))) bs\<rparr>)"
  using assms
proof (induction bs arbitrary: n pre e)
  case Nil
  then show ?case by (simp add: ret_def)
next
  case (Cons b bs)
  let ?e = "e\<lparr>te_outputs := (pre @ [filled b (xv_run xv inp (tb_name b))]) @ map output_of bs\<rparr>"
  have step: "copy_output xv inp (n, b) e = Some (Ok (), ?e)"
    using Cons.prems words_fit [of b] by (auto simp: copy_output_def eff_defs filled_def nth_append list_update_append)
  have "for_eff (copy_output xv inp) (enumerate (Suc n) bs) ?e
     = Some (Ok (), ?e\<lparr>te_outputs := (pre @ [filled b (xv_run xv inp (tb_name b))]) @ map (\<lambda>b. filled b (xv_run xv inp (tb_name b))) bs\<rparr>)"
    using Cons.prems by (intro Cons.IH) auto
  then show ?case using step by (simp add: seq_def bind_def)
qed

text \<open>An inference whose calls succeed and which fills every output tensor.\<close>

definition exec_ok :: "exec_env \<Rightarrow> trt_engine \<Rightarrow> bool" where
  "exec_ok xv e \<longleftrightarrow> (\<forall>inp. \<forall>b \<in> set (te_outputs e). length (xv_run xv inp (tb_name b)) = words_of b) \<and> xv_h2d xv \<and> xv_event_start xv \<and> xv_enqueue xv \<and> xv_event_stop xv \<and> (\<forall>k. xv_d2h xv k) \<and> xv_sync xv \<and> xv_elapsed xv"

lemma infer_run:
  assumes "loaded cfg ts e" "exec_ok xv e" "te_outputs e = map output_of (filter is_output (te_bindings e))"
    and "unat (tb_bytes (te_bindings e ! nat (te_input_idx e))) \<le> 4 * length input"
  shows "te_infer xv input e = Some (Ok (xv_ms xv), e\<lparr>te_outputs :=
    map (\<lambda>b. filled b (xv_run xv (take (words_of (te_bindings e ! nat (te_input_idx e))) input) (tb_name b))) (filter is_output (te_bindings e))\<rparr>)"
proof -
  have idx: "0 \<le> te_input_idx e" "te_input_idx e < int (length (te_bindings e))" using assms(1) by (simp_all add: loaded_def)
  have "for_eff (copy_output xv inp) (enumerate 0 (filter is_output (te_bindings e))) e = Some (Ok (), e\<lparr>te_outputs :=
     map (\<lambda>b. filled b (xv_run xv inp (tb_name b))) (filter is_output (te_bindings e))\<rparr>)" for inp
    using copy_outputs_run [of "filter is_output (te_bindings e)" xv 0 "[]" e inp] assms(2,3) by (simp add: exec_ok_def)
  then show ?thesis using idx assms(2,4) by (simp add: te_infer_def eff_defs exec_ok_def Let_def)
qed

subsection \<open>The engine between inferences\<close>

text \<open>The bindings are those of the engine's tensors and every output has the shape and the room of its tensor.\<close>

definition host_fits :: "tensor_binding \<Rightarrow> tensor_binding \<Rightarrow> bool" where
  "host_fits b out \<longleftrightarrow> tb_dims out = tb_dims b \<and> length (tb_host out) = unat (tb_bytes b) div 4 + 1"

definition ready :: "infer_config \<Rightarrow> io_tensor list \<Rightarrow> trt_engine \<Rightarrow> bool" where
  "ready cfg ts e \<longleftrightarrow> te_bindings e = map (\<lambda>i. binding_of cfg i (ts ! i)) [0..<length ts] \<and> te_live e = set (map tb_device (te_bindings e))
     \<and> 0 \<le> te_input_idx e \<and> te_input_idx e < int (length ts) \<and> tb_is_input (te_bindings e ! nat (te_input_idx e))
     \<and> list_all2 host_fits (filter is_output (te_bindings e)) (te_outputs e)"

lemma loaded_ready: "loaded cfg ts e \<Longrightarrow> ready cfg ts e"
  unfolding loaded_def ready_def by (auto simp: host_fits_def output_of_def list_all2_conv_all_nth simp del: set_map)

lemma ready_outputs:
  assumes "ready cfg ts e" "list_all2 host_fits (filter is_output (te_bindings e)) outs"
  shows "ready cfg ts (e\<lparr>te_outputs := outs\<rparr>)"
proof -
  have same: "te_bindings (e\<lparr>te_outputs := outs\<rparr>) = te_bindings e" "te_live (e\<lparr>te_outputs := outs\<rparr>) = te_live e"
    "te_input_idx (e\<lparr>te_outputs := outs\<rparr>) = te_input_idx e" "te_outputs (e\<lparr>te_outputs := outs\<rparr>) = outs" by simp_all
  show ?thesis using assms unfolding ready_def same by blast
qed

text \<open>What the model of an inference relies on: input tensors are made of 32-bit words, and the device fills every output tensor.\<close>

definition word_inputs :: "infer_config \<Rightarrow> io_tensor list \<Rightarrow> bool" where
  "word_inputs cfg ts \<longleftrightarrow> (\<forall>t \<in> set ts. io_input t \<longrightarrow> 4 dvd unat (binding_bytes cfg t))"

definition fills :: "infer_config \<Rightarrow> io_tensor list \<Rightarrow> exec_env \<Rightarrow> bool" where
  "fills cfg ts xv \<longleftrightarrow> (\<forall>inp. \<forall>t \<in> set ts. length (xv_run xv inp (io_name t)) = (unat (binding_bytes cfg t) + 3) div 4)"

lemma copy_output_ready:
  assumes "fills cfg ts xv" "(k, b) \<in> set (enumerate 0 (filter is_output (map (\<lambda>i. binding_of cfg i (ts ! i)) [0..<length ts])))"
  shows "hoare (ready cfg ts) (copy_output xv inp (k, b)) (\<lambda>_. ready cfg ts) (\<lambda>_. ready cfg ts)"
proof (rule hoareI)
  fix e r e' assume rd: "ready cfg ts e" and run: "copy_output xv inp (k, b) e = Some (r, e')"
  let ?bs = "filter is_output (te_bindings e)"
  have bs: "te_bindings e = map (\<lambda>i. binding_of cfg i (ts ! i)) [0..<length ts]" using rd unfolding ready_def by blast
  then have k: "k < length ?bs" "b = ?bs ! k" using assms(2) by (auto simp: in_set_enumerate_eq)
  have fits: "k < length (te_outputs e)" "host_fits b (te_outputs e ! k)" and all: "list_all2 host_fits ?bs (te_outputs e)"
    using rd k by (auto simp: ready_def list_all2_conv_all_nth)
  have "b \<in> set (te_bindings e)" using k nth_mem [of k ?bs] by auto
  then obtain t where t: "t \<in> set ts" "tb_name b = io_name t" "tb_bytes b = binding_bytes cfg t" unfolding bs by (fastforce dest: nth_mem)
  have room: "words_of b \<le> length (tb_host (te_outputs e ! k))" using fits(2) by (simp add: host_fits_def words_of_def)
  define out where "out = (te_outputs e ! k)\<lparr>tb_host := take (words_of b) (xv_run xv inp (tb_name b)) @ drop (words_of b) (tb_host (te_outputs e ! k))\<rparr>"
  have "length (xv_run xv inp (tb_name b)) = words_of b" using assms(1) t by (auto simp: fills_def words_of_def)
  then have "host_fits b out" using fits(2) room by (simp add: host_fits_def out_def)
  then have keep: "list_all2 host_fits ?bs ((te_outputs e)[k := out])"
    using all k by (auto simp: list_all2_conv_all_nth nth_list_update)
  have "r = Throw ''D2H output'' \<and> e' = e \<or> r = Ok () \<and> e' = e\<lparr>te_outputs := (te_outputs e)[k := out]\<rparr>"
    using run fits(1) room by (auto simp: copy_output_def eff_defs out_def split: if_splits)
  then show "case r of Ok a \<Rightarrow> ready cfg ts e' | Throw x \<Rightarrow> ready cfg ts e' | Undef \<Rightarrow> False"
    using rd ready_outputs [OF rd keep] by auto
qed

text \<open>An inference never has undefined behaviour and leaves the engine ready, also when it throws.\<close>

lemma infer_ready:
  assumes "word_inputs cfg ts" "fills cfg ts xv"
  shows "hoare (ready cfg ts) (te_infer xv input) (\<lambda>_. ready cfg ts) (\<lambda>_. ready cfg ts)"
proof -
  let ?bs = "map (\<lambda>i. binding_of cfg i (ts ! i)) [0..<length ts]"
  have step: "hoare (\<lambda>e. ready cfg ts e \<and> te_input_idx e = idx) (te_infer xv input) (\<lambda>_. ready cfg ts) (\<lambda>_. ready cfg ts)" for idx
  proof (cases "0 \<le> idx \<and> idx < int (length ts) \<and> io_input (ts ! nat idx)")
    case True
    then have inb: "?bs ! nat idx = binding_of cfg (nat idx) (ts ! nat idx)" "4 dvd unat (binding_bytes cfg (ts ! nat idx))"
      using assms(1) by (auto simp: word_inputs_def)
    then have len: "unat (binding_bytes cfg (ts ! nat idx)) \<le> 4 * n \<longleftrightarrow> unat (binding_bytes cfg (ts ! nat idx)) div 4 \<le> n" for n by (elim dvdE) simp
    have loop: "hoare (ready cfg ts) (for_eff (copy_output xv inp) (enumerate 0 (filter is_output ?bs))) (\<lambda>_. ready cfg ts) (\<lambda>_. ready cfg ts)" for inp
      by (rule hoare_for_inv) (use copy_output_ready [OF assms(2)] in auto)
    have rest: "hoare (ready cfg ts) (seq (throw_if (\<not> xv_sync xv) m1) (seq (throw_if (\<not> xv_elapsed xv) m2) (ret (xv_ms xv))))
        (\<lambda>_. ready cfg ts) (\<lambda>_. ready cfg ts)" for m1 m2
      by (auto simp: hoare_def eff_defs)
    have go: "hoare (ready cfg ts) (seq (throw_if (length input < unat (tb_bytes (?bs ! nat idx)) div 4) m0) (
        if 4 * length input < unat (tb_bytes (?bs ! nat idx)) then undef
        else seq (throw_if (\<not> xv_h2d xv) m1) (seq (throw_if (\<not> xv_event_start xv) m2) (seq (throw_if (\<not> xv_enqueue xv) m3)
          (seq (throw_if (\<not> xv_event_stop xv) m4) (seq (for_eff (copy_output xv inp) (enumerate 0 (filter is_output ?bs)))
          (seq (throw_if (\<not> xv_sync xv) m5) (seq (throw_if (\<not> xv_elapsed xv) m6) (ret (xv_ms xv)))))))))) (\<lambda>_. ready cfg ts) (\<lambda>_. ready cfg ts)"
      for m0 m1 m2 m3 m4 m5 m6 inp
    proof (cases "unat (binding_bytes cfg (ts ! nat idx)) \<le> 4 * length input")
      case enough: True
      then show ?thesis unfolding inb(1) using len [of "length input"]
        by (auto simp: not_less intro!: hoare_seq [OF _ hoare_pre [OF hoare_throw_if]] hoare_seq [OF rest loop])
    next
      case short: False
      then show ?thesis unfolding inb(1) using len [of "length input"] by (simp add: hoare_def eff_defs)
    qed
    show ?thesis
      unfolding te_infer_def
      by (rule hoare_gets_const [where c = "(?bs, idx)"], simp add: ready_def, rule hoare_pre [where P' = "ready cfg ts"])
        (use True go in \<open>simp_all add: Let_def\<close>)
  next
    case False
    then have "\<not> ready cfg ts e" if "te_input_idx e = idx" for e using that by (auto simp: ready_def)
    then show ?thesis by (auto simp: hoare_def)
  qed
  show ?thesis
  proof (rule hoareI)
    fix e r e' assume "ready cfg ts e" "te_infer xv input e = Some (r, e')"
    then show "case r of Ok a \<Rightarrow> ready cfg ts e' | Throw x \<Rightarrow> ready cfg ts e' | Undef \<Rightarrow> False"
      using hoareD [OF step [of "te_input_idx e"]] by blast
  qed
qed

subsection \<open>A loaded engine\<close>

lemma loaded_frees: "loaded cfg ts e \<Longrightarrow> te_live (te_destroy e) = {}"
proof -
  assume "loaded cfg ts e"
  then have "te_live e = set (map tb_device (te_bindings e))" unfolding loaded_def by blast
  then show ?thesis by (simp add: te_destroy_def)
qed

lemma loaded_names:
  assumes "loaded cfg ts e"
  shows "map tb_name (te_outputs e) = map io_name (filter (\<lambda>t. \<not> io_input t) ts)"
proof -
  have outs: "te_outputs e = map output_of (filter is_output (te_bindings e))" using assms by (simp add: loaded_def)
  have bs: "te_bindings e = map (\<lambda>i. binding_of cfg i (ts ! i)) [0..<length ts]" using assms by (simp add: loaded_def)
  have "map (\<lambda>i. ts ! i) (filter (\<lambda>i. \<not> io_input (ts ! i)) [0..<length ts]) = filter (\<lambda>t. \<not> io_input t) (map (\<lambda>i. ts ! i) [0..<length ts])"
    by (simp add: filter_map comp_def)
  then show ?thesis
    unfolding outs bs by (simp add: filter_map comp_def is_output_def output_of_def map_nth) (metis (no_types, lifting) map_map comp_apply map_eq_conv)
qed

lemma loaded_refuses:
  assumes "loaded cfg ts e" "length input < unat (tb_bytes (te_bindings e ! nat (te_input_idx e))) div 4"
  shows "te_infer xv input e = Some (Throw ''infer(): input blob smaller than engine input'', e)"
proof -
  have "0 \<le> te_input_idx e" "te_input_idx e < int (length (te_bindings e))" using assms(1) by (simp_all add: loaded_def)
  then show ?thesis using assms(2) by (simp add: te_infer_def eff_defs Let_def)
qed

lemma loaded_infers:
  assumes "loaded cfg ts e" "exec_ok xv e" "unat (tb_bytes (te_bindings e ! nat (te_input_idx e))) \<le> 4 * length input"
  shows "\<exists>e'. te_infer xv input e = Some (Ok (xv_ms xv), e') \<and> te_bindings e' = te_bindings e \<and> te_live e' = te_live e
     \<and> (\<forall>k < length (te_outputs e). tb_name (te_outputs e' ! k) = tb_name (te_outputs e ! k)
         \<and> take (words_of (te_outputs e ! k)) (tb_host (te_outputs e' ! k))
           = xv_run xv (take (words_of (te_bindings e ! nat (te_input_idx e))) input) (tb_name (te_outputs e ! k)))"
proof -
  let ?run = "xv_run xv (take (words_of (te_bindings e ! nat (te_input_idx e))) input)"
  have outs: "te_outputs e = map output_of (filter is_output (te_bindings e))" using assms(1) by (simp add: loaded_def)
  have w: "words_of (output_of b) = words_of b" "tb_name (output_of b) = tb_name b" for b by (simp_all add: words_of_def output_of_def)
  have "take (words_of b) (tb_host (filled b (?run (tb_name b)))) = ?run (tb_name b)" if "b \<in> set (filter is_output (te_bindings e))" for b
  proof -
    have "output_of b \<in> set (te_outputs e)" using that unfolding outs by auto
    then have "length (?run (tb_name b)) = words_of b" using assms(2) by (metis exec_ok_def w)
    then show ?thesis by (simp add: filled_def)
  qed
  then have "take (words_of (filter is_output (te_bindings e) ! k)) (tb_host (filled (filter is_output (te_bindings e) ! k) (?run (tb_name (filter is_output (te_bindings e) ! k)))))
      = ?run (tb_name (filter is_output (te_bindings e) ! k))" if "k < length (filter is_output (te_bindings e))" for k
    using that nth_mem by blast
  moreover have "tb_name (filled b d) = tb_name b" for b d by (simp add: filled_def output_of_def)
  ultimately show ?thesis using infer_run [OF assms(1) _ outs, of xv input] assms(2,3) by (simp add: outs w)
qed

subsection \<open>Property\<close>

text \<open>C12: A session with the engine is safe and delivers the outputs. Loading never has undefined behaviour. If it
  throws, destroying the object frees all device memory unless TensorRT refused the address of a tensor, the one path on
  which the allocation has no owner yet. If it succeeds, destruction frees everything; there is one output per
  output tensor of the engine, in order; an input blob that covers the input tensor is run and every output
  then holds the words of its tensor; and a blob with fewer elements is refused without a change.\<close>

theorem trt_session:
  assumes "te_load env (te_new cfg) = Some (r, e)"
  shows "r \<noteq> Undef
   \<and> (te_live (te_destroy e) = {} \<or> (\<exists>ts t. r \<noteq> Ok () \<and> tv_engine env = Some ts \<and> t \<in> set ts \<and> \<not> tv_set_address env (io_name t)))
   \<and> (r = Ok () \<longrightarrow> (\<exists>ts. tv_engine env = Some ts \<and> map tb_name (te_outputs e) = map io_name (filter (\<lambda>t. \<not> io_input t) ts)
        \<and> (\<forall>xv input. exec_ok xv e \<and> unat (tb_bytes (te_bindings e ! nat (te_input_idx e))) \<le> 4 * length input \<longrightarrow>
             (\<exists>e'. te_infer xv input e = Some (Ok (xv_ms xv), e') \<and> te_bindings e' = te_bindings e \<and> te_live e' = te_live e
               \<and> (\<forall>k < length (te_outputs e). tb_name (te_outputs e' ! k) = tb_name (te_outputs e ! k)
                   \<and> take (words_of (te_outputs e ! k)) (tb_host (te_outputs e' ! k))
                     = xv_run xv (take (words_of (te_bindings e ! nat (te_input_idx e))) input) (tb_name (te_outputs e ! k)))))
        \<and> (\<forall>xv input. length input < unat (tb_bytes (te_bindings e ! nat (te_input_idx e))) div 4 \<longrightarrow>
             te_infer xv input e = Some (Throw ''infer(): input blob smaller than engine input'', e))))"
proof -
  have post: "case r of Ok a \<Rightarrow> \<exists>ts. tv_engine env = Some ts \<and> loaded cfg ts e | Throw x \<Rightarrow> load_failed env e | Undef \<Rightarrow> False"
    using hoareD [OF load_loaded refl assms] .
  show ?thesis
  proof (cases r)
    case (Throw x)
    then show ?thesis using post by (auto simp: load_failed_def te_destroy_def)
  next
    case (Ok u)
    then obtain ts where ts: "tv_engine env = Some ts" "loaded cfg ts e" using post by auto
    show ?thesis using Ok ts(1) loaded_names [OF ts(2)] loaded_frees [OF ts(2)] loaded_infers [OF ts(2)] loaded_refuses [OF ts(2)] by blast
  qed (use post in simp)
qed

theorem trt_session_witness:
  "\<exists>e. te_load \<lparr>tv_set_device = True, tv_open = True, tv_read = True, tv_runtime = True,
       tv_engine = Some [\<lparr>io_name = ''images'', io_input = True, io_dtype = kFLOAT, io_shape = [-1, 3, -1, -1]\<rparr>,
          \<lparr>io_name = ''output0'', io_input = False, io_dtype = kFLOAT, io_shape = [1, 2]\<rparr>],
       tv_context = True, tv_stream = True, tv_ev_start = True, tv_ev_stop = True, tv_set_shape = (\<lambda>_ _. True), tv_malloc = (\<lambda>_. True),
       tv_set_address = (\<lambda>_. True)\<rparr> (te_new infer_default) = Some (Ok (), e) \<and> te_live (te_destroy e) = {}"
proof -
  define env where "env = \<lparr>tv_set_device = True, tv_open = True, tv_read = True, tv_runtime = True,
       tv_engine = Some [\<lparr>io_name = ''images'', io_input = True, io_dtype = kFLOAT, io_shape = [-1, 3, -1, -1]\<rparr>,
          \<lparr>io_name = ''output0'', io_input = False, io_dtype = kFLOAT, io_shape = [1, 2]\<rparr>],
       tv_context = True, tv_stream = True, tv_ev_start = True, tv_ev_stop = True, tv_set_shape = (\<lambda>_ _. True), tv_malloc = (\<lambda>_. True),
       tv_set_address = (\<lambda>_. True)\<rparr>"
  obtain e where e: "te_load env (te_new infer_default) = Some (Ok (), e)"
    by (simp add: env_def te_load_def allocate_bindings_def alloc_binding_def eff_defs te_new_def infer_default_def upt_rec)
  from trt_session [OF e] have "te_live (te_destroy e) = {}" by auto
  with e show ?thesis unfolding env_def by blast
qed

end
