(* ===== verification/Detector_Node.thy ===== *)
theory Detector_Node
  imports Letterbox Socketcan_Publisher Benchmark Gst_Source Trt_Engine
begin

text \<open>
  The ROS 2 node (\<open>detector_node.cpp\<close> of \<open>src/edge-ai-detector-tensorrt-ros2\<close>): its
  parameters, the capture and inference loop that composes the camera front end, the letterbox, the
  engine, the post-processing, the CAN publisher and the benchmark trace, and the published message.

  The worker thread is an action on \<open>worker\<close>, the objects it owns with what it has published. Everything an
  iteration reads from outside is a \<open>tick\<close>: the answer of the pull, the clock readings in the order the code takes
  them, what the engine computes, the kernel's answers to CAN writes. The loop runs over the list of ticks and ends with it,
  which is \<open>stop_\<close> being set or ROS shutting down; \<open>Node_Lifecycle\<close> has the flags and the other threads.
\<close>

subsection \<open>Parameters\<close>

record node_params =
  np_engine_path :: string
  np_device :: string
  np_cap_w :: int
  np_cap_h :: int
  np_cap_fps :: int
  np_mjpeg :: bool
  np_jetson_csi :: bool
  np_input_w :: int
  np_input_h :: int
  np_num_classes :: int
  np_conf_thr :: rat
  np_iou_thr :: rat
  np_transposed :: bool
  np_publish_can :: bool
  np_can_iface :: string
  np_bench_csv :: string
  np_frame_id :: string

definition node_defaults :: node_params where
  "node_defaults = \<lparr>np_engine_path = ''model_int8.engine'', np_device = ''/dev/video0'', np_cap_w = 1280, np_cap_h = 720, np_cap_fps = 30,
     np_mjpeg = True, np_jetson_csi = False, np_input_w = 640, np_input_h = 640, np_num_classes = 80, np_conf_thr = f64 (25/100),
     np_iou_thr = f64 (45/100), np_transposed = True, np_publish_can = False, np_can_iface = ''can0'', np_bench_csv = [],
     np_frame_id = ''camera_optical''\<rparr>"

definition node_scfg :: "node_params \<Rightarrow> gst_source_config" where
  "node_scfg p = gst_source_default\<lparr>gc_device := np_device p, gc_width := np_cap_w p, gc_height := np_cap_h p, gc_fps := np_cap_fps p,
     gc_mjpeg := np_mjpeg p, gc_jetson_csi := np_jetson_csi p, gc_format := ''BGR''\<rparr>"

definition node_icfg :: "node_params \<Rightarrow> infer_config" where
  "node_icfg p = infer_default\<lparr>ic_engine_path := np_engine_path p, ic_input_w := np_input_w p, ic_input_h := np_input_h p\<rparr>"

definition node_pp :: "node_params \<Rightarrow> postprocess_config" where
  "node_pp p = postprocess_default\<lparr>pp_num_classes := np_num_classes p, pp_conf_threshold := f32 (np_conf_thr p),
     pp_iou_threshold := f32 (np_iou_thr p), pp_transposed := np_transposed p\<rparr>"

text \<open>The trace the constructor prepares; \<open>csv_ok\<close> says whether the file can be created.\<close>

definition node_bench :: "node_params \<Rightarrow> bool \<Rightarrow> benchmark_trace" where
  "node_bench p csv_ok = (if np_bench_csv p = [] then bt_new else bt_open csv_ok bt_new)"

subsection \<open>The published message\<close>

record detection_msg =
  dm_x :: rat
  dm_y :: rat
  dm_size_x :: rat
  dm_size_y :: rat
  dm_class_id :: string
  dm_score :: rat

record array_msg =
  am_stamp :: int
  am_frame_id :: string
  am_detections :: "detection_msg list"

definition detection_to_msg :: "detection \<Rightarrow> detection_msg" where
  "detection_to_msg d = \<lparr>dm_x = f64 (det_x d + f64 (det_w d * (1/2))), dm_y = f64 (det_y d + f64 (det_h d * (1/2))),
     dm_size_x = det_w d, dm_size_y = det_h d, dm_class_id = int_to_string (det_class_id d), dm_score = det_score d\<rparr>"

definition publish_msg :: "node_params \<Rightarrow> int \<Rightarrow> detection list \<Rightarrow> array_msg" where
  "publish_msg p stamp dets = \<lparr>am_stamp = stamp, am_frame_id = np_frame_id p, am_detections = map detection_to_msg dets\<rparr>"

subsection \<open>The loop\<close>

record worker =
  wk_source :: gst_source
  wk_engine :: trt_engine
  wk_can :: "can_publisher option"
  wk_fds :: "int set"
  wk_heap :: heap
  wk_fid :: u64
  wk_bench :: benchmark_trace
  wk_published :: "array_msg list"
  wk_can_sent :: "can_frame list"

record tick =
  tk_loop0 :: int
  tk_pull :: pull
  tk_frame_ns :: u64
  tk_captured :: int
  tk_pre :: "int \<times> int"
  tk_exec :: exec_env
  tk_post :: "int \<times> int"
  tk_publish :: "int \<times> int"
  tk_stamp :: int
  tk_can_write :: "nat \<Rightarrow> int"
  tk_statm :: "(int \<times> int) option"
  tk_end :: int

type_synonym 'a wact = "(worker, string, 'a) eff"

text \<open>An action of the engine inside the worker, a computation that may be undefined, and the destructor of
  the frame at the end of its scope, which also runs when an exception leaves it.\<close>

definition on_engine :: "'a tact \<Rightarrow> 'a wact" where
  "on_engine m w = (case m (wk_engine w) of None \<Rightarrow> None | Some (r, e) \<Rightarrow> Some (r, w\<lparr>wk_engine := e\<rparr>))"

definition defined :: "'a option \<Rightarrow> 'a wact" where
  "defined v = (case v of None \<Rightarrow> undef | Some a \<Rightarrow> ret a)"

definition scope_frame :: "(nat \<Rightarrow> sample_info) \<Rightarrow> gframe \<Rightarrow> 'a wact \<Rightarrow> 'a wact" where
  "scope_frame info f m w = (case m w of None \<Rightarrow> None | Some (r, v) \<Rightarrow> Some (r, v\<lparr>wk_heap := snd (gf_release info f (wk_heap v))\<rparr>))"

definition capture_latency :: "int \<Rightarrow> u64 \<Rightarrow> rat" where
  "capture_latency now_ns frame_ns = f64 (scoped_timer_ms 0 now_ns - f64 (f64 (of_nat (unat frame_ns)) / 1000000))"

text \<open>Rows and columns from the shape of the first output (\<open>int(d.d[k])\<close> keeps 32 bits), and the detections.\<close>

definition output_rows_cols :: "int list \<Rightarrow> int \<times> int" where
  "output_rows_cols d =
     (if 2 \<le> length d then sint (word_of_int (d ! (length d - 2)) :: 32 word) else 0,
      if 1 \<le> length d then sint (word_of_int (d ! (length d - 1)) :: 32 word) else 0)"

definition node_detect :: "(detection list \<Rightarrow> detection list) \<Rightarrow> node_params \<Rightarrow> letterbox_info \<Rightarrow> tensor_binding list \<Rightarrow> detection list option" where
  "node_detect srt p lb outs =
     (case outs of [] \<Rightarrow> Some []
      | out # _ \<Rightarrow> (case output_rows_cols (tb_dims out) of (a, b) \<Rightarrow> decode_yolo srt (tb_host out) a b lb (node_pp p)))"

text \<open>From a valid frame to the recorded metrics; \<open>fid\<close> is the number of the iteration.\<close>

definition node_frame :: "(detection list \<Rightarrow> detection list) \<Rightarrow> node_params \<Rightarrow> tick \<Rightarrow> u64 \<Rightarrow> gframe \<Rightarrow> unit wact" where
  "node_frame srt p tk fid f =
     bind (defined (case gf_data f of None \<Rightarrow> None | Some d \<Rightarrow>
             letterbox_bgr_to_nchw d (gf_width f) (gf_height f) (gf_stride f) (np_input_w p) (np_input_h p))) (\<lambda>(lb, blob).
     bind (on_engine (te_infer (tk_exec tk) blob)) (\<lambda>ms.
     bind (gets (\<lambda>w. te_outputs (wk_engine w))) (\<lambda>outs.
     bind (defined (node_detect srt p lb outs)) (\<lambda>dets.
     seq (modify (\<lambda>w. w\<lparr>wk_published := wk_published w @ [publish_msg p (tk_stamp tk) dets],
            wk_can_sent := wk_can_sent w @ (case wk_can w of None \<Rightarrow> []
              | Some c \<Rightarrow> snd (can_publish (tk_can_write tk) c dets (gf_width f) (gf_height f)))\<rparr>)) (
     bind (gets wk_bench) (\<lambda>b.
     bind (defined (bt_record \<lparr>fm_frame_id = fid, fm_capture_latency_ms = capture_latency (tk_captured tk) (gf_capture_mono_ns f),
            fm_preprocess_ms = scoped_timer_ms (fst (tk_pre tk)) (snd (tk_pre tk)), fm_inference_ms = ms,
            fm_postprocess_ms = scoped_timer_ms (fst (tk_post tk)) (snd (tk_post tk)),
            fm_publish_ms = scoped_timer_ms (fst (tk_publish tk)) (snd (tk_publish tk)),
            fm_end_to_end_ms = scoped_timer_ms (tk_loop0 tk) (tk_end tk), fm_rss_mib = rss_mib (tk_statm tk),
            fm_detections = int (length dets)\<rparr> b)) (\<lambda>b'.
     modify (\<lambda>w. w\<lparr>wk_bench := b'\<rparr>))))))))"

definition node_iter :: "(nat \<Rightarrow> sample_info) \<Rightarrow> (detection list \<Rightarrow> detection list) \<Rightarrow> node_params \<Rightarrow> tick \<Rightarrow> unit wact" where
  "node_iter info srt p tk =
     bind (gets (\<lambda>w. (wk_fid w, gs_next info (tk_pull tk) (tk_frame_ns tk) (wk_source w) (wk_heap w)))) (\<lambda>(fid, f, g, h).
     seq (modify (\<lambda>w. w\<lparr>wk_fid := fid + 1, wk_source := g, wk_heap := h\<rparr>))
         (scope_frame info f (if gf_valid f then node_frame srt p tk fid f else ret ())))"

subsection \<open>The worker thread\<close>

record node_env =
  ne_trt :: trt_env
  ne_can :: can_sys
  ne_launch :: launch_env

definition on_source :: "(gst_source, string, 'a) eff \<Rightarrow> 'a wact" where
  "on_source m w = (case m (wk_source w) of None \<Rightarrow> None | Some (r, g) \<Rightarrow> Some (r, w\<lparr>wk_source := g\<rparr>))"

text \<open>\<open>unique_ptr<SocketCanPublisher>\<close> and the descriptors open afterwards; a publisher that cannot be opened is destroyed.\<close>

definition node_can :: "can_sys \<Rightarrow> node_params \<Rightarrow> int set \<Rightarrow> can_publisher option \<times> int set" where
  "node_can sys p fds =
     (if \<not> np_publish_can p then (None, fds)
      else case can_open sys (can_new (np_can_iface p) 0x300) fds of
        (True, c, fds') \<Rightarrow> (Some c, fds')
      | (False, c, fds') \<Rightarrow> (None, can_destroy c fds'))"

text \<open>The body of the \<open>try\<close> block up to and including \<open>source.stop()\<close>.\<close>

definition node_try :: "node_env \<Rightarrow> (nat \<Rightarrow> sample_info) \<Rightarrow> (detection list \<Rightarrow> detection list) \<Rightarrow> node_params \<Rightarrow> tick list \<Rightarrow> unit wact" where
  "node_try env info srt p ticks =
     seq (on_engine (te_load (ne_trt env))) (
     seq (modify (\<lambda>w. case node_can (ne_can env) p (wk_fds w) of (can, fds) \<Rightarrow> w\<lparr>wk_can := can, wk_fds := fds\<rparr>)) (
     seq (on_source (gs_start (ne_launch env))) (
     seq (for_eff (node_iter info srt p) ticks)
         (modify (\<lambda>w. w\<lparr>wk_source := gs_stop (wk_source w)\<rparr>)))))"

text \<open>The destructors of the publisher, the engine and the source.\<close>

definition close_can :: "can_publisher option \<Rightarrow> int set \<Rightarrow> int set" where
  "close_can c fds = (case c of None \<Rightarrow> fds | Some c \<Rightarrow> can_destroy c fds)"

definition node_cleanup :: "worker \<Rightarrow> worker" where
  "node_cleanup w = w\<lparr>wk_can := None, wk_fds := close_can (wk_can w) (wk_fds w),
     wk_engine := te_destroy (wk_engine w), wk_source := gs_stop (wk_source w)\<rparr>"

definition node_start :: "node_params \<Rightarrow> benchmark_trace \<Rightarrow> int set \<Rightarrow> worker" where
  "node_start p b fds = \<lparr>wk_source = gs_new (node_scfg p), wk_engine = te_new (node_icfg p), wk_can = None, wk_fds = fds, wk_heap = \<lparr>hp_refs = {#}, hp_maps = {#}\<rparr>,
     wk_fid = 0, wk_bench = b, wk_published = [], wk_can_sent = []\<rparr>"

text \<open>\<open>run()\<close>: the destructors run on both ways out of the \<open>try\<close> block; an exception is fatal and shuts ROS down
  (the message is the first component). \<open>None\<close> is undefined behaviour.\<close>

definition node_run :: "node_env \<Rightarrow> (nat \<Rightarrow> sample_info) \<Rightarrow> (detection list \<Rightarrow> detection list) \<Rightarrow> node_params \<Rightarrow> bool \<Rightarrow> int set \<Rightarrow> tick list \<Rightarrow> (string option \<times> worker) option" where
  "node_run env info srt p csv_ok fds ticks =
     (case node_try env info srt p ticks (node_start p (node_bench p csv_ok) fds) of
        Some (Ok _, w) \<Rightarrow> Some (None, node_cleanup w)
      | Some (Throw m, w) \<Rightarrow> Some (Some m, node_cleanup w)
      | _ \<Rightarrow> None)"

subsection \<open>What the node relies on\<close>

text \<open>The ticks whose pull gives a frame with data; such a sample says its geometry and holds its pixels.\<close>

definition tick_valid :: "(nat \<Rightarrow> sample_info) \<Rightarrow> tick \<Rightarrow> bool" where
  "tick_valid info tk \<longleftrightarrow> (case tk_pull tk of Pulled s \<Rightarrow> si_buffer (info s) \<and> si_caps (info s) \<noteq> None \<and> si_maps (info s) | _ \<Rightarrow> False)"

definition holds_pixels :: "sample_info \<Rightarrow> bool" where
  "holds_pixels i \<longleftrightarrow> (case si_caps i of Some (Some w, Some h) \<Rightarrow> axis_ok w \<and> axis_ok h \<and> 3 * w \<le> int (length (si_data i)) div h | _ \<Rightarrow> False)"

definition tick_ok :: "(nat \<Rightarrow> sample_info) \<Rightarrow> tick \<Rightarrow> bool" where
  "tick_ok info tk \<longleftrightarrow> tick_valid info tk \<longrightarrow> (case tk_pull tk of Pulled s \<Rightarrow> holds_pixels (info s) | _ \<Rightarrow> True)"

text \<open>The engine's tensors fit the parameters: its inputs are 32-bit, its first output is a 32-bit tensor with
  at least two axes and the attributes of a candidate cover the configured classes.\<close>

definition output_fits :: "node_params \<Rightarrow> io_tensor \<Rightarrow> bool" where
  "output_fits p t \<longleftrightarrow> 2 \<le> length (io_shape t) \<and> (\<forall>d \<in> set (io_shape t). 1 \<le> d) \<and> prod_list (io_shape t) < 2 ^ 31 \<and> dtype_size (io_dtype t) = 4
     \<and> (case output_rows_cols (io_shape t) of (a, b) \<Rightarrow> yolo_cls_off a b (node_pp p) + np_num_classes p \<le> yolo_attrs a b (node_pp p))"

definition engine_fits :: "node_params \<Rightarrow> io_tensor list \<Rightarrow> bool" where
  "engine_fits p ts \<longleftrightarrow> word_inputs (node_icfg p) ts \<and> 0 \<le> np_num_classes p
     \<and> (case filter (\<lambda>t. \<not> io_input t) ts of [] \<Rightarrow> True | t # _ \<Rightarrow> output_fits p t)"

subsection \<open>The shape of the first output\<close>

lemma volume_prod:
  assumes "\<forall>d \<in> set dims. 1 \<le> d"
  shows "volume dims = of_int (prod_list dims)"
proof -
  have "foldl (\<lambda>v d. v * of_int (if d < 0 then 1 else d)) v dims = v * of_int (prod_list dims)" for v :: u64
    using assms by (induction dims arbitrary: v) (auto simp: mult.assoc)
  then show ?thesis by (simp add: volume_def)
qed

lemma prod_list_ge_1: "\<forall>d \<in> set ds. (1::int) \<le> d \<Longrightarrow> 1 \<le> prod_list ds"
proof (induction ds)
  case (Cons d ds)
  then have "1 * 1 \<le> d * prod_list ds" by (intro mult_mono) auto
  then show ?case by simp
qed simp

lemma last_two_fit:
  assumes "2 \<le> length dims" "\<forall>d \<in> set dims. (1::int) \<le> d" "prod_list dims < 2 ^ 31"
  obtains a b where "output_rows_cols dims = (a, b)" "1 \<le> a" "1 \<le> b" "a * b \<le> prod_list dims"
proof -
  define n where "n = length dims - 2"
  define a where "a = dims ! n"
  define b where "b = dims ! Suc n"
  have len: "length dims = n + 2" using assms(1) by (simp add: n_def)
  have "drop n dims = [a, b]"
    using len Cons_nth_drop_Suc [of n dims] Cons_nth_drop_Suc [of "Suc n" dims] by (simp add: a_def b_def)
  then have split: "dims = take n dims @ [a, b]" by (metis append_take_drop_id)
  have ge: "1 \<le> a" "1 \<le> b" using assms(2) len by (simp_all add: a_def b_def)
  have "\<forall>d \<in> set (take n dims). 1 \<le> d" using assms(2) by (auto dest: in_set_takeD)
  then have "1 * (a * b) \<le> prod_list (take n dims) * (a * b)" using ge by (intro mult_right_mono prod_list_ge_1) auto
  moreover have "prod_list dims = prod_list (take n dims) * (a * b)" by (subst split) simp
  ultimately have le: "a * b \<le> prod_list dims" by simp
  have "a * 1 \<le> a * b" "1 * b \<le> a * b" using ge by (auto intro: mult_left_mono mult_right_mono)
  then have "a < 2 ^ 31" "b < 2 ^ 31" using le assms(3) by linarith+
  then have "sint (word_of_int a :: 32 word) = a" "sint (word_of_int b :: 32 word) = b"
    using ge by (simp_all add: signed_of_int signed_take_bit_int_eq_self)
  then have "output_rows_cols dims = (a, b)"
    using len by (simp add: output_rows_cols_def a_def b_def)
  with that ge le show thesis by blast
qed

lemma first_output_room:
  assumes "output_fits p t" "\<not> io_input t" "host_fits (binding_of cfg k t) out"
  obtains a b where "output_rows_cols (tb_dims out) = (a, b)" "nat (a * b) \<le> length (tb_host out)"
    "yolo_cls_off a b (node_pp p) + np_num_classes p \<le> yolo_attrs a b (node_pp p)"
proof -
  have dims: "tb_dims out = io_shape t" using assms(2,3) by (simp add: host_fits_def binding_of_def binding_dims_def)
  obtain a b where ab: "output_rows_cols (io_shape t) = (a, b)" "a * b \<le> prod_list (io_shape t)"
    by (rule last_two_fit [of "io_shape t"]) (use assms(1) in \<open>auto simp: output_fits_def\<close>)
  define n where "n = prod_list (io_shape t)"
  have n: "1 \<le> n" "n < 2 ^ 31" using assms(1) prod_list_ge_1 [of "io_shape t"] by (auto simp: n_def output_fits_def)
  have "binding_bytes cfg t = of_int (n * 4)"
    using assms(1,2) volume_prod [of "io_shape t"] by (simp add: binding_bytes_def binding_dims_def output_fits_def n_def)
  moreover have "unat (of_int (n * 4) :: u64) = nat (n * 4)" using n by (intro unat_word_of_int_small) auto
  ultimately have "unat (binding_bytes cfg t) = nat (n * 4)" by (simp only:)
  then have "length (tb_host out) = nat (n * 4) div 4 + 1" using assms(3) by (simp add: host_fits_def)
  then have "nat (a * b) \<le> length (tb_host out)" using ab(2) n(1) unfolding n_def [symmetric] by (simp add: nat_mult_distrib)
  then show thesis using that ab(1) assms(1) by (simp add: dims output_fits_def)
qed

subsection \<open>One frame\<close>

text \<open>A message for a frame: at most 300 detections, all inside the frame of its sample.\<close>

definition msg_ok :: "(nat \<Rightarrow> sample_info) \<Rightarrow> node_params \<Rightarrow> tick \<Rightarrow> array_msg \<Rightarrow> bool" where
  "msg_ok info p tk m \<longleftrightarrow> (\<exists>s w h lb dets. tk_pull tk = Pulled s \<and> si_caps (info s) = Some (Some w, Some h) \<and> lb_src_w lb = w \<and> lb_src_h lb = h
     \<and> m = publish_msg p (tk_stamp tk) dets \<and> length dets \<le> 300 \<and> (\<forall>d \<in> set dets. det_ok lb (node_pp p) d))"

text \<open>The trace after the ticks \<open>pre\<close>: a message and a row for every valid frame.\<close>

definition traced :: "(nat \<Rightarrow> sample_info) \<Rightarrow> node_params \<Rightarrow> bool \<Rightarrow> tick list \<Rightarrow> worker \<Rightarrow> bool" where
  "traced info p csv pre w \<longleftrightarrow> list_all2 (msg_ok info p) (filter (tick_valid info) pre) (wk_published w)
     \<and> (\<exists>ms. bt_tracks (wk_bench w) ms \<and> map fm_detections ms = map (\<lambda>m. int (length (am_detections m))) (wk_published w)
         \<and> (csv \<longrightarrow> bt_csv_open (wk_bench w) \<and> \<not> bt_csv_fail (wk_bench w) \<and> bt_csv (wk_bench w) = csv_header # map csv_row ms))"

lemma traced_engine [simp]: "traced info p csv pre (w\<lparr>wk_engine := e\<rparr>) = traced info p csv pre w"
  by (simp add: traced_def)

lemma traced_record:
  assumes "traced info p csv pre w" "tick_valid info tk" "msg_ok info p tk m" "fm_detections fm = int (length (am_detections m))"
  obtains b where "bt_record fm (wk_bench w) = Some b"
    "\<And>c. traced info p csv (pre @ [tk]) (w\<lparr>wk_published := wk_published w @ [m], wk_can_sent := c, wk_bench := b\<rparr>)"
proof -
  obtain ms where ms: "bt_tracks (wk_bench w) ms" "map fm_detections ms = map (\<lambda>m. int (length (am_detections m))) (wk_published w)"
    "csv \<longrightarrow> bt_csv_open (wk_bench w) \<and> \<not> bt_csv_fail (wk_bench w) \<and> bt_csv (wk_bench w) = csv_header # map csv_row ms"
    using assms(1) by (auto simp: traced_def)
  obtain b where b: "bt_record fm (wk_bench w) = Some b" "bt_tracks b (ms @ [fm])" "bt_csv_open b = bt_csv_open (wk_bench w)"
    "bt_csv_open (wk_bench w) \<longrightarrow> bt_csv_fail b = bt_csv_fail (wk_bench w)"
    "bt_csv b = (if bt_csv_open (wk_bench w) \<and> \<not> bt_csv_fail (wk_bench w) then bt_csv (wk_bench w) @ [csv_row fm] else bt_csv (wk_bench w))"
    using bt_record_tracks [OF ms(1)] by blast
  have "traced info p csv (pre @ [tk]) (w\<lparr>wk_published := wk_published w @ [m], wk_can_sent := c, wk_bench := b\<rparr>)" for c
    unfolding traced_def using assms b ms by (auto simp: traced_def intro!: list_all2_appendI exI [of _ "ms @ [fm]"])
  with that b(1) show thesis by blast
qed

text \<open>What a frame made of a valid sample holds.\<close>

lemma frame_letterboxed:
  assumes "gs_appsink g" "gs_next info (tk_pull tk) now g h = (f, g', h')" "gf_valid f" "tick_ok info tk"
    and "axis_ok (np_input_w p)" "axis_ok (np_input_h p)"
  obtains s w ht d lb blob where "tick_valid info tk" "tk_pull tk = Pulled s" "si_caps (info s) = Some (Some w, Some ht)" "gf_data f = Some d"
    "letterbox_bgr_to_nchw d (gf_width f) (gf_height f) (gf_stride f) (np_input_w p) (np_input_h p) = Some (lb, blob)"
    "lb_src_w lb = w" "lb_src_h lb = ht" "1 \<le> w" "1 \<le> ht" "0 < lb_scale lb"
proof -
  obtain s where s: "tk_pull tk = Pulled s" "si_buffer (info s)" "si_caps (info s) \<noteq> None" "si_maps (info s)"
    using assms(1-3) by (auto simp: gs_next_def gf_make_def gf_empty_def gf_valid_def Let_def split: pull.splits if_splits bool.splits option.splits prod.splits)
  then have v: "tick_valid info tk" by (simp add: tick_valid_def)
  then obtain w ht where c: "si_caps (info s) = Some (Some w, Some ht)" "axis_ok w" "axis_ok ht" "3 * w \<le> int (length (si_data (info s))) div ht"
    using assms(4) s by (auto simp: tick_ok_def holds_pixels_def split: option.splits)
  then have f: "gf_data f = Some (si_data (info s))" "gf_width f = w" "gf_height f = ht" "gf_stride f = int (length (si_data (info s))) div ht"
    using assms(1,2) s by (auto simp: gs_next_def gf_make_def gf_empty_def Let_def)
  have "ht * (int (length (si_data (info s))) div ht) \<le> int (length (si_data (info s)))"
    using minus_mod_eq_mult_div [of "int (length (si_data (info s)))" ht] pos_mod_sign [of ht "int (length (si_data (info s)))"] c(3) by linarith
  then have "frame_holds (si_data (info s)) w ht (int (length (si_data (info s))) div ht)"
    using c(4) by (simp add: frame_holds_def algebra_simps)
  then obtain lb blob where "letterbox_bgr_to_nchw (si_data (info s)) w ht (int (length (si_data (info s))) div ht) (np_input_w p) (np_input_h p) = Some (lb, blob)"
    "0 < lb_scale lb" "lb_src_w lb = w" "lb_src_h lb = ht"
    using letterbox_painted [OF c(2,3) assms(5,6)] by blast
  then show thesis using that v s(1) c f by auto
qed

text \<open>Decoding the outputs of a ready engine.\<close>

lemma detect_defined:
  assumes "ready (node_icfg p) ts e" "engine_fits p ts" "score_sort srt" "0 < lb_scale lb" "1 \<le> lb_src_w lb" "1 \<le> lb_src_h lb"
  obtains dets where "node_detect srt p lb (te_outputs e) = Some dets" "length dets \<le> 300" "\<forall>d \<in> set dets. det_ok lb (node_pp p) d"
proof (cases "te_outputs e")
  case Nil
  then show thesis using that [of "[]"] by (simp add: node_detect_def)
next
  case (Cons out outs)
  have bs: "te_bindings e = map (\<lambda>i. binding_of (node_icfg p) i (ts ! i)) [0..<length ts]" "list_all2 host_fits (filter is_output (te_bindings e)) (te_outputs e)"
    using assms(1) unfolding ready_def by blast+
  obtain b bs' where b: "filter is_output (te_bindings e) = b # bs'" "host_fits b out" using bs(2) Cons by (auto simp: list_all2_Cons2)
  obtain t ts' where t: "filter (\<lambda>t. \<not> io_input t) ts = t # ts'" "\<exists>k. b = binding_of (node_icfg p) k t"
  proof -
    have "filter is_output (te_bindings e) = map (\<lambda>i. binding_of (node_icfg p) i (ts ! i)) (filter (\<lambda>i. \<not> io_input (ts ! i)) [0..<length ts])"
      unfolding bs(1) by (simp add: filter_map comp_def is_output_def)
    then obtain i js where i: "filter (\<lambda>i. \<not> io_input (ts ! i)) [0..<length ts] = i # js" "b = binding_of (node_icfg p) i (ts ! i)"
      using b(1) by (cases "filter (\<lambda>i. \<not> io_input (ts ! i)) [0..<length ts]") auto
    have "filter (\<lambda>t. \<not> io_input t) (map (\<lambda>i. ts ! i) [0..<length ts]) = map (\<lambda>i. ts ! i) (i # js)"
      using i(1) by (simp add: filter_map comp_def)
    then show thesis using that i(2) by (auto simp: map_nth)
  qed
  have "t \<in> set (filter (\<lambda>t. \<not> io_input t) ts)" using t(1) by simp
  then have "\<not> io_input t" by simp
  moreover have "output_fits p t" "0 \<le> np_num_classes p" using assms(2) t(1) by (simp_all add: engine_fits_def)
  ultimately obtain x y where xy: "output_rows_cols (tb_dims out) = (x, y)" "nat (x * y) \<le> length (tb_host out)"
    "yolo_cls_off x y (node_pp p) + np_num_classes p \<le> yolo_attrs x y (node_pp p)"
    using first_output_room [of p t] b(2) t(2) by metis
  have n: "pp_num_classes (node_pp p) = np_num_classes p" "pp_max_detections (node_pp p) = 300" by (simp_all add: node_pp_def postprocess_default_def)
  obtain ds where "decode_yolo srt (tb_host out) x y lb (node_pp p) = Some ds" "\<forall>d \<in> set ds. det_ok lb (node_pp p) d" "length ds \<le> 300"
    using decode_yolo_defined [OF assms(3) xy(2), of "node_pp p" lb] xy(3) \<open>0 \<le> np_num_classes p\<close> assms(4-6) by (auto simp: n)
  then show thesis using that [of ds] Cons xy(1) by (simp add: node_detect_def)
qed

text \<open>The parts of the worker that a frame does not touch.\<close>

definition others :: "worker \<Rightarrow> gst_source \<times> can_publisher option \<times> int set \<times> heap \<times> u64" where
  "others w = (wk_source w, wk_can w, wk_fds w, wk_heap w, wk_fid w)"

definition node_core :: "(nat \<Rightarrow> sample_info) \<Rightarrow> node_params \<Rightarrow> io_tensor list \<Rightarrow> bool \<Rightarrow> tick list \<Rightarrow> worker \<Rightarrow> bool" where
  "node_core info p ts csv pre w \<longleftrightarrow> ready (node_icfg p) ts (wk_engine w) \<and> traced info p csv pre w"

lemma node_frame_step:
  assumes "engine_fits p ts" "fills (node_icfg p) ts (tk_exec tk)" "score_sort srt" "axis_ok (np_input_w p)" "axis_ok (np_input_h p)"
    and "gs_appsink g" "gs_next info (tk_pull tk) now g h = (f, g', h')" "gf_valid f" "tick_ok info tk"
  shows "hoare (\<lambda>w. node_core info p ts csv pre w \<and> others w = v) (node_frame srt p tk fid f)
    (\<lambda>_ w. node_core info p ts csv (pre @ [tk]) w \<and> others w = v) (\<lambda>_ w. node_core info p ts csv pre w \<and> others w = v)"
proof (rule hoareI)
  fix w r w' assume pre: "node_core info p ts csv pre w \<and> others w = v" and run: "node_frame srt p tk fid f w = Some (r, w')"
  obtain s wd ht d lb blob where f: "tick_valid info tk" "tk_pull tk = Pulled s" "si_caps (info s) = Some (Some wd, Some ht)" "gf_data f = Some d"
    "letterbox_bgr_to_nchw d (gf_width f) (gf_height f) (gf_stride f) (np_input_w p) (np_input_h p) = Some (lb, blob)"
    "lb_src_w lb = wd" "lb_src_h lb = ht" "1 \<le> wd" "1 \<le> ht" "0 < lb_scale lb"
    by (rule frame_letterboxed [OF assms(6-9,4,5)]) blast
  have rd: "ready (node_icfg p) ts (wk_engine w)" and tr: "traced info p csv pre w" using pre by (simp_all add: node_core_def)
  obtain x e where e: "te_infer (tk_exec tk) blob (wk_engine w) = Some (x, e)"
    using run by (auto simp: node_frame_def bind_def defined_def ret_def f(4,5) on_engine_def split: option.splits)
  have inf: "case x of Ok a \<Rightarrow> ready (node_icfg p) ts e | Throw m \<Rightarrow> ready (node_icfg p) ts e | Undef \<Rightarrow> False"
    using infer_ready [OF _ assms(2)] assms(1) rd e by (auto simp: engine_fits_def dest: hoareD)
  show "case r of Ok a \<Rightarrow> node_core info p ts csv (pre @ [tk]) w' \<and> others w' = v | Throw m \<Rightarrow> node_core info p ts csv pre w' \<and> others w' = v | Undef \<Rightarrow> False"
  proof (cases x)
    case (Throw m)
    then have "r = Throw m" "w' = w\<lparr>wk_engine := e\<rparr>"
      using run e by (simp_all add: node_frame_def bind_def defined_def ret_def f(4,5) on_engine_def)
    then show ?thesis using inf pre Throw by (simp add: node_core_def others_def)
  next
    case (Ok ms)
    then have rd': "ready (node_icfg p) ts e" using inf by simp
    obtain dets where dets: "node_detect srt p lb (te_outputs e) = Some dets" "length dets \<le> 300" "\<forall>d \<in> set dets. det_ok lb (node_pp p) d"
      by (rule detect_defined [OF rd' assms(1,3) f(10)]) (use f(6-9) in simp_all)
    let ?m = "publish_msg p (tk_stamp tk) dets"
    have msg: "msg_ok info p tk ?m" unfolding msg_ok_def using f(2,3,6,7) dets(2,3) by blast
    define fm where "fm = \<lparr>fm_frame_id = fid, fm_capture_latency_ms = capture_latency (tk_captured tk) (gf_capture_mono_ns f),
            fm_preprocess_ms = scoped_timer_ms (fst (tk_pre tk)) (snd (tk_pre tk)), fm_inference_ms = ms,
            fm_postprocess_ms = scoped_timer_ms (fst (tk_post tk)) (snd (tk_post tk)),
            fm_publish_ms = scoped_timer_ms (fst (tk_publish tk)) (snd (tk_publish tk)),
            fm_end_to_end_ms = scoped_timer_ms (tk_loop0 tk) (tk_end tk), fm_rss_mib = rss_mib (tk_statm tk),
            fm_detections = int (length dets)\<rparr>"
    obtain b where b: "bt_record fm (wk_bench w) = Some b"
      "\<And>c. traced info p csv (pre @ [tk]) (w\<lparr>wk_published := wk_published w @ [?m], wk_can_sent := c, wk_bench := b\<rparr>)"
      by (rule traced_record [OF tr f(1) msg, of fm]) (simp_all add: fm_def publish_msg_def)
    define c where "c = wk_can_sent w @ (case wk_can w of None \<Rightarrow> []
        | Some c \<Rightarrow> snd (can_publish (tk_can_write tk) c dets (gf_width f) (gf_height f)))"
    have "r = Ok ()" "w' = w\<lparr>wk_published := wk_published w @ [?m], wk_can_sent := c, wk_bench := b\<rparr>\<lparr>wk_engine := e\<rparr>"
      using run e Ok dets(1) b(1)
      by (auto simp: node_frame_def bind_def seq_def modify_def gets_def defined_def ret_def f(4,5) on_engine_def fm_def [symmetric] c_def)
    then show ?thesis using rd' b(2) pre by (simp add: node_core_def others_def)
  qed (use inf in simp)
qed

subsection \<open>The loop and the thread\<close>

text \<open>Between iterations: the source runs, no sample is held.\<close>

definition node_inv :: "(nat \<Rightarrow> sample_info) \<Rightarrow> node_params \<Rightarrow> io_tensor list \<Rightarrow> bool \<Rightarrow> can_publisher option \<times> int set \<Rightarrow> tick list \<Rightarrow> worker \<Rightarrow> bool" where
  "node_inv info p ts csv can pre w \<longleftrightarrow> node_core info p ts csv pre w \<and> gs_appsink (wk_source w) \<and> gs_pipeline (wk_source w) \<and> gs_objects (wk_source w) = 2
     \<and> (wk_can w, wk_fds w) = can \<and> hp_refs (wk_heap w) = {#} \<and> hp_maps (wk_heap w) = {#}"

lemma gs_next_keeps:
  assumes "gs_next info a now g h = (f, g', h')"
  shows "gs_appsink g' = gs_appsink g \<and> gs_pipeline g' = gs_pipeline g \<and> gs_objects g' = gs_objects g"
  using assms by (auto simp: gs_next_def split: if_splits pull.splits prod.splits)

lemma invalid_tick:
  assumes "gs_appsink g" "gs_next info (tk_pull tk) now g h = (f, g', h')" "\<not> gf_valid f"
  shows "\<not> tick_valid info tk"
proof
  assume "tick_valid info tk"
  then obtain s where "tk_pull tk = Pulled s" "si_buffer (info s)" "si_caps (info s) \<noteq> None" "si_maps (info s)"
    by (auto simp: tick_valid_def split: pull.splits)
  then show False using assms by (auto simp: gs_next_def gf_make_def gf_empty_def gf_valid_def Let_def)
qed

lemma traced_skip: "\<not> tick_valid info tk \<Longrightarrow> traced info p csv (pre @ [tk]) w = traced info p csv pre w"
  by (simp add: traced_def)

lemma core_cong:
  "node_core info p ts csv pre (w\<lparr>wk_fid := n, wk_source := g, wk_heap := h\<rparr>) = node_core info p ts csv pre w"
  "node_core info p ts csv pre (w\<lparr>wk_heap := h\<rparr>) = node_core info p ts csv pre w"
  "node_core info p ts csv pre (w\<lparr>wk_fid := n\<rparr>) = node_core info p ts csv pre w"
  "node_core info p ts csv pre (w\<lparr>wk_can := c, wk_fds := fds\<rparr>) = node_core info p ts csv pre w"
  "node_core info p ts csv pre (w\<lparr>wk_source := g\<rparr>) = node_core info p ts csv pre w"
  by (simp_all add: node_core_def traced_def)

lemma node_iter_step:
  assumes "engine_fits p ts" "fills (node_icfg p) ts (tk_exec tk)" "score_sort srt" "axis_ok (np_input_w p)" "axis_ok (np_input_h p)" "tick_ok info tk"
  shows "hoare (node_inv info p ts csv can pre) (node_iter info srt p tk) (\<lambda>_. node_inv info p ts csv can (pre @ [tk])) (\<lambda>_. node_inv info p ts csv can pre)"
proof (rule hoareI)
  fix w r w' assume inv: "node_inv info p ts csv can pre w" and run: "node_iter info srt p tk w = Some (r, w')"
  obtain f g h where nxt: "gs_next info (tk_pull tk) (tk_frame_ns tk) (wk_source w) (wk_heap w) = (f, g, h)" by (cases "gs_next info (tk_pull tk) (tk_frame_ns tk) (wk_source w) (wk_heap w)") auto
  obtain f' h' where rel: "gf_release info f h = (f', h')" by fastforce
  define w1 where "w1 = w\<lparr>wk_fid := wk_fid w + 1, wk_source := g, wk_heap := h\<rparr>"
  let ?body = "if gf_valid f then node_frame srt p tk (wk_fid w) f else ret ()"
  have sink: "gs_appsink (wk_source w)" using inv by (simp add: node_inv_def)
  have src: "gs_appsink g" "gs_pipeline g" "gs_objects g = 2" using gs_next_keeps [OF nxt] inv by (simp_all add: node_inv_def)
  have heap: "hp_refs h' = {#}" "hp_maps h' = {#}" using gs_next_releases [OF nxt rel] inv by (simp_all add: node_inv_def)
  have o1: "others w1 = (g, fst can, snd can, h, wk_fid w + 1)" and c1: "node_core info p ts csv pre w1"
    using inv by (auto simp: node_inv_def w1_def others_def core_cong)
  obtain v where v: "?body w1 = Some (r, v)" "w' = v\<lparr>wk_heap := snd (gf_release info f (wk_heap v))\<rparr>"
    using run nxt by (auto simp: node_iter_def bind_def seq_def gets_def modify_def scope_frame_def w1_def split: option.splits)
  have done_inv: "node_inv info p ts csv can pre' w'" if "node_core info p ts csv pre' v" "others v = others w1" for pre'
    using that v(2) src heap rel o1 by (simp add: node_inv_def core_cong others_def)
  show "case r of Ok a \<Rightarrow> node_inv info p ts csv can (pre @ [tk]) w' | Throw m \<Rightarrow> node_inv info p ts csv can pre w' | Undef \<Rightarrow> False"
  proof (cases "gf_valid f")
    case True
    then have "node_frame srt p tk (wk_fid w) f w1 = Some (r, v)" using v(1) by simp
    from hoareD [OF node_frame_step [OF assms(1-5) sink nxt True assms(6), where v = "others w1"] conjI [OF c1 refl] this]
    show ?thesis using done_inv by (cases r) auto
  next
    case False
    then have "r = Ok ()" "v = w1" using v(1) by (simp_all add: ret_def)
    moreover have "node_core info p ts csv (pre @ [tk]) w1"
      using c1 traced_skip [OF invalid_tick [OF sink nxt False]] by (simp add: node_core_def)
    ultimately show ?thesis using done_inv by simp
  qed
qed

text \<open>The loop ends with all ticks handled, or throws in one of them.\<close>

definition stopped :: "(nat \<Rightarrow> sample_info) \<Rightarrow> node_params \<Rightarrow> bool \<Rightarrow> tick list \<Rightarrow> worker \<Rightarrow> bool" where
  "stopped info p csv ticks w \<longleftrightarrow> (\<exists>n \<le> length ticks. traced info p csv (take n ticks) w)"

lemma node_loop:
  assumes "engine_fits p ts" "\<forall>tk \<in> set ticks. fills (node_icfg p) ts (tk_exec tk) \<and> tick_ok info tk" "score_sort srt"
    and "axis_ok (np_input_w p)" "axis_ok (np_input_h p)"
  shows "hoare (node_inv info p ts csv can []) (for_eff (node_iter info srt p) ticks) (\<lambda>_. node_inv info p ts csv can ticks)
    (\<lambda>_ w. \<exists>n \<le> length ticks. node_inv info p ts csv can (take n ticks) w)"
proof -
  have "hoare (node_inv info p ts csv can (take k ticks)) (node_iter info srt p (ticks ! k)) (\<lambda>_. node_inv info p ts csv can (take (Suc k) ticks))
      (\<lambda>_ w. \<exists>n \<le> length ticks. node_inv info p ts csv can (take n ticks) w)" if "k < length ticks" for k
    unfolding take_Suc_conv_app_nth [OF that]
    by (rule hoare_conseq [OF node_iter_step [OF assms(1) _ assms(3-5), where pre = "take k ticks"]])
      (use that assms(2) in \<open>auto intro: less_imp_le exI [of _ k]\<close>)
  from hoare_for_list [of ticks "\<lambda>k. node_inv info p ts csv can (take k ticks)", OF this] show ?thesis by simp
qed

text \<open>What the destructors leave: nothing, unless TensorRT refused the address of a tensor while loading.\<close>

definition released :: "trt_env \<Rightarrow> int set \<Rightarrow> worker \<Rightarrow> bool" where
  "released env fds w \<longleftrightarrow> (te_live (te_destroy (wk_engine w)) = {} \<or> (\<exists>ts t. tv_engine env = Some ts \<and> t \<in> set ts \<and> \<not> tv_set_address env (io_name t)))
     \<and> gs_objects (gs_stop (wk_source w)) = 0 \<and> close_can (wk_can w) (wk_fds w) = fds
     \<and> hp_refs (wk_heap w) = {#} \<and> hp_maps (wk_heap w) = {#}"

lemma node_can_balanced:
  "node_can sys p fds = (c, fds') \<Longrightarrow> sys_socket sys \<notin> fds \<Longrightarrow> close_can c fds' = fds"
  by (auto simp: close_can_def node_can_def can_open_def can_new_def can_destroy_def Let_def split: if_splits option.splits)

lemma gs_stop_twice: "gs_stop (gs_stop g) = gs_stop g"
  by (simp add: gs_stop_def Let_def)

lemma ready_frees:
  assumes "ready cfg ts e"
  shows "te_live (te_destroy e) = {}"
proof -
  have "te_live e = set (map tb_device (te_bindings e))" using assms unfolding ready_def by blast
  then show ?thesis by (simp add: te_destroy_def)
qed

lemma inv_released:
  assumes "node_inv info p ts csv can pre w" "close_can (fst can) (snd can) = fds"
  shows "released env fds w \<and> traced info p csv pre w"
proof -
  have "ready (node_icfg p) ts (wk_engine w)" using assms(1) by (simp add: node_inv_def node_core_def)
  then have "te_live (te_destroy (wk_engine w)) = {}" by (rule ready_frees)
  moreover have "gs_objects (gs_stop (wk_source w)) = 0" using assms(1) by (simp add: node_inv_def gs_stop_def Let_def)
  ultimately show ?thesis using assms by (auto simp: node_inv_def node_core_def released_def)
qed

lemma released_stop: "released env fds w \<Longrightarrow> released env fds (w\<lparr>wk_source := gs_stop (wk_source w)\<rparr>)"
  by (simp add: released_def gs_stop_twice)

lemma load_failed_frees:
  "load_failed env e \<Longrightarrow> te_live (te_destroy e) = {} \<or> (\<exists>ts t. tv_engine env = Some ts \<and> t \<in> set ts \<and> \<not> tv_set_address env (io_name t))"
  by (auto simp: load_failed_def te_destroy_def)

lemma traced_start: "traced info p (np_bench_csv p \<noteq> [] \<and> csv_ok) [] (w\<lparr>wk_published := [], wk_bench := node_bench p csv_ok\<rparr>)"
proof -
  have "bt_tracks (node_bench p csv_ok) []"
    using bt_tracks_new [of csv_ok] by (simp add: node_bench_def bt_tracks_def bt_new_def)
  then show ?thesis by (auto simp: traced_def node_bench_def bt_open_def bt_new_def csv_put_def Let_def)
qed

text \<open>From a loaded engine on: opening the bus, starting the source, the loop, stopping the source.\<close>

lemma node_after_load:
  fixes w0 :: worker
  assumes "engine_fits p ts" "\<forall>tk \<in> set ticks. fills (node_icfg p) ts (tk_exec tk) \<and> tick_ok info tk" "score_sort srt"
    and "axis_ok (np_input_w p)" "axis_ok (np_input_h p)" "sys_socket (ne_can env) \<notin> fds"
    and "node_core info p ts csv [] w0" "wk_source w0 = gs_new scfg" "wk_fds w0 = fds" "hp_refs (wk_heap w0) = {#}" "hp_maps (wk_heap w0) = {#}"
  shows "hoare (\<lambda>w. w = w0) (seq (modify (\<lambda>w. case node_can (ne_can env) p (wk_fds w) of (can, fds) \<Rightarrow> w\<lparr>wk_can := can, wk_fds := fds\<rparr>)) (
     seq (on_source (gs_start (ne_launch env))) (
     seq (for_eff (node_iter info srt p) ticks)
         (modify (\<lambda>w. w\<lparr>wk_source := gs_stop (wk_source w)\<rparr>)))))
    (\<lambda>_ w. released (ne_trt env) fds w \<and> traced info p csv ticks w) (\<lambda>_ w. released (ne_trt env) fds w \<and> stopped info p csv ticks w)"
proof -
  obtain c fds' where can: "node_can (ne_can env) p fds = (c, fds')" by fastforce
  note bal = node_can_balanced [OF can assms(6)]
  let ?w1 = "w0\<lparr>wk_can := c, wk_fds := fds'\<rparr>"
  have core: "node_core info p ts csv [] (?w1\<lparr>wk_source := g\<rparr>)" for g using assms(7) by (simp add: core_cong)
  have "ready (node_icfg p) ts (wk_engine w0)" using assms(7) by (simp add: node_core_def)
  then have live: "te_live (te_destroy (wk_engine w0)) = {}" by (rule ready_frees)
  have start: "hoare (\<lambda>w. w = ?w1) (on_source (gs_start (ne_launch env))) (\<lambda>_. node_inv info p ts csv (c, fds') [])
      (\<lambda>_ w. released (ne_trt env) fds w \<and> stopped info p csv ticks w)"
  proof (rule hoareI)
    fix w r w' assume w: "w = ?w1" and run: "on_source (gs_start (ne_launch env)) w = Some (r, w')"
    then obtain g where g: "gs_start (ne_launch env) (gs_new scfg) = Some (r, g)" "w' = ?w1\<lparr>wk_source := g\<rparr>"
      using assms(8) by (auto simp: on_source_def split: option.splits)
    note rel = gs_stop_releases [OF g(1)]
    have "r = Ok () \<longrightarrow> gs_appsink g \<and> gs_pipeline g \<and> gs_objects g = 2"
      using g(1) by (auto simp: gs_start_def gs_new_def eff_defs split: if_splits)
    then show "case r of Ok a \<Rightarrow> node_inv info p ts csv (c, fds') [] w' | Throw m \<Rightarrow> released (ne_trt env) fds w' \<and> stopped info p csv ticks w' | Undef \<Rightarrow> False"
      using rel core [of g] g(2) bal live assms(10,11)
      by (cases r) (auto simp: node_inv_def released_def stopped_def node_core_def intro!: exI [of _ 0])
  qed
  have loop: "hoare (node_inv info p ts csv (c, fds') []) (for_eff (node_iter info srt p) ticks)
      (\<lambda>_ w. released (ne_trt env) fds w \<and> traced info p csv ticks w) (\<lambda>_ w. released (ne_trt env) fds w \<and> stopped info p csv ticks w)"
    by (rule hoare_conseq [OF node_loop [OF assms(1-5)]]) (use inv_released [where can = "(c, fds')" and fds = fds] bal in \<open>auto simp: stopped_def\<close>)
  have fin: "hoare (\<lambda>w. released (ne_trt env) fds w \<and> traced info p csv ticks w) (modify (\<lambda>w. w\<lparr>wk_source := gs_stop (wk_source w)\<rparr>))
      (\<lambda>_ w. released (ne_trt env) fds w \<and> traced info p csv ticks w) (\<lambda>_ w. released (ne_trt env) fds w \<and> stopped info p csv ticks w)"
    using released_stop by (auto simp: hoare_def modify_def traced_def)
  show ?thesis
    by (rule hoare_seq [OF hoare_seq [OF hoare_seq [OF fin loop] start]]) (simp add: hoare_def modify_def can assms(9))
qed

lemma node_try_run:
  fixes csv_ok :: bool
  assumes "score_sort srt" "axis_ok (np_input_w p)" "axis_ok (np_input_h p)" "sys_socket (ne_can env) \<notin> fds"
    and "\<forall>ts. tv_engine (ne_trt env) = Some ts \<longrightarrow> engine_fits p ts \<and> (\<forall>tk \<in> set ticks. fills (node_icfg p) ts (tk_exec tk))"
    and "\<forall>tk \<in> set ticks. tick_ok info tk"
  defines "csv \<equiv> np_bench_csv p \<noteq> [] \<and> csv_ok" and "w0 \<equiv> node_start p (node_bench p csv_ok) fds"
  shows "hoare (\<lambda>w. w = w0) (node_try env info srt p ticks)
    (\<lambda>_ w. released (ne_trt env) fds w \<and> traced info p csv ticks w) (\<lambda>_ w. released (ne_trt env) fds w \<and> stopped info p csv ticks w)"
proof (rule hoareI)
  let ?rest = "seq (modify (\<lambda>w. case node_can (ne_can env) p (wk_fds w) of (can, fds) \<Rightarrow> w\<lparr>wk_can := can, wk_fds := fds\<rparr>)) (
     seq (on_source (gs_start (ne_launch env))) (
     seq (for_eff (node_iter info srt p) ticks) (modify (\<lambda>w. w\<lparr>wk_source := gs_stop (wk_source w)\<rparr>))))"
  fix w r w' assume w: "w = w0" and run: "node_try env info srt p ticks w = Some (r, w')"
  have w0: "wk_engine w0 = te_new (node_icfg p)" "wk_source w0 = gs_new (node_scfg p)" "wk_can w0 = None" "wk_fds w0 = fds"
    "hp_refs (wk_heap w0) = {#}" "hp_maps (wk_heap w0) = {#}"
    by (simp_all add: w0_def node_start_def)
  have tr: "traced info p csv [] (w0\<lparr>wk_engine := e\<rparr>)" for e
    using traced_start [of info p csv_ok "w0\<lparr>wk_engine := e\<rparr>"] by (simp add: csv_def w0_def node_start_def)
  obtain x e where e: "te_load (ne_trt env) (te_new (node_icfg p)) = Some (x, e)"
    using run w w0(1) by (auto simp: node_try_def seq_def bind_def on_engine_def split: option.splits)
  have load: "case x of Ok a \<Rightarrow> \<exists>ts. tv_engine (ne_trt env) = Some ts \<and> loaded (node_icfg p) ts e | Throw m \<Rightarrow> load_failed (ne_trt env) e | Undef \<Rightarrow> False"
    using hoareD [OF load_loaded refl e] .
  show "case r of Ok a \<Rightarrow> released (ne_trt env) fds w' \<and> traced info p csv ticks w'
      | Throw m \<Rightarrow> released (ne_trt env) fds w' \<and> stopped info p csv ticks w' | Undef \<Rightarrow> False"
  proof (cases x)
    case (Throw m)
    then have "r = Throw m" "w' = w0\<lparr>wk_engine := e\<rparr>"
      using run w w0(1) e by (simp_all add: node_try_def seq_def bind_def on_engine_def)
    then show ?thesis
      using load_failed_frees load Throw tr [of e] w0 by (auto simp: released_def close_can_def gs_stop_def gs_new_def stopped_def intro!: exI [of _ 0])
  next
    case (Ok u)
    then obtain ts where ts: "tv_engine (ne_trt env) = Some ts" "loaded (node_icfg p) ts e" using load by auto
    have core: "node_core info p ts csv [] (w0\<lparr>wk_engine := e\<rparr>)"
      using loaded_ready [OF ts(2)] tr by (simp add: node_core_def)
    have "?rest (w0\<lparr>wk_engine := e\<rparr>) = Some (r, w')"
      using run w w0(1) e Ok by (simp add: node_try_def seq_def [of "on_engine _"] bind_def [of "on_engine _"] on_engine_def)
    moreover have "engine_fits p ts" "\<forall>tk \<in> set ticks. fills (node_icfg p) ts (tk_exec tk) \<and> tick_ok info tk" using assms(5,6) ts(1) by auto
    ultimately show ?thesis
      using hoareD [OF node_after_load [OF _ _ assms(1-4) core] refl, where r = r and w' = w'] w0 by simp
  qed (use load in simp)
qed

text \<open>The thread always returns.\<close>

lemma returns_lift [returns_rules]:
  "returns m \<Longrightarrow> returns (on_engine m)" "returns n \<Longrightarrow> returns (on_source n)" "returns (defined v)" "returns b \<Longrightarrow> returns (scope_frame info f b)"
  by (auto simp: returns_def on_engine_def on_source_def defined_def scope_frame_def undef_def ret_def split: option.splits)

lemma returns_let_prod [returns_rules]: "(\<And>a b. returns (f a b)) \<Longrightarrow> returns (case x of (a, b) \<Rightarrow> f a b)"
  by (cases x) simp

lemma returns_case_option [returns_rules]: "returns m \<Longrightarrow> (\<And>x. returns (f x)) \<Longrightarrow> returns (case v of None \<Rightarrow> m | Some x \<Rightarrow> f x)"
  by (cases v) simp_all

lemma node_try_returns: "returns (node_try env info srt p ticks)"
proof -
  have infer: "returns (te_infer xv blob)" for xv blob
    unfolding te_infer_def copy_output_def Let_def by (intro returns_rules)
  have load: "returns (te_load tv)" for tv
    unfolding te_load_def allocate_bindings_def alloc_binding_def by (intro returns_rules)
  have start: "returns (gs_start lv)" for lv
    unfolding gs_start_def by (intro returns_rules)
  show ?thesis
    unfolding node_try_def node_iter_def node_frame_def by (intro returns_rules infer load start)
qed

subsection \<open>Property\<close>

text \<open>C7: The detector as a whole. With an input size in range, an engine whose tensors fit the parameters and
  frames that hold the pixels they announce, the worker thread never has undefined behaviour and always
  returns, for any sequence of pulls, time-outs, failing calls and refused CAN frames. Afterwards no sample, mapping,
  pipeline object or descriptor is held, and no device memory unless TensorRT refused the address of a tensor.
  Of the iterations up to the end, or up to the one that threw, exactly those with a valid frame published a
  message, in order, each with at most 300 detections that lie inside its frame; and the benchmark file has one row per
  message, with its number of detections.\<close>

theorem detector_run:
  assumes "score_sort srt" "axis_ok (np_input_w p)" "axis_ok (np_input_h p)" "sys_socket (ne_can env) \<notin> fds"
    and "\<forall>ts. tv_engine (ne_trt env) = Some ts \<longrightarrow> engine_fits p ts \<and> (\<forall>tk \<in> set ticks. fills (node_icfg p) ts (tk_exec tk))"
    and "\<forall>tk \<in> set ticks. tick_ok info tk"
  shows "\<exists>fatal w n. node_run env info srt p csv_ok fds ticks = Some (fatal, w)
     \<and> hp_refs (wk_heap w) = {#} \<and> hp_maps (wk_heap w) = {#} \<and> gs_objects (wk_source w) = 0 \<and> wk_fds w = fds
     \<and> (te_live (wk_engine w) = {} \<or> (\<exists>ts t. tv_engine (ne_trt env) = Some ts \<and> t \<in> set ts \<and> \<not> tv_set_address (ne_trt env) (io_name t)))
     \<and> n \<le> length ticks \<and> (fatal = None \<longrightarrow> n = length ticks)
     \<and> list_all2 (msg_ok info p) (filter (tick_valid info) (take n ticks)) (wk_published w)
     \<and> (np_bench_csv p \<noteq> [] \<and> csv_ok \<longrightarrow> (\<exists>ms. bt_csv (wk_bench w) = csv_header # map csv_row ms
          \<and> map fm_detections ms = map (\<lambda>m. int (length (am_detections m))) (wk_published w)))"
proof -
  let ?csv = "np_bench_csv p \<noteq> [] \<and> csv_ok"
  obtain r w where run: "node_try env info srt p ticks (node_start p (node_bench p csv_ok) fds) = Some (r, w)"
    using node_try_returns [of env info srt p ticks] by (fastforce simp: returns_def)
  have post: "case r of Ok a \<Rightarrow> released (ne_trt env) fds w \<and> traced info p ?csv ticks w
      | Throw m \<Rightarrow> released (ne_trt env) fds w \<and> stopped info p ?csv ticks w | Undef \<Rightarrow> False"
    using hoareD [OF node_try_run [OF assms] refl run] .
  then have rel: "released (ne_trt env) fds w" by (cases r) auto
  obtain n where n: "n \<le> length ticks" "(\<exists>u. r = Ok u) \<longrightarrow> n = length ticks" "traced info p ?csv (take n ticks) w"
  proof (cases r)
    case (Ok u)
    then show thesis using post that [of "length ticks"] by simp
  next
    case (Throw m)
    then show thesis using post that by (auto simp: stopped_def)
  qed (use post in simp)
  obtain fatal where "node_run env info srt p csv_ok fds ticks = Some (fatal, node_cleanup w)" "fatal = None \<longrightarrow> (\<exists>u. r = Ok u)"
    using post run by (cases r) (auto simp: node_run_def)
  then show ?thesis using rel n
    by (intro exI [of _ fatal] exI [of _ "node_cleanup w"] exI [of _ n]) (auto simp: released_def traced_def node_cleanup_def)
qed

text \<open>A small engine with two classes and one candidate, one camera frame of two pixels.\<close>

definition sim_tensors :: "io_tensor list" where
  "sim_tensors = [\<lparr>io_name = ''images'', io_input = True, io_dtype = kFLOAT, io_shape = [1, 3, 4, 4]\<rparr>,
     \<lparr>io_name = ''output0'', io_input = False, io_dtype = kFLOAT, io_shape = [1, 6, 1]\<rparr>]"

definition sim_exec :: exec_env where
  "sim_exec = \<lparr>xv_h2d = True, xv_event_start = True, xv_enqueue = True, xv_event_stop = True, xv_d2h = (\<lambda>_. True), xv_sync = True, xv_elapsed = True,
     xv_ms = 2, xv_run = (\<lambda>_ name. if name = ''images'' then replicate 48 0 else [2, 2, 1, 1, 1/8, 7/8])\<rparr>"

definition sim_env :: node_env where
  "sim_env = \<lparr>ne_trt = \<lparr>tv_set_device = True, tv_open = True, tv_read = True, tv_runtime = True, tv_engine = Some sim_tensors, tv_context = True,
       tv_stream = True, tv_ev_start = True, tv_ev_stop = True, tv_set_shape = (\<lambda>_ _. True), tv_malloc = (\<lambda>_. True), tv_set_address = (\<lambda>_. True)\<rparr>,
     ne_can = \<lparr>sys_socket = 5, sys_ifindex = (\<lambda>_. Some 1), sys_bind = (\<lambda>_. True)\<rparr>,
     ne_launch = \<lparr>le_pipeline = True, le_error = None, le_sink = True, le_play = True\<rparr>\<rparr>"

definition sim_info :: "nat \<Rightarrow> sample_info" where
  "sim_info s = \<lparr>si_buffer = True, si_caps = Some (Some 2, Some 1), si_pts = None, si_maps = True, si_data = [1, 2, 3, 4, 5, 6]\<rparr>"

definition sim_params :: node_params where
  "sim_params = node_defaults\<lparr>np_input_w := 4, np_input_h := 4, np_num_classes := 2, np_publish_can := True, np_bench_csv := ''bench.csv''\<rparr>"

definition sim_tick :: tick where
  "sim_tick = \<lparr>tk_loop0 = 0, tk_pull = Pulled 7, tk_frame_ns = 1, tk_captured = 2, tk_pre = (3, 4), tk_exec = sim_exec, tk_post = (5, 6),
     tk_publish = (7, 8), tk_stamp = 9, tk_can_write = (\<lambda>_. 16), tk_statm = None, tk_end = 10\<rparr>"

lemma sim_bytes: "binding_bytes (node_icfg sim_params) (sim_tensors ! 0) = 192" "binding_bytes (node_icfg sim_params) (sim_tensors ! 1) = 24"
  by (simp_all add: binding_bytes_def binding_dims_def resolve_dims_def volume_def dtype_size_def sim_tensors_def)

lemma sim_fits: "engine_fits sim_params sim_tensors" "fills (node_icfg sim_params) sim_tensors sim_exec"
  using sim_bytes
  by (auto simp: engine_fits_def word_inputs_def fills_def sim_tensors_def sim_exec_def output_fits_def dtype_size_def output_rows_cols_def
      yolo_cls_off_def yolo_has_obj_def yolo_attrs_def node_pp_def sim_params_def node_defaults_def)

theorem detector_run_witness:
  "\<exists>fatal w. node_run sim_env sim_info stable_score_sort sim_params True {0, 1, 2} [sim_tick] = Some (fatal, w)
     \<and> hp_refs (wk_heap w) = {#} \<and> wk_fds w = {0, 1, 2} \<and> te_live (wk_engine w) = {}"
proof -
  have "tick_ok sim_info sim_tick" by (simp add: tick_ok_def holds_pixels_def sim_info_def sim_tick_def)
  moreover have "axis_ok (np_input_w sim_params)" "axis_ok (np_input_h sim_params)" by (simp_all add: sim_params_def)
  moreover have "tv_engine (ne_trt sim_env) = Some sim_tensors" "sys_socket (ne_can sim_env) \<notin> {0, 1, 2}" "tv_set_address (ne_trt sim_env) = (\<lambda>_. True)"
    by (simp_all add: sim_env_def)
  moreover have "tk_exec sim_tick = sim_exec" by (simp add: sim_tick_def)
  ultimately show ?thesis
    using detector_run [OF stable.score_sort_axioms, of sim_params sim_env "{0, 1, 2}" "[sim_tick]" sim_info True] sim_fits by auto
qed

end
