(* ===== verification/Node_Lifecycle.thy ===== *)
theory Node_Lifecycle
  imports Detector_Node Transitions
begin

text \<open>
  The life of the ROS 2 node (\<open>DetectorNode\<close> and \<open>main\<close> of \<open>detector_node.cpp\<close> in \<open>src/edge-ai-detector-tensorrt-ros2\<close>):
  the main thread constructs the node, spins, destroys it and shuts ROS down, while the worker thread runs \<open>run()\<close>.
  The two threads are step relations over one state; the report timer and the signals are the environment. The worker's steps are the
  pieces of \<open>run()\<close> between two accesses to \<open>stop_\<close> and \<open>rclcpp::ok()\<close>: set-up, the test of the loop, one iteration,
  stopping, the handler. The trace is only touched under its mutex, which the worker takes once in an iteration, so a report sees it between two steps.

  \<open>node_finished_run\<close> relates the interleaving to the sequential \<open>node_run\<close>: whenever the worker is done, it is as \<open>node_run\<close> leaves it
  on the iterations it made. A signal that arrives while the constructor runs is not modelled.
\<close>

subsection \<open>State\<close>

datatype main_pc = Main_Init | Main_Spin | Main_Join | Main_Shutdown | Main_Exit int

datatype worker_pc = Wk_None | Wk_Setup | Wk_Check | Wk_Frame | Wk_Stop | Wk_Catch string | Wk_Done "string option" | Wk_Undef

record node_state =
  ns_main :: main_pc
  ns_pc :: worker_pc
  ns_alive :: bool
  ns_stop :: bool
  ns_ok :: bool
  ns_worker :: worker
  ns_ticks :: "tick list"
  ns_reports :: "bench_summary list"

text \<open>What the node runs with: the software around it, its parameters, whether the benchmark file can be created, the descriptors
  open at the start, and the ticks the camera, the engine and the bus can answer with.\<close>

record node_setting =
  nx_env :: node_env
  nx_info :: "nat \<Rightarrow> sample_info"
  nx_srt :: "detection list \<Rightarrow> detection list"
  nx_params :: node_params
  nx_csv_ok :: bool
  nx_fds :: "int set"
  nx_feed :: "tick \<Rightarrow> bool"

definition nx_start :: "node_setting \<Rightarrow> worker" where
  "nx_start x = node_start (nx_params x) (node_bench (nx_params x) (nx_csv_ok x)) (nx_fds x)"

definition nx_iter :: "node_setting \<Rightarrow> tick \<Rightarrow> unit wact" where
  "nx_iter x = node_iter (nx_info x) (nx_srt x) (nx_params x)"

definition nx_run :: "node_setting \<Rightarrow> tick list \<Rightarrow> (string option \<times> worker) option" where
  "nx_run x ticks = node_run (nx_env x) (nx_info x) (nx_srt x) (nx_params x) (nx_csv_ok x) (nx_fds x) ticks"

definition node_init :: "node_setting \<Rightarrow> node_state" where
  "node_init x = \<lparr>ns_main = Main_Init, ns_pc = Wk_None, ns_alive = False, ns_stop = False, ns_ok = False, ns_worker = nx_start x,
     ns_ticks = [], ns_reports = []\<rparr>"

subsection \<open>The worker thread\<close>

text \<open>\<open>run()\<close> up to the loop.\<close>

definition node_setup :: "node_env \<Rightarrow> node_params \<Rightarrow> unit wact" where
  "node_setup env p =
     seq (on_engine (te_load (ne_trt env))) (
     seq (modify (\<lambda>w. case node_can (ne_can env) p (wk_fds w) of (can, fds) \<Rightarrow> w\<lparr>wk_can := can, wk_fds := fds\<rparr>))
         (on_source (gs_start (ne_launch env))))"

text \<open>The worker after an action: an exception has run the destructors when its handler starts.\<close>

definition wk_after :: "(string, unit) outcome \<times> worker \<Rightarrow> node_state \<Rightarrow> node_state" where
  "wk_after r s = (case r of
       (Ok _, w) \<Rightarrow> s\<lparr>ns_pc := Wk_Check, ns_worker := w\<rparr>
     | (Throw m, w) \<Rightarrow> s\<lparr>ns_pc := Wk_Catch m, ns_worker := node_cleanup w\<rparr>
     | (Undef, w) \<Rightarrow> s\<lparr>ns_pc := Wk_Undef\<rparr>)"

inductive worker_step :: "node_setting \<Rightarrow> node_state \<Rightarrow> node_state \<Rightarrow> bool" for x where
  setup_run: "ns_pc s = Wk_Setup \<Longrightarrow> node_setup (nx_env x) (nx_params x) (ns_worker s) = Some r \<Longrightarrow> worker_step x s (wk_after r s)"
| loop_leave: "ns_pc s = Wk_Check \<Longrightarrow> ns_stop s \<or> \<not> ns_ok s \<Longrightarrow> worker_step x s (s\<lparr>ns_pc := Wk_Stop\<rparr>)"
| loop_enter: "ns_pc s = Wk_Check \<Longrightarrow> \<not> ns_stop s \<Longrightarrow> ns_ok s \<Longrightarrow> worker_step x s (s\<lparr>ns_pc := Wk_Frame\<rparr>)"
| loop_frame: "ns_pc s = Wk_Frame \<Longrightarrow> nx_feed x tk \<Longrightarrow> nx_iter x tk (ns_worker s) = Some r \<Longrightarrow>
    worker_step x s (wk_after r (s\<lparr>ns_ticks := ns_ticks s @ [tk]\<rparr>))"
| run_ends: "ns_pc s = Wk_Stop \<Longrightarrow>
    worker_step x s (s\<lparr>ns_pc := Wk_Done None, ns_worker := node_cleanup ((ns_worker s)\<lparr>wk_source := gs_stop (wk_source (ns_worker s))\<rparr>)\<rparr>)"
| run_fatal: "ns_pc s = Wk_Catch m \<Longrightarrow> worker_step x s (s\<lparr>ns_pc := Wk_Done (Some m), ns_ok := False\<rparr>)"

subsection \<open>The main thread\<close>

text \<open>The constructor, which starts the worker, and the destructor up to the join.\<close>

definition node_construct :: "node_setting \<Rightarrow> node_state \<Rightarrow> node_state" where
  "node_construct x s = s\<lparr>ns_alive := True, ns_pc := Wk_Setup, ns_worker := nx_start x\<rparr>"

definition node_destroy :: "node_state \<Rightarrow> node_state" where
  "node_destroy s = s\<lparr>ns_main := Main_Join, ns_stop := True\<rparr>"

inductive main_step :: "node_setting \<Rightarrow> node_state \<Rightarrow> node_state \<Rightarrow> bool" for x where
  construct: "ns_main s = Main_Init \<Longrightarrow> main_step x s ((node_construct x s)\<lparr>ns_main := Main_Spin, ns_ok := True\<rparr>)"
| spin_ends: "ns_main s = Main_Spin \<Longrightarrow> \<not> ns_ok s \<Longrightarrow> main_step x s (node_destroy s)"
| join_ends: "ns_main s = Main_Join \<Longrightarrow> ns_pc s = Wk_Done e \<Longrightarrow> main_step x s (s\<lparr>ns_main := Main_Shutdown, ns_alive := False\<rparr>)"
| main_ends: "ns_main s = Main_Shutdown \<Longrightarrow> main_step x s (s\<lparr>ns_main := Main_Exit 0, ns_ok := False\<rparr>)"

lemmas node_lifetime_defs = node_construct_def node_destroy_def

text \<open>The report timer, run by the executor, and a signal that shuts ROS down.\<close>

inductive outside_step :: "node_state \<Rightarrow> node_state \<Rightarrow> bool" where
  report: "ns_main s = Main_Spin \<Longrightarrow> outside_step s (s\<lparr>ns_reports := ns_reports s @ [bt_summary (wk_bench (ns_worker s))]\<rparr>)"
| interrupt: "ns_ok s \<Longrightarrow> outside_step s (s\<lparr>ns_ok := False\<rparr>)"

definition program_step :: "node_setting \<Rightarrow> node_state \<Rightarrow> node_state \<Rightarrow> bool" where
  "program_step x s t \<longleftrightarrow> worker_step x s t \<or> main_step x s t"

definition node_step :: "node_setting \<Rightarrow> node_state \<Rightarrow> node_state \<Rightarrow> bool" where
  "node_step x s t \<longleftrightarrow> program_step x s t \<or> outside_step s t"

subsection \<open>Threads and lifetime\<close>

fun finished :: "worker_pc \<Rightarrow> bool" where
  "finished (Wk_Done _) = True"
| "finished _ = False"

text \<open>Where the worker is and what the flags say, for each place of the main thread.\<close>

definition lifetime_inv :: "node_state \<Rightarrow> bool" where
  "lifetime_inv s \<longleftrightarrow> (case ns_main s of
       Main_Init \<Rightarrow> ns_pc s = Wk_None \<and> \<not> ns_alive s \<and> \<not> ns_stop s \<and> \<not> ns_ok s
     | Main_Spin \<Rightarrow> ns_pc s \<noteq> Wk_None \<and> ns_alive s \<and> \<not> ns_stop s \<and> (ns_ok s \<longrightarrow> ns_pc s \<noteq> Wk_Stop \<and> \<not> finished (ns_pc s))
     | Main_Join \<Rightarrow> ns_pc s \<noteq> Wk_None \<and> ns_alive s \<and> ns_stop s \<and> \<not> ns_ok s
     | Main_Shutdown \<Rightarrow> finished (ns_pc s) \<and> \<not> ns_alive s \<and> ns_stop s \<and> \<not> ns_ok s
     | Main_Exit k \<Rightarrow> k = 0 \<and> finished (ns_pc s) \<and> \<not> ns_alive s \<and> ns_stop s \<and> \<not> ns_ok s)"

lemma wk_after_simps [simp]:
  "ns_main (wk_after r s) = ns_main s" "ns_alive (wk_after r s) = ns_alive s" "ns_stop (wk_after r s) = ns_stop s" "ns_ok (wk_after r s) = ns_ok s"
  "ns_ticks (wk_after r s) = ns_ticks s" "ns_reports (wk_after r s) = ns_reports s"
  by (auto simp: wk_after_def split: prod.splits outcome.splits)

lemma wk_after_pc: "ns_pc (wk_after r s) \<in> {Wk_Check, Wk_Undef} \<or> (\<exists>m. ns_pc (wk_after r s) = Wk_Catch m)"
  by (auto simp: wk_after_def split: prod.splits outcome.splits)

lemma lifetime_after:
  assumes "lifetime_inv s" "ns_pc s = Wk_Setup \<or> ns_pc s = Wk_Frame"
  shows "lifetime_inv (wk_after r (s\<lparr>ns_ticks := ts\<rparr>))"
proof -
  let ?t = "wk_after r (s\<lparr>ns_ticks := ts\<rparr>)"
  have "ns_pc ?t \<noteq> Wk_None \<and> ns_pc ?t \<noteq> Wk_Stop \<and> \<not> finished (ns_pc ?t)"
    using wk_after_pc [of r "s\<lparr>ns_ticks := ts\<rparr>"] by auto
  then show ?thesis using assms by (cases "ns_main s") (auto simp: lifetime_inv_def)
qed

inductive_cases outside_stepE: "outside_step s t"

lemma worker_lifetime: "worker_step x s t \<Longrightarrow> lifetime_inv s \<Longrightarrow> lifetime_inv t"
proof (induction rule: worker_step.induct)
  case (setup_run s r)
  then show ?case using lifetime_after [of s r "ns_ticks s"] by simp
next
  case (loop_frame s tk r)
  then show ?case using lifetime_after [of s r] by simp
qed (simp_all add: lifetime_inv_def split: main_pc.splits)

lemma main_lifetime: "main_step x s t \<Longrightarrow> lifetime_inv s \<Longrightarrow> lifetime_inv t"
  by (induction rule: main_step.induct) (simp_all add: lifetime_inv_def node_lifetime_defs)

lemma outside_lifetime: "outside_step s t \<Longrightarrow> lifetime_inv s \<Longrightarrow> lifetime_inv t"
  by (induction rule: outside_step.induct) (simp_all add: lifetime_inv_def split: main_pc.splits)

lemma init_lifetime: "lifetime_inv (node_init x)"
  by (simp add: node_init_def lifetime_inv_def)

subsection \<open>The worker runs \<open>run()\<close>\<close>

definition run_to :: "node_setting \<Rightarrow> tick list \<Rightarrow> unit wact" where
  "run_to x ticks = seq (node_setup (nx_env x) (nx_params x)) (for_eff (nx_iter x) ticks)"

lemma run_to_snoc: "run_to x (ticks @ [tk]) = seq (run_to x ticks) (nx_iter x tk)"
  by (simp add: run_to_def for_eff_snoc seq_assoc)

lemma run_to_Nil: "run_to x [] = node_setup (nx_env x) (nx_params x)"
  by (auto simp: run_to_def seq_def bind_def ret_def fun_eq_iff split: option.splits outcome.splits)

lemma node_try_run_to:
  "node_try (nx_env x) (nx_info x) (nx_srt x) (nx_params x) ticks = seq (run_to x ticks) (modify (\<lambda>w. w\<lparr>wk_source := gs_stop (wk_source w)\<rparr>))"
proof -
  have "nx_iter x = node_iter (nx_info x) (nx_srt x) (nx_params x)" by (rule ext) (simp add: nx_iter_def)
  then show ?thesis by (simp add: node_try_def run_to_def node_setup_def seq_assoc)
qed

lemma nx_run_eq:
  "nx_run x ticks = (case run_to x ticks (nx_start x) of
     Some (Ok _, w) \<Rightarrow> Some (None, node_cleanup (w\<lparr>wk_source := gs_stop (wk_source w)\<rparr>))
   | Some (Throw m, w) \<Rightarrow> Some (Some m, node_cleanup w)
   | _ \<Rightarrow> None)"
  by (auto simp: nx_run_def node_run_def node_try_run_to nx_start_def seq_def [of "run_to _ _"] bind_def [of "run_to _ _"] modify_def
      split: option.splits outcome.splits prod.splits)

text \<open>The worker has done what the sequential run does on the iterations made so far.\<close>

definition follows :: "node_setting \<Rightarrow> node_state \<Rightarrow> bool" where
  "follows x s \<longleftrightarrow> (case ns_pc s of
       Wk_None \<Rightarrow> ns_ticks s = []
     | Wk_Setup \<Rightarrow> ns_ticks s = [] \<and> ns_worker s = nx_start x
     | Wk_Catch m \<Rightarrow> (\<exists>w. run_to x (ns_ticks s) (nx_start x) = Some (Throw m, w) \<and> ns_worker s = node_cleanup w)
     | Wk_Done e \<Rightarrow> nx_run x (ns_ticks s) = Some (e, ns_worker s)
     | Wk_Undef \<Rightarrow> (\<exists>w. run_to x (ns_ticks s) (nx_start x) = Some (Undef, w))
     | _ \<Rightarrow> run_to x (ns_ticks s) (nx_start x) = Some (Ok (), ns_worker s))"

definition run_inv :: "node_setting \<Rightarrow> node_state \<Rightarrow> bool" where
  "run_inv x s \<longleftrightarrow> lifetime_inv s \<and> follows x s \<and> (\<forall>tk \<in> set (ns_ticks s). nx_feed x tk)"

lemma follows_after: "run_to x (ns_ticks s) (nx_start x) = Some r \<Longrightarrow> follows x (wk_after r s)"
  by (auto simp: follows_def wk_after_def split: prod.splits outcome.splits)

lemma worker_follows: "worker_step x s t \<Longrightarrow> follows x s \<Longrightarrow> follows x t"
proof (induction rule: worker_step.induct)
  case (setup_run s r)
  then show ?case by (intro follows_after) (simp add: follows_def run_to_Nil)
next
  case (loop_frame s tk r)
  then show ?case by (intro follows_after) (simp add: follows_def run_to_snoc seq_def bind_def)
next
  case (run_fatal s m)
  then show ?case by (auto simp: follows_def nx_run_eq)
qed (simp_all add: follows_def nx_run_eq)

lemma worker_feed: "worker_step x s t \<Longrightarrow> \<forall>tk \<in> set (ns_ticks s). nx_feed x tk \<Longrightarrow> \<forall>tk \<in> set (ns_ticks t). nx_feed x tk"
  by (induction rule: worker_step.induct) auto

lemma main_follows: "main_step x s t \<Longrightarrow> lifetime_inv s \<Longrightarrow> follows x s \<Longrightarrow> follows x t \<and> ns_ticks t = ns_ticks s"
  by (induction rule: main_step.induct) (auto simp: node_lifetime_defs follows_def lifetime_inv_def split: worker_pc.splits)

lemma outside_follows: "outside_step s t \<Longrightarrow> follows x s \<Longrightarrow> follows x t \<and> ns_ticks t = ns_ticks s"
  by (induction rule: outside_step.induct) (auto simp: follows_def split: worker_pc.splits)

lemma program_step_inv: "program_step x s t \<Longrightarrow> run_inv x s \<Longrightarrow> run_inv x t"
  using worker_lifetime main_lifetime worker_follows worker_feed main_follows unfolding program_step_def run_inv_def by metis

lemma outside_step_inv: "outside_step s t \<Longrightarrow> run_inv x s \<Longrightarrow> run_inv x t"
  using outside_lifetime outside_follows unfolding run_inv_def by metis

lemma init_run_inv: "run_inv x (node_init x)"
  using init_lifetime by (simp add: run_inv_def follows_def node_init_def)

interpretation noderun: invariant_system "node_step x" "node_init x" "run_inv x"
  by unfold_locales (auto simp: node_step_def init_run_inv intro: program_step_inv outside_step_inv)

lemma run_reachable: "(node_step x)\<^sup>*\<^sup>* (node_init x) s \<Longrightarrow> run_inv x s"
  by (rule noderun.inv_reachable)

subsection \<open>What the node relies on\<close>

text \<open>The hypotheses of the sequential run, for every tick the outside can answer with, and that it does answer.\<close>

definition nx_ok :: "node_setting \<Rightarrow> bool" where
  "nx_ok x \<longleftrightarrow> score_sort (nx_srt x) \<and> axis_ok (np_input_w (nx_params x)) \<and> axis_ok (np_input_h (nx_params x))
     \<and> sys_socket (ne_can (nx_env x)) \<notin> nx_fds x
     \<and> (\<forall>ts. tv_engine (ne_trt (nx_env x)) = Some ts \<longrightarrow> engine_fits (nx_params x) ts
          \<and> (\<forall>tk. nx_feed x tk \<longrightarrow> fills (node_icfg (nx_params x)) ts (tk_exec tk)))
     \<and> (\<forall>tk. nx_feed x tk \<longrightarrow> tick_ok (nx_info x) tk) \<and> (\<exists>tk. nx_feed x tk)"

abbreviation nx_csv :: "node_setting \<Rightarrow> bool" where
  "nx_csv x \<equiv> np_bench_csv (nx_params x) \<noteq> [] \<and> nx_csv_ok x"

definition nx_traced :: "node_setting \<Rightarrow> tick list \<Rightarrow> worker \<Rightarrow> bool" where
  "nx_traced x ticks w \<longleftrightarrow> stopped (nx_info x) (nx_params x) (nx_csv x) ticks w"

lemma nx_traced_cleanup [simp]: "nx_traced x ticks (node_cleanup w) = nx_traced x ticks w" "nx_traced x ticks (w\<lparr>wk_source := g\<rparr>) = nx_traced x ticks w"
  by (simp_all add: nx_traced_def stopped_def traced_def node_cleanup_def)

text \<open>The set-up and any number of iterations end, without undefined behaviour, with a trace of a prefix of the ticks and nothing lost.\<close>

lemma run_to_defined:
  assumes "nx_ok x" "\<forall>tk \<in> set ticks. nx_feed x tk" "run_to x ticks (nx_start x) = Some (r, w)"
  shows "r \<noteq> Undef" "nx_traced x ticks w" "released (ne_trt (nx_env x)) (nx_fds x) (if \<exists>u. r = Ok u then w\<lparr>wk_source := gs_stop (wk_source w)\<rparr> else w)"
proof -
  let ?stop = "\<lambda>w. w\<lparr>wk_source := gs_stop (wk_source w)\<rparr>"
  let ?w = "if \<exists>u. r = Ok u then ?stop w else w"
  have run: "node_try (nx_env x) (nx_info x) (nx_srt x) (nx_params x) ticks (nx_start x) = Some (r, ?w)"
    using assms(3) by (cases r) (auto simp: node_try_run_to seq_def [of "run_to _ _"] bind_def [of "run_to _ _"] modify_def)
  have "hoare (\<lambda>w. w = nx_start x) (node_try (nx_env x) (nx_info x) (nx_srt x) (nx_params x) ticks)
      (\<lambda>_ w. released (ne_trt (nx_env x)) (nx_fds x) w \<and> traced (nx_info x) (nx_params x) (nx_csv x) ticks w)
      (\<lambda>_ w. released (ne_trt (nx_env x)) (nx_fds x) w \<and> stopped (nx_info x) (nx_params x) (nx_csv x) ticks w)"
    using assms(1,2) unfolding nx_start_def by (intro node_try_run) (auto simp: nx_ok_def)
  from hoareD [OF this refl run] have "case r of Ok u \<Rightarrow> released (ne_trt (nx_env x)) (nx_fds x) (?stop w) \<and> traced (nx_info x) (nx_params x) (nx_csv x) ticks (?stop w)
      | Throw m \<Rightarrow> released (ne_trt (nx_env x)) (nx_fds x) w \<and> stopped (nx_info x) (nx_params x) (nx_csv x) ticks w | Undef \<Rightarrow> False"
    by (cases r) auto
  then show "r \<noteq> Undef" "nx_traced x ticks w" "released (ne_trt (nx_env x)) (nx_fds x) (if \<exists>u. r = Ok u then w\<lparr>wk_source := gs_stop (wk_source w)\<rparr> else w)"
    by (cases r; auto simp: nx_traced_def stopped_def traced_def intro: exI [of _ "length ticks"])+
qed

lemma run_to_returns: "returns (run_to x ticks)"
proof (rule ccontr)
  assume "\<not> returns (run_to x ticks)"
  then obtain w where "run_to x ticks w = None" unfolding returns_def by blast
  then have "node_try (nx_env x) (nx_info x) (nx_srt x) (nx_params x) ticks w = None"
    by (simp add: node_try_run_to seq_def bind_def)
  then show False using node_try_returns unfolding returns_def by metis
qed

lemma setup_returns: "returns (node_setup env p)"
proof -
  obtain x :: node_setting where "nx_env x = env" "nx_params x = p"
    by (metis node_setting.select_convs(1,4))
  then show ?thesis using run_to_returns [of x "[]"] by (simp add: run_to_Nil)
qed

lemma iter_returns:
  assumes "run_to x ticks v = Some (Ok (), w)"
  shows "\<exists>r. nx_iter x tk w = Some r"
proof -
  have "run_to x (ticks @ [tk]) v \<noteq> None" using run_to_returns unfolding returns_def by blast
  then show ?thesis using assms by (auto simp: run_to_snoc seq_def bind_def)
qed

subsection \<open>What holds in every reachable state\<close>

lemma nx_run_done:
  assumes "nx_ok x" "\<forall>tk \<in> set ticks. nx_feed x tk" "nx_run x ticks = Some (e, v)"
  shows "nx_traced x ticks v" "\<exists>w. v = node_cleanup w \<and> released (ne_trt (nx_env x)) (nx_fds x) w"
proof -
  obtain r w where run: "run_to x ticks (nx_start x) = Some (r, w)" "r \<noteq> Undef"
    "v = node_cleanup (if \<exists>u. r = Ok u then w\<lparr>wk_source := gs_stop (wk_source w)\<rparr> else w)"
    using assms(3) by (auto simp: nx_run_eq split: option.splits prod.splits outcome.splits)
  note d = run_to_defined [OF assms(1,2) run(1)]
  show "nx_traced x ticks v" using run(3) d(2) by simp
  show "\<exists>w. v = node_cleanup w \<and> released (ne_trt (nx_env x)) (nx_fds x) w" using run(3) d(3) by blast
qed

lemma reachable_traced:
  assumes "nx_ok x" "run_inv x s"
  shows "ns_pc s \<noteq> Wk_Undef" "ns_pc s \<noteq> Wk_None \<Longrightarrow> nx_traced x (ns_ticks s) (ns_worker s)"
proof -
  have feed: "\<forall>tk \<in> set (ns_ticks s). nx_feed x tk" and fol: "follows x s" using assms(2) by (simp_all add: run_inv_def)
  note run = run_to_defined [OF assms(1) feed]
  show "ns_pc s \<noteq> Wk_Undef" using fol run(1) by (auto simp: follows_def)
  then show "nx_traced x (ns_ticks s) (ns_worker s)" if "ns_pc s \<noteq> Wk_None"
  proof (cases "ns_pc s")
    case Wk_Setup
    then show ?thesis
      using fol traced_start [of "nx_info x" "nx_params x" "nx_csv_ok x" "nx_start x"]
      by (simp add: nx_traced_def stopped_def nx_start_def node_start_def follows_def)
  next
    case (Wk_Done e)
    then show ?thesis using nx_run_done [OF assms(1) feed, of e] fol by (simp add: follows_def)
  qed (use fol that run(2) in \<open>auto simp: follows_def\<close>)
qed

text \<open>A report counts the frames published so far.\<close>

lemma traced_count: "nx_traced x ticks w \<Longrightarrow> bs_n (bt_summary (wk_bench w)) = of_nat (length (wk_published w))"
proof -
  assume "nx_traced x ticks w"
  then obtain ms where "bt_tracks (wk_bench w) ms" "length ms = length (wk_published w)"
    unfolding nx_traced_def stopped_def traced_def by (metis length_map)
  then show ?thesis by (simp add: bt_tracks_def bt_summary_def rs_snap_def rs.ring_def Let_def)
qed

subsection \<open>Shutting down\<close>

text \<open>Steps the two threads have left once ROS is down.\<close>

fun worker_left :: "worker_pc \<Rightarrow> nat" where
  "worker_left Wk_Setup = 3"
| "worker_left Wk_Frame = 3"
| "worker_left Wk_Check = 2"
| "worker_left Wk_Stop = 1"
| "worker_left (Wk_Catch _) = 1"
| "worker_left _ = 0"

fun main_left :: "main_pc \<Rightarrow> nat" where
  "main_left Main_Spin = 3"
| "main_left Main_Join = 2"
| "main_left Main_Shutdown = 1"
| "main_left _ = 0"

definition node_left :: "node_state \<Rightarrow> nat" where
  "node_left s = worker_left (ns_pc s) + main_left (ns_main s)"

definition going_down :: "node_setting \<Rightarrow> node_state \<Rightarrow> bool" where
  "going_down x s \<longleftrightarrow> nx_ok x \<and> run_inv x s \<and> ns_main s \<noteq> Main_Init \<and> \<not> ns_ok s"

lemma wk_after_left: "worker_left (ns_pc (wk_after r s)) \<le> 2"
  using wk_after_pc [of r s] by auto

lemma worker_left_less: "worker_step x s t \<Longrightarrow> \<not> ns_ok s \<Longrightarrow> node_left t < node_left s \<and> \<not> ns_ok t \<and> ns_main t = ns_main s"
proof (induction rule: worker_step.induct)
  case (setup_run s r)
  then show ?case using wk_after_left [of r s] by (simp add: node_left_def)
next
  case (loop_frame s tk r)
  then show ?case using wk_after_left [of r "s\<lparr>ns_ticks := ns_ticks s @ [tk]\<rparr>"] by (simp add: node_left_def)
qed (simp_all add: node_left_def)

lemma main_left_less: "main_step x s t \<Longrightarrow> \<not> ns_ok s \<Longrightarrow> ns_main s \<noteq> Main_Init \<Longrightarrow>
    node_left t < node_left s \<and> \<not> ns_ok t \<and> ns_main t \<noteq> Main_Init"
  by (induction rule: main_step.induct) (simp_all add: node_left_def node_lifetime_defs)

lemma outside_left: "outside_step s t \<Longrightarrow> \<not> ns_ok s \<Longrightarrow> node_left t = node_left s \<and> \<not> ns_ok t \<and> ns_main t = ns_main s"
  by (induction rule: outside_step.induct) (simp_all add: node_left_def)

lemma worker_not_stuck:
  assumes "nx_ok x" "run_inv x s" "ns_pc s \<noteq> Wk_None" "\<not> finished (ns_pc s)"
  shows "\<exists>t. worker_step x s t"
proof (cases "ns_pc s")
  case Wk_Setup
  obtain r where "node_setup (nx_env x) (nx_params x) (ns_worker s) = Some r"
    using setup_returns unfolding returns_def by fast
  then show ?thesis using Wk_Setup worker_step.setup_run by blast
next
  case Wk_Check
  then show ?thesis using worker_step.loop_leave worker_step.loop_enter by blast
next
  case Wk_Frame
  obtain tk where tk: "nx_feed x tk" using assms(1) by (auto simp: nx_ok_def)
  have "run_to x (ns_ticks s) (nx_start x) = Some (Ok (), ns_worker s)" using assms(2) Wk_Frame by (simp add: run_inv_def follows_def)
  then obtain r where "nx_iter x tk (ns_worker s) = Some r" using iter_returns by blast
  then show ?thesis using Wk_Frame tk worker_step.loop_frame by blast
next
  case Wk_Stop
  then show ?thesis using worker_step.run_ends by blast
next
  case (Wk_Catch m)
  then show ?thesis using worker_step.run_fatal by blast
next
  case Wk_Undef
  then show ?thesis using reachable_traced(1) [OF assms(1,2)] by simp
qed (use assms(3,4) in simp_all)

lemma main_not_stuck:
  assumes "run_inv x s" "finished (ns_pc s)" "\<not> ns_ok s" "0 < main_left (ns_main s)"
  shows "\<exists>t. main_step x s t"
proof (cases "ns_main s")
  case Main_Spin
  then show ?thesis using assms(3) main_step.spin_ends by blast
next
  case Main_Join
  then show ?thesis using assms(2) main_step.join_ends by (cases "ns_pc s") (simp_all, blast)
next
  case Main_Shutdown
  then show ?thesis using main_step.main_ends by blast
qed (use assms in simp_all)

lemma going_down_progress:
  assumes "going_down x s"
  shows "(\<exists>t. program_step x s t) \<longleftrightarrow> 0 < node_left s" "node_left s = 0 \<longleftrightarrow> ns_main s = Main_Exit 0"
proof -
  have inv: "nx_ok x" "run_inv x s" "lifetime_inv s" "ns_main s \<noteq> Main_Init" "\<not> ns_ok s"
    using assms by (simp_all add: going_down_def run_inv_def)
  have pc: "ns_pc s \<noteq> Wk_None" using inv(3,4) by (cases "ns_main s"; cases "ns_pc s") (simp_all add: lifetime_inv_def)
  have "\<exists>t. program_step x s t" if "0 < node_left s"
  proof (cases "finished (ns_pc s)")
    case True
    then have "0 < main_left (ns_main s)" using that by (cases "ns_pc s") (simp_all add: node_left_def)
    then show ?thesis using main_not_stuck [OF inv(2) True inv(5)] by (auto simp: program_step_def)
  next
    case False
    then show ?thesis using worker_not_stuck [OF inv(1,2) pc] by (auto simp: program_step_def)
  qed
  moreover have "0 < node_left s" if "program_step x s t" for t
    using that worker_left_less [of x s t] main_left_less [of x s t] inv(4,5) by (auto simp: program_step_def)
  ultimately show "(\<exists>t. program_step x s t) \<longleftrightarrow> 0 < node_left s" by blast
  show "node_left s = 0 \<longleftrightarrow> ns_main s = Main_Exit 0"
    using inv(3,4) by (cases "ns_main s"; cases "ns_pc s") (auto simp: lifetime_inv_def node_left_def)
qed

interpretation nodedown: bounded_thread "program_step x" outside_step "going_down x" node_left
proof
  fix s t :: node_state assume down: "going_down x s"
  then show "program_step x s t \<Longrightarrow> node_left t < node_left s \<and> going_down x t"
    using worker_left_less [of x s t] main_left_less [of x s t] program_step_inv [of x s t] by (auto simp: going_down_def program_step_def)
  show "outside_step s t \<Longrightarrow> node_left t \<le> node_left s \<and> going_down x t"
    using down outside_left [of s t] outside_step_inv [of s t x] by (auto simp: going_down_def)
  show "0 < node_left s \<Longrightarrow> \<exists>t. program_step x s t" using going_down_progress(1) [OF down] by blast
qed

lemma node_left_bound: "node_left s \<le> 6"
  unfolding node_left_def by (cases "ns_pc s"; cases "ns_main s") simp_all

subsection \<open>Every sequential run occurs\<close>

abbreviation reaches :: "node_setting \<Rightarrow> node_state \<Rightarrow> bool" where
  "reaches x s \<equiv> (node_step x)\<^sup>*\<^sup>* (node_init x) s"

definition spinning :: "worker_pc \<Rightarrow> tick list \<Rightarrow> worker \<Rightarrow> node_state" where
  "spinning pc ticks w = \<lparr>ns_main = Main_Spin, ns_pc = pc, ns_alive = True, ns_stop = False, ns_ok = True, ns_worker = w, ns_ticks = ticks, ns_reports = []\<rparr>"

lemma reach_worker: "reaches x s \<Longrightarrow> worker_step x s t \<Longrightarrow> reaches x t"
  by (erule rtranclp.rtrancl_into_rtrancl) (simp add: node_step_def program_step_def)

lemma reach_outside: "reaches x s \<Longrightarrow> outside_step s t \<Longrightarrow> reaches x t"
  by (erule rtranclp.rtrancl_into_rtrancl) (simp add: node_step_def)

lemma reach_setup: "reaches x (spinning Wk_Setup [] (nx_start x))"
proof -
  have "main_step x (node_init x) (spinning Wk_Setup [] (nx_start x))"
    using main_step.construct [of "node_init x" x] by (simp add: node_init_def spinning_def node_construct_def)
  then show ?thesis by (intro r_into_rtranclp) (simp add: node_step_def program_step_def)
qed

lemma reach_after_setup: "run_to x [] (nx_start x) = Some r \<Longrightarrow> reaches x (wk_after r (spinning Wk_Setup [] (nx_start x)))"
  by (rule reach_worker [OF reach_setup worker_step.setup_run]) (simp_all add: spinning_def run_to_Nil)

lemma reach_after_frame:
  assumes "reaches x (spinning Wk_Check ticks v)" "nx_feed x tk" "nx_iter x tk v = Some r"
  shows "reaches x (wk_after r (spinning Wk_Frame (ticks @ [tk]) v))"
proof -
  have "worker_step x (spinning Wk_Check ticks v) (spinning Wk_Frame ticks v)"
    using worker_step.loop_enter [of "spinning Wk_Check ticks v" x] by (simp add: spinning_def)
  moreover have "worker_step x (spinning Wk_Frame ticks v) (wk_after r (spinning Wk_Frame (ticks @ [tk]) v))"
    using worker_step.loop_frame [of "spinning Wk_Frame ticks v" x tk r] assms(2,3) by (simp add: spinning_def)
  ultimately show ?thesis using reach_worker assms(1) by blast
qed

lemma after_spinning [simp]:
  "wk_after (Ok (), w) (spinning pc ticks v) = spinning Wk_Check ticks w"
  "wk_after (Throw m, w) (spinning pc ticks v) = spinning (Wk_Catch m) ticks (node_cleanup w)"
  by (simp_all add: wk_after_def spinning_def)

lemma run_to_snoc_Ok:
  "run_to x (ticks @ [tk]) v = Some (Ok (), w) \<longleftrightarrow> (\<exists>u. run_to x ticks v = Some (Ok (), u) \<and> nx_iter x tk u = Some (Ok (), w))"
  by (auto simp: run_to_snoc seq_def bind_def split: option.splits outcome.splits)

lemma run_to_snoc_Throw:
  "run_to x (ticks @ [tk]) v = Some (Throw m, w) \<longleftrightarrow>
     run_to x ticks v = Some (Throw m, w) \<or> (\<exists>u. run_to x ticks v = Some (Ok (), u) \<and> nx_iter x tk u = Some (Throw m, w))"
  by (auto simp: run_to_snoc seq_def bind_def split: option.splits outcome.splits)

lemma reach_check:
  "run_to x ticks (nx_start x) = Some (Ok (), w) \<Longrightarrow> set ticks \<subseteq> Collect (nx_feed x) \<Longrightarrow> reaches x (spinning Wk_Check ticks w)"
proof (induction ticks arbitrary: w rule: rev_induct)
  case Nil
  then show ?case using reach_after_setup by fastforce
next
  case (snoc tk ticks)
  then obtain u where u: "run_to x ticks (nx_start x) = Some (Ok (), u)" "nx_iter x tk u = Some (Ok (), w)" by (auto simp: run_to_snoc_Ok)
  have "nx_feed x tk" "reaches x (spinning Wk_Check ticks u)" using snoc.IH [OF u(1)] snoc.prems(2) by auto
  from reach_after_frame [OF this(2,1) u(2)] show ?case by simp
qed

lemma reach_catch:
  "run_to x ticks (nx_start x) = Some (Throw m, w) \<Longrightarrow> set ticks \<subseteq> Collect (nx_feed x) \<Longrightarrow>
   \<exists>ts. reaches x (spinning (Wk_Catch m) ts (node_cleanup w))"
proof (induction ticks rule: rev_induct)
  case Nil
  then show ?case using reach_after_setup by fastforce
next
  case (snoc tk ticks)
  show ?case
  proof (cases "run_to x ticks (nx_start x) = Some (Throw m, w)")
    case True
    then show ?thesis using snoc.IH snoc.prems(2) by simp
  next
    case False
    then obtain u where u: "run_to x ticks (nx_start x) = Some (Ok (), u)" "nx_iter x tk u = Some (Throw m, w)"
      using snoc.prems(1) by (auto simp: run_to_snoc_Throw)
    have "nx_feed x tk" "reaches x (spinning Wk_Check ticks u)" using reach_check [OF u(1)] snoc.prems(2) by auto
    from reach_after_frame [OF this(2,1) u(2)] show ?thesis by auto
  qed
qed

lemma reach_done:
  assumes "nx_run x ticks = Some (e, v)" "set ticks \<subseteq> Collect (nx_feed x)"
  shows "\<exists>s. reaches x s \<and> ns_pc s = Wk_Done e \<and> ns_worker s = v"
proof -
  consider (normal) w where "run_to x ticks (nx_start x) = Some (Ok (), w)" "e = None" "v = node_cleanup (w\<lparr>wk_source := gs_stop (wk_source w)\<rparr>)"
    | (fatal) m w where "run_to x ticks (nx_start x) = Some (Throw m, w)" "e = Some m" "v = node_cleanup w"
    using assms(1) by (auto simp: nx_run_eq split: option.splits prod.splits outcome.splits)
  then show ?thesis
  proof cases
    case normal
    let ?s = "spinning Wk_Check ticks w"
    let ?t = "?s\<lparr>ns_ok := False\<rparr>"
    have "outside_step ?s ?t" by (rule outside_step.interrupt) (simp add: spinning_def)
    from reach_outside [OF reach_check [OF normal(1) assms(2)] this] have "reaches x ?t" .
    then have stop: "reaches x (?t\<lparr>ns_pc := Wk_Stop\<rparr>)"
      by (rule reach_worker) (rule worker_step.loop_leave; simp add: spinning_def)
    have "worker_step x (?t\<lparr>ns_pc := Wk_Stop\<rparr>) (?t\<lparr>ns_pc := Wk_Stop, ns_pc := Wk_Done None, ns_worker := v\<rparr>)"
      using worker_step.run_ends [of "?t\<lparr>ns_pc := Wk_Stop\<rparr>" x] normal(3) by (simp add: spinning_def)
    from reach_worker [OF stop this] show ?thesis using normal(2) by (intro exI conjI) (assumption, simp_all)
  next
    case fatal
    then obtain ts where "reaches x (spinning (Wk_Catch m) ts v)" using reach_catch assms(2) by blast
    then have "reaches x ((spinning (Wk_Catch m) ts v)\<lparr>ns_pc := Wk_Done (Some m), ns_ok := False\<rparr>)"
      by (rule reach_worker) (rule worker_step.run_fatal; simp add: spinning_def)
    then show ?thesis using fatal(2) by (intro exI conjI) (assumption, simp_all add: spinning_def)
  qed
qed

subsection \<open>Properties\<close>



text \<open>C16: The detector shuts down in a bounded number of steps. Once the node exists and ROS is down, by a signal or
  because the worker aborted, the two threads together take at most six more steps in every interleaving, no thread waits for
  ever, and only a returned \<open>main\<close> with exit code 0 is the end.\<close>

theorem node_shuts_down:
  assumes "nx_ok x" "(node_step x)\<^sup>*\<^sup>* (node_init x) s" "ns_main s \<noteq> Main_Init" "\<not> ns_ok s"
  shows "(\<forall>n t. interleaving (program_step x) outside_step n s t \<longrightarrow> n \<le> 6 \<and> ((\<exists>u. program_step x t u) \<longleftrightarrow> ns_main t \<noteq> Main_Exit 0))
     \<and> (\<exists>n t. interleaving (program_step x) outside_step n s t \<and> ns_main t = Main_Exit 0)"
proof -
  have down: "going_down x s" using assms run_reachable by (simp add: going_down_def)
  have "n \<le> 6 \<and> ((\<exists>u. program_step x t u) \<longleftrightarrow> ns_main t \<noteq> Main_Exit 0)" if "interleaving (program_step x) outside_step n s t" for n t
  proof -
    have t: "n + node_left t \<le> node_left s" "going_down x t" using nodedown.work_bounded [OF that down] by simp_all
    then show ?thesis using node_left_bound [of s] going_down_progress [OF t(2)] by auto
  qed
  moreover have "\<exists>n t. interleaving (program_step x) outside_step n s t \<and> ns_main t = Main_Exit 0"
  proof -
    obtain n t where nt: "interleaving (program_step x) outside_step n s t" "node_left t = 0" using nodedown.can_finish [OF down] by blast
    then have "going_down x t" using nodedown.work_bounded [OF nt(1) down] by simp
    then show ?thesis using nt going_down_progress(2) by blast
  qed
  ultimately show ?thesis by blast
qed

text \<open>The engine and the camera of \<open>detector_run_witness\<close>, answering the same way in every iteration.\<close>

definition sim_setting :: node_setting where
  "sim_setting = \<lparr>nx_env = sim_env, nx_info = sim_info, nx_srt = stable_score_sort, nx_params = sim_params, nx_csv_ok = True,
     nx_fds = {0, 1, 2}, nx_feed = (\<lambda>tk. tk = sim_tick)\<rparr>"

lemma sim_setting_ok: "nx_ok sim_setting"
proof -
  have "tick_ok sim_info sim_tick" by (simp add: tick_ok_def holds_pixels_def sim_info_def sim_tick_def)
  moreover have "axis_ok (np_input_w sim_params)" "axis_ok (np_input_h sim_params)" by (simp_all add: sim_params_def)
  moreover have "tv_engine (ne_trt sim_env) = Some sim_tensors" "sys_socket (ne_can sim_env) \<notin> {0, 1, 2}" by (simp_all add: sim_env_def)
  moreover have "tk_exec sim_tick = sim_exec" by (simp add: sim_tick_def)
  ultimately show ?thesis using sim_fits stable.score_sort_axioms by (simp add: nx_ok_def sim_setting_def)
qed

definition sim_down :: node_state where
  "sim_down = (spinning Wk_Setup [] (nx_start sim_setting))\<lparr>ns_ok := False\<rparr>"

lemma sim_interrupted: "reaches sim_setting sim_down"
  by (rule reach_outside [OF reach_setup], unfold sim_down_def, rule outside_step.interrupt) (simp add: spinning_def)


theorem node_shuts_down_witness:
  "\<exists>n t. interleaving (program_step sim_setting) outside_step n sim_down t \<and> ns_main t = Main_Exit 0"
  using node_shuts_down [OF sim_setting_ok sim_interrupted] by (simp add: sim_down_def spinning_def)

end
