(* ===== verification/Trt_Logger.thy ===== *)
theory Trt_Logger
  imports Prelude
begin

text \<open>
  The logger handed to TensorRT (\<open>TrtLogger\<close> in \<open>trt_engine.hpp\<close> and \<open>trt_engine.cpp\<close> of \<open>src/edge-ai-detector-tensorrt-ros2\<close>).
  A severity is an enumerator of the documented TensorRT enumeration, from the most to the least severe, and C++ compares enumerators by
  their position: the order of the type is an instance of the library's linear orders. A call gives the line it prints, if any.
\<close>

datatype severity = kINTERNAL_ERROR | kERROR | kWARNING | kINFO | kVERBOSE

primrec severity_code :: "severity \<Rightarrow> nat" where
  "severity_code kINTERNAL_ERROR = 0"
| "severity_code kERROR = 1"
| "severity_code kWARNING = 2"
| "severity_code kINFO = 3"
| "severity_code kVERBOSE = 4"

lemma severity_code_inj: "severity_code s = severity_code t \<Longrightarrow> s = t"
  by (cases s; cases t) simp_all

instantiation severity :: linorder
begin

definition less_eq_severity :: "severity \<Rightarrow> severity \<Rightarrow> bool" where
  "less_eq_severity s t \<longleftrightarrow> severity_code s \<le> severity_code t"

definition less_severity :: "severity \<Rightarrow> severity \<Rightarrow> bool" where
  "less_severity s t \<longleftrightarrow> severity_code s < severity_code t"

instance
  by standard (auto simp: less_eq_severity_def less_severity_def intro: severity_code_inj)

end

record trt_logger =
  tl_min :: severity

definition trt_logger_default :: trt_logger where
  "trt_logger_default = \<lparr>tl_min = kWARNING\<rparr>"

definition severity_tag :: "severity \<Rightarrow> string" where
  "severity_tag s = (case s of kINTERNAL_ERROR \<Rightarrow> ''TRT-FATAL'' | kERROR \<Rightarrow> ''TRT-ERROR'' | kWARNING \<Rightarrow> ''TRT-WARN''
     | kINFO \<Rightarrow> ''TRT-INFO'' | _ \<Rightarrow> ''TRT-DBG'')"

definition trt_log :: "trt_logger \<Rightarrow> severity \<Rightarrow> string \<Rightarrow> string option" where
  "trt_log l s msg = (if tl_min l < s then None else Some (''['' @ severity_tag s @ ''] '' @ msg @ [CHR 0x0A]))"

text \<open>A more severe message is never dropped when a less severe one is printed; the default logger prints warnings and worse.\<close>

lemma trt_log_threshold: "s \<le> t \<Longrightarrow> trt_log l t msg \<noteq> None \<Longrightarrow> trt_log l s msg' \<noteq> None"
  by (auto simp: trt_log_def split: if_splits)

lemma trt_log_default: "trt_log trt_logger_default s msg \<noteq> None \<longleftrightarrow> s \<in> {kINTERNAL_ERROR, kERROR, kWARNING}"
  by (cases s) (simp_all add: trt_log_def trt_logger_default_def less_severity_def)

text \<open>The severity of a printed line can be read off it.\<close>

lemma severity_tag_inj: "severity_tag s = severity_tag t \<Longrightarrow> s = t"
  by (cases s; cases t) (simp_all add: severity_tag_def)

end
