(* ===== verification/Int8_Calibrator.thy ===== *)
theory Int8_Calibrator
  imports Letterbox "HOL-Library.List_Lexorder" "HOL-Library.Char_ord"
begin

text \<open>
  The INT8 calibrator of the engine builder (\<open>int8_calibrator.hpp\<close>, \<open>int8_calibrator.cpp\<close> of
  \<open>src/edge-ai-detector-tensorrt-ros2\<close>): the list of calibration images, the batches made of them and the
  calibration cache.

  OpenCV is a parameter: \<open>cv_imread\<close> reads a file (\<open>None\<close> for a file it cannot decode) and
  \<open>cv_resize\<close> gives the BGR pixel at a column and row of the resized image; resizing to an empty size throws, which
  ends the process, as \<open>getBatch\<close> is \<open>noexcept\<close> (\<open>None\<close>). The geometry is that of the letterbox transform of
  the detector. The directory is the list of its entries, a file system is a map from paths to contents, and CUDA calls are
  taken to succeed: the code aborts when they do not.
\<close>

subsection \<open>Data\<close>

record cv_image =
  im_cols :: int
  im_rows :: int
  im_px :: "int \<Rightarrow> int \<Rightarrow> byte \<times> byte \<times> byte"

record cv_env =
  cv_imread :: "string \<Rightarrow> cv_image option"
  cv_resize :: "cv_image \<Rightarrow> int \<Rightarrow> int \<Rightarrow> int \<Rightarrow> int \<Rightarrow> byte \<times> byte \<times> byte"

record calibrator =
  ca_cache_path :: string
  ca_input_tensor :: string
  ca_w :: int
  ca_h :: int
  ca_batch :: nat
  ca_files :: "string list"
  ca_cursor :: nat
  ca_input_bytes :: nat
  ca_cache :: "byte list"

subsection \<open>Construction\<close>

text \<open>\<open>path.extension()\<close>: from the last dot of the file name, unless the name starts with it.\<close>

definition path_extension :: "string \<Rightarrow> string" where
  "path_extension path =
     (let fn = rev (takeWhile (\<lambda>c. c \<noteq> CHR ''/'') (rev path));
          tail = takeWhile (\<lambda>c. c \<noteq> CHR ''.'') (rev fn);
          rest = drop (length tail + 1) (rev fn)
      in if length tail = length fn \<or> rest = [] \<or> fn = ''..'' then [] else CHR ''.'' # rev tail)"

definition to_lower :: "char \<Rightarrow> char" where
  "to_lower c = (if 65 \<le> (of_char c :: nat) \<and> (of_char c :: nat) \<le> 90 then char_of ((of_char c :: nat) + 32) else c)"

definition is_image :: "string \<Rightarrow> bool" where
  "is_image path = (map to_lower (path_extension path) \<in> {''.jpg'', ''.jpeg'', ''.png'', ''.bmp''})"

text \<open>\<open>entries\<close> are the directory entries, each with whether it is a regular file.\<close>

definition calib_new :: "(string \<times> bool) list \<Rightarrow> string \<Rightarrow> int \<Rightarrow> int \<Rightarrow> nat \<Rightarrow> string \<Rightarrow> calibrator" where
  "calib_new entries cache_path width height batch input_tensor =
     \<lparr>ca_cache_path = cache_path, ca_input_tensor = input_tensor, ca_w = width, ca_h = height, ca_batch = batch,
      ca_files = sort (map fst (filter (\<lambda>(p, regular). regular \<and> is_image p) entries)), ca_cursor = 0,
      ca_input_bytes = batch * nat (3 * height * width) * 4, ca_cache = []\<rparr>"

subsection \<open>Batches\<close>

text \<open>One pixel, one row and one image, painted into slot \<open>loaded\<close> of the batch.\<close>

definition calib_pixel :: "(int \<Rightarrow> int \<Rightarrow> byte \<times> byte \<times> byte) \<Rightarrow> int \<Rightarrow> int \<Rightarrow> nat \<Rightarrow> nat \<Rightarrow> rat list \<Rightarrow> rat list option" where
  "calib_pixel resized plane orow y x out =
     (case resized (int x) (int y) of (b, g, r) \<Rightarrow>
      case upd_int out (orow + int x) (letterbox_px r) of None \<Rightarrow> None | Some out \<Rightarrow>
      case upd_int out (orow + int x + plane) (letterbox_px g) of None \<Rightarrow> None | Some out \<Rightarrow>
      upd_int out (orow + int x + 2 * plane) (letterbox_px b))"

definition calib_image :: "cv_env \<Rightarrow> int \<Rightarrow> int \<Rightarrow> nat \<Rightarrow> cv_image \<Rightarrow> rat list \<Rightarrow> rat list option" where
  "calib_image cv w h loaded img out =
     (let scale = letterbox_scale (im_cols img) (im_rows img) w h; plane = w * h in
      case letterbox_extent (im_cols img) scale of None \<Rightarrow> None | Some nw \<Rightarrow>
      case letterbox_extent (im_rows img) scale of None \<Rightarrow> None | Some nh \<Rightarrow>
      if nw \<le> 0 \<or> nh \<le> 0 then None
      else let resized = cv_resize cv img nw nh;
               px = letterbox_pad w nw; py = letterbox_pad h nh;
               base = int loaded * 3 * plane
           in for_each (\<lambda>y. for_each (calib_pixel resized plane (base + (int y + py) * w + px) y) [0..<nat nw]) [0..<nat nh] out)"

text \<open>The loop over the files from the cursor on: how many it passed, how many images it loaded, the batch.\<close>

fun calib_fill :: "cv_env \<Rightarrow> int \<Rightarrow> int \<Rightarrow> nat \<Rightarrow> string list \<Rightarrow> nat \<Rightarrow> rat list \<Rightarrow> (nat \<times> nat \<times> rat list) option" where
  "calib_fill cv w h batch [] loaded out = Some (0, loaded, out)"
| "calib_fill cv w h batch (f # fs) loaded out =
     (if batch \<le> loaded then Some (0, loaded, out)
      else case (case cv_imread cv f of
                   None \<Rightarrow> calib_fill cv w h batch fs loaded out
                 | Some img \<Rightarrow> (case calib_image cv w h loaded img out of None \<Rightarrow> None
                                | Some out' \<Rightarrow> calib_fill cv w h batch fs (loaded + 1) out')) of
             None \<Rightarrow> None
           | Some (k, l, out') \<Rightarrow> Some (k + 1, l, out'))"

definition load_next_batch :: "cv_env \<Rightarrow> calibrator \<Rightarrow> (bool \<times> rat list \<times> calibrator) option" where
  "load_next_batch cv c =
     (if length (ca_files c) \<le> ca_cursor c then Some (False, [], c)
      else case calib_fill cv (ca_w c) (ca_h c) (ca_batch c) (drop (ca_cursor c) (ca_files c)) 0
                  (replicate (ca_batch c * nat (3 * ca_h c * ca_w c)) (1/2)) of
             None \<Rightarrow> None
           | Some (k, loaded, out) \<Rightarrow> Some (0 < loaded, out, c\<lparr>ca_cursor := ca_cursor c + k\<rparr>))"

text \<open>\<open>getBatch\<close>: the content of the device input afterwards, and for every binding whether it now points to it.\<close>

definition get_batch :: "cv_env \<Rightarrow> string list \<Rightarrow> calibrator \<Rightarrow> ((rat list \<times> bool list) option \<times> calibrator) option" where
  "get_batch cv names c =
     (case load_next_batch cv c of None \<Rightarrow> None
      | Some (ok, host, c') \<Rightarrow>
        Some (if ok then Some (host, map (\<lambda>n. ca_input_tensor c = [] \<or> ca_input_tensor c = n) names) else None, c'))"

subsection \<open>Cache\<close>

type_synonym files = "string \<Rightarrow> byte list option"

definition read_cache :: "files \<Rightarrow> calibrator \<Rightarrow> byte list option \<times> calibrator" where
  "read_cache fs c = (case fs (ca_cache_path c) of None \<Rightarrow> (None, c\<lparr>ca_cache := []\<rparr>) | Some d \<Rightarrow> (Some d, c\<lparr>ca_cache := d\<rparr>))"

definition write_cache :: "(string \<Rightarrow> bool) \<Rightarrow> byte list \<Rightarrow> calibrator \<Rightarrow> files \<Rightarrow> files" where
  "write_cache creatable d c fs = (if creatable (ca_cache_path c) then fs(ca_cache_path c \<mapsto> d) else fs)"

lemma cache_roundtrip: "creatable (ca_cache_path c) \<Longrightarrow> fst (read_cache (write_cache creatable d c fs) c) = Some d"
  by (simp add: read_cache_def write_cache_def)

subsection \<open>Painting stays inside the batch\<close>

lemma for_each_length:
  assumes "\<And>v s. v \<in> set vs \<Longrightarrow> length s = n \<Longrightarrow> \<exists>t. f v s = Some t \<and> length t = n" "length s = n"
  shows "\<exists>t. for_each f vs s = Some t \<and> length t = n"
  using assms
proof (induction vs arbitrary: s)
  case (Cons v vs)
  then obtain t where t: "f v s = Some t" "length t = n" by (metis list.set_intros(1))
  with Cons.IH [OF _ t(2)] Cons.prems(1) show ?case by auto
qed simp

lemma upd_int_in: "0 \<le> i \<Longrightarrow> i < int (length out) \<Longrightarrow> upd_int out i v = Some (out[nat i := v])"
  by (simp add: upd_int_def)

text \<open>An image the calibrator can handle: its axes are in range and neither resized axis vanishes.\<close>

definition image_ok :: "int \<Rightarrow> int \<Rightarrow> cv_image \<Rightarrow> bool" where
  "image_ok w h img \<longleftrightarrow> axis_ok (im_cols img) \<and> axis_ok (im_rows img)
     \<and> letterbox_extent (im_cols img) (letterbox_scale (im_cols img) (im_rows img) w h) \<noteq> Some 0
     \<and> letterbox_extent (im_rows img) (letterbox_scale (im_cols img) (im_rows img) w h) \<noteq> Some 0"

lemma calib_pixel_in:
  assumes "0 \<le> orow" "orow + int x + 2 * plane < int n" "0 \<le> plane" "length out = n"
  shows "\<exists>t. calib_pixel resized plane orow y x out = Some t \<and> length t = n"
  using assms by (auto simp: calib_pixel_def upd_int_in split: prod.splits)

lemma slot_bound:
  fixes w h :: int
  assumes "l < batch" "0 \<le> y" "y < nh" "0 \<le> x" "x < nw" "0 \<le> px" "px + nw \<le> w" "0 \<le> py" "py + nh \<le> h"
  shows "0 \<le> int l * 3 * (w * h) + (y + py) * w + px" "int l * 3 * (w * h) + (y + py) * w + px + x + 2 * (w * h) < int (batch * nat (3 * h * w))"
proof -
  have wh: "0 \<le> w" "0 \<le> h" using assms by auto
  then have p: "0 \<le> w * h" by simp
  show "0 \<le> int l * 3 * (w * h) + (y + py) * w + px" using assms wh p by simp
  have "(y + py + 1) * w \<le> h * w" using assms wh by (intro mult_right_mono) auto
  moreover have "px + x < w" using assms by simp
  ultimately have row: "(y + py) * w + px + x < w * h" by (simp add: algebra_simps)
  have "(int l + 1) * (3 * (w * h)) \<le> int batch * (3 * (w * h))" using assms(1) p by (intro mult_right_mono) auto
  moreover have "(int l + 1) * (3 * (w * h)) = int l * 3 * (w * h) + 3 * (w * h)" by (simp add: algebra_simps)
  moreover have eq: "int (batch * nat (3 * h * w)) = int batch * (3 * (w * h))" using wh by (simp add: ac_simps)
  ultimately show "int l * 3 * (w * h) + (y + py) * w + px + x + 2 * (w * h) < int (batch * nat (3 * h * w))"
    unfolding eq using row by linarith
qed

lemma calib_image_in:
  assumes "axis_ok w" "axis_ok h" "image_ok w h img" "l < batch" "length out = batch * nat (3 * h * w)"
  shows "\<exists>t. calib_image cv w h l img out = Some t \<and> length t = batch * nat (3 * h * w)"
proof -
  let ?sc = "letterbox_scale (im_cols img) (im_rows img) w h"
  have ax: "axis_ok (im_cols img)" "axis_ok (im_rows img)" using assms(3) by (auto simp: image_ok_def)
  have sc: "1 / 2 ^ 20 \<le> ?sc" using ax assms(1,2) by (intro scale_pos) auto
  have le: "?sc \<le> f32 (f32 (of_int w) / f32 (of_int (im_cols img)))" "?sc \<le> f32 (f32 (of_int h) / f32 (of_int (im_rows img)))"
    by (simp_all add: letterbox_scale_def)
  obtain nw where nw: "letterbox_extent (im_cols img) ?sc = Some nw" "0 \<le> nw" "nw \<le> w" using extent_bounds [OF ax(1) assms(1) sc le(1)] by blast
  obtain nh where nh: "letterbox_extent (im_rows img) ?sc = Some nh" "0 \<le> nh" "nh \<le> h" using extent_bounds [OF ax(2) assms(2) sc le(2)] by blast
  have pos: "0 < nw" "0 < nh" using assms(3) nw nh by (auto simp: image_ok_def order_less_le)
  note fits = letterbox_pad_fits [OF nw(2,3)] letterbox_pad_fits [OF nh(2,3)]
  have wh: "0 \<le> w * h" using assms(1,2) by simp
  have px: "\<exists>t. calib_pixel rs (w * h) (int l * 3 * (w * h) + (int y + letterbox_pad h nh) * w + letterbox_pad w nw) y x s = Some t
      \<and> length t = batch * nat (3 * h * w)"
    if "y < nat nh" "x < nat nw" "length s = batch * nat (3 * h * w)" for y x s rs
    using slot_bound [OF assms(4), of "int y" nh "int x" nw "letterbox_pad w nw" w "letterbox_pad h nh" h] that fits wh
    by (intro calib_pixel_in) auto
  have "\<exists>t. for_each (\<lambda>y. for_each (calib_pixel rs (w * h) (int l * 3 * (w * h) + (int y + letterbox_pad h nh) * w + letterbox_pad w nw) y)
      [0..<nat nw]) [0..<nat nh] out = Some t \<and> length t = batch * nat (3 * h * w)" for rs
    using assms(5) px by (intro for_each_length) auto
  then show ?thesis using nw(1) nh(1) pos by (simp add: calib_image_def Let_def)
qed

subsection \<open>The sequence of batches\<close>

definition readable :: "cv_env \<Rightarrow> string list \<Rightarrow> cv_image list" where
  "readable cv fs = List.map_filter (cv_imread cv) fs"

lemma readable_simps [simp]:
  "readable cv [] = []" "cv_imread cv f = None \<Longrightarrow> readable cv (f # fs) = readable cv fs"
  "cv_imread cv f = Some img \<Longrightarrow> readable cv (f # fs) = img # readable cv fs"
  by (simp_all add: readable_def map_filter_simps)

text \<open>Images painted into consecutive slots from \<open>l\<close> on.\<close>

definition paint :: "cv_env \<Rightarrow> int \<Rightarrow> int \<Rightarrow> nat \<Rightarrow> cv_image list \<Rightarrow> rat list \<Rightarrow> rat list option" where
  "paint cv w h l imgs out = for_each (\<lambda>(k, img). calib_image cv w h k img) (enumerate l imgs) out"

lemma paint_simps [simp]:
  "paint cv w h l [] out = Some out"
  "paint cv w h l (img # imgs) out = (case calib_image cv w h l img out of None \<Rightarrow> None | Some t \<Rightarrow> paint cv w h (l + 1) imgs t)"
  by (simp_all add: paint_def split: option.split)

lemma paint_defined:
  assumes "axis_ok w" "axis_ok h" "\<forall>img \<in> set imgs. image_ok w h img" "l + length imgs \<le> batch" "length out = batch * nat (3 * h * w)"
  shows "\<exists>t. paint cv w h l imgs out = Some t \<and> length t = batch * nat (3 * h * w)"
  using assms
proof (induction imgs arbitrary: l out)
  case (Cons img imgs)
  have "image_ok w h img" "l < batch" using Cons.prems by auto
  then obtain t where t: "calib_image cv w h l img out = Some t" "length t = batch * nat (3 * h * w)"
    using calib_image_in [OF Cons.prems(1,2) _ _ Cons.prems(5)] by blast
  have "\<exists>u. paint cv w h (l + 1) imgs t = Some u \<and> length u = batch * nat (3 * h * w)"
    using Cons.prems t(2) by (intro Cons.IH) auto
  then show ?case using t(1) by simp
qed simp

text \<open>The loop takes the next images up to a full batch and leaves the others.\<close>

lemma calib_fill_run:
  assumes "paint cv w h l (take (batch - l) (readable cv fs)) out = Some t" "l \<le> batch"
  shows "\<exists>k \<le> length fs. calib_fill cv w h batch fs l out = Some (k, l + length (take (batch - l) (readable cv fs)), t)
     \<and> readable cv (drop k fs) = drop (batch - l) (readable cv fs) \<and> (fs \<noteq> [] \<and> l < batch \<longrightarrow> 0 < k)"
  using assms
proof (induction fs arbitrary: l out)
  case (Cons f fs)
  show ?case
  proof (cases "batch \<le> l")
    case True
    then show ?thesis using Cons.prems by (intro exI [of _ 0]) simp
  next
    case full: False
    show ?thesis
    proof (cases "cv_imread cv f")
      case None
      then obtain k where "k \<le> length fs" "calib_fill cv w h batch fs l out = Some (k, l + length (take (batch - l) (readable cv fs)), t)"
        "readable cv (drop k fs) = drop (batch - l) (readable cv fs)"
        using Cons.IH [of l out] Cons.prems by auto
      then show ?thesis using None full by (intro exI [of _ "k + 1"]) simp
    next
      case (Some img)
      have b: "batch - l = Suc (batch - (l + 1))" using full by simp
      obtain u where u: "calib_image cv w h l img out = Some u" "paint cv w h (l + 1) (take (batch - (l + 1)) (readable cv fs)) u = Some t"
        using Cons.prems(1) Some by (auto simp: b split: option.splits)
      obtain k where "k \<le> length fs"
        "calib_fill cv w h batch fs (l + 1) u = Some (k, l + 1 + length (take (batch - (l + 1)) (readable cv fs)), t)"
        "readable cv (drop k fs) = drop (batch - (l + 1)) (readable cv fs)"
        using Cons.IH [OF u(2)] full by auto
      then show ?thesis using Some full u(1) by (intro exI [of _ "k + 1"]) (simp add: b)
    qed
  qed
qed simp

lemma calib_fill_progress:
  "calib_fill cv w h batch fs l out = Some (k, l', t) \<Longrightarrow> l \<le> l' \<and> (l < l' \<longrightarrow> 0 < k)"
proof (induction fs arbitrary: l out k)
  case (Cons f fs)
  show ?case
  proof (cases "batch \<le> l")
    case False
    show ?thesis
    proof (cases "cv_imread cv f")
      case None
      then show ?thesis using Cons.prems Cons.IH [of l out] False by (auto split: option.splits)
    next
      case (Some img)
      then show ?thesis using Cons.prems Cons.IH [of "l + 1"] False by (fastforce split: option.splits)
    qed
  qed (use Cons.prems in simp)
qed simp

text \<open>What the builder does with the calibrator: it asks for batches until there is none.\<close>

function all_batches :: "cv_env \<Rightarrow> string list \<Rightarrow> calibrator \<Rightarrow> rat list list option" where
  "all_batches cv names c =
     (case get_batch cv names c of None \<Rightarrow> None
      | Some (None, c') \<Rightarrow> Some []
      | Some (Some (host, binds), c') \<Rightarrow> (case all_batches cv names c' of None \<Rightarrow> None | Some bs \<Rightarrow> Some (host # bs)))"
  by pat_completeness auto
termination
proof (relation "measure (\<lambda>(cv, names, c). length (ca_files c) - ca_cursor c)")
  fix cv names c x b c' y host binds
  assume "get_batch cv names c = Some x" "(b, c') = x" "b = Some y" "(host, binds) = y"
  then have "load_next_batch cv c = Some (True, host, c')"
    by (auto simp: get_batch_def split: option.splits prod.splits if_splits)
  then have "ca_files c' = ca_files c" "ca_cursor c < ca_cursor c'" "ca_cursor c < length (ca_files c)"
    using calib_fill_progress by (auto simp: load_next_batch_def split: if_splits option.splits)
  then show "((cv, names, c'), (cv, names, c)) \<in> measure (\<lambda>(cv, names, c). length (ca_files c) - ca_cursor c)" by simp
qed simp

declare all_batches.simps [simp del]

text \<open>The specification: a list cut into pieces of \<open>b\<close>, the last one possibly shorter.\<close>

function chunks :: "nat \<Rightarrow> 'a list \<Rightarrow> 'a list list" where
  "chunks b xs = (if xs = [] \<or> b = 0 then [] else take b xs # chunks b (drop b xs))"
  by pat_completeness auto
termination
  by (relation "measure (\<lambda>(b, xs). length xs)") auto

declare chunks.simps [simp del]

lemma concat_chunks: "0 < b \<Longrightarrow> concat (chunks b xs) = xs"
  by (induction b xs rule: chunks.induct) (subst chunks.simps, auto)

lemma round_up_div: "0 < b \<Longrightarrow> b \<le> n \<Longrightarrow> (n + b - 1) div b = Suc ((n - b + b - 1) div b)" for n b :: nat
proof -
  assume b: "0 < b" "b \<le> n"
  then have split: "n + b - 1 = (n - 1) + b" "n - b + b - 1 = n - 1" by linarith+
  have "b \<noteq> 0" using b(1) by simp
  then show ?thesis unfolding split by (metis div_add_self2 Suc_eq_plus1)
qed

lemma round_up_div_one: "0 < n \<Longrightarrow> n < b \<Longrightarrow> (n + b - 1) div b = 1" for n b :: nat
proof -
  assume n: "0 < n" "n < b"
  then have split: "n + b - 1 = (n - 1) + b" and b: "n - 1 < b" "b \<noteq> 0" by linarith+
  show ?thesis unfolding split div_add_self2 [OF b(2)] div_less [OF b(1)] by simp
qed

lemma length_chunks: "0 < b \<Longrightarrow> length (chunks b xs) = (length xs + b - 1) div b"
proof (induction b xs rule: chunks.induct)
  case (1 b xs)
  show ?case
  proof (cases "xs = []")
    case True
    then show ?thesis using 1(2) by (simp add: chunks.simps [of b "[]"])
  next
    case False
    then have step: "length (chunks b xs) = Suc ((length (drop b xs) + b - 1) div b)"
      using 1 by (simp add: chunks.simps [of b xs])
    show ?thesis
    proof (cases "b \<le> length xs")
      case True
      then show ?thesis using step round_up_div [OF 1(2) True] by simp
    next
      case short: False
      moreover have "(0 + b - 1) div b = 0" using 1(2) by simp
      ultimately show ?thesis using step False round_up_div_one [of "length xs" b] by simp
    qed
  qed
qed

lemma get_batch_next:
  assumes "axis_ok (ca_w c)" "axis_ok (ca_h c)" "0 < ca_batch c" "\<forall>img \<in> set (readable cv (drop (ca_cursor c) (ca_files c))). image_ok (ca_w c) (ca_h c) img"
  defines "rest \<equiv> readable cv (drop (ca_cursor c) (ca_files c))" and "n \<equiv> ca_batch c * nat (3 * ca_h c * ca_w c)"
  shows "\<exists>k t. paint cv (ca_w c) (ca_h c) 0 (take (ca_batch c) rest) (replicate n (1/2)) = Some t \<and> length t = n
     \<and> get_batch cv names c = Some (if rest = [] then None else Some (t, map (\<lambda>m. ca_input_tensor c = [] \<or> ca_input_tensor c = m) names), c\<lparr>ca_cursor := ca_cursor c + k\<rparr>)
     \<and> readable cv (drop (ca_cursor c + k) (ca_files c)) = drop (ca_batch c) rest"
proof -
  obtain t where t: "paint cv (ca_w c) (ca_h c) 0 (take (ca_batch c) rest) (replicate n (1/2)) = Some t" "length t = n"
    using paint_defined [OF assms(1,2), of "take (ca_batch c) rest" 0 "ca_batch c" "replicate n (1/2)" cv] assms(4)
    by (auto simp: rest_def n_def dest: in_set_takeD)
  show ?thesis
  proof (cases "length (ca_files c) \<le> ca_cursor c")
    case True
    then have "rest = []" by (simp add: rest_def)
    then show ?thesis using t True by (intro exI [of _ 0] exI [of _ t]) (simp add: get_batch_def load_next_batch_def)
  next
    case False
    obtain k where k: "calib_fill cv (ca_w c) (ca_h c) (ca_batch c) (drop (ca_cursor c) (ca_files c)) 0 (replicate n (1/2))
        = Some (k, length (take (ca_batch c) rest), t)" "readable cv (drop k (drop (ca_cursor c) (ca_files c))) = drop (ca_batch c) rest"
      using calib_fill_run [of cv "ca_w c" "ca_h c" 0 "ca_batch c" "drop (ca_cursor c) (ca_files c)"] t(1) by (auto simp: rest_def)
    have "0 < length (take (ca_batch c) rest) \<longleftrightarrow> rest \<noteq> []" using assms(3) by (cases rest) auto
    then show ?thesis using t k False by (intro exI [of _ k] exI [of _ t]) (simp add: get_batch_def load_next_batch_def n_def add.commute)
  qed
qed

text \<open>Asking for batches until there is none.\<close>

lemma all_batches_chunks:
  assumes "axis_ok (ca_w c)" "axis_ok (ca_h c)" "0 < ca_batch c"
    and "\<forall>img \<in> set (readable cv (drop (ca_cursor c) (ca_files c))). image_ok (ca_w c) (ca_h c) img"
  shows "\<exists>bs. all_batches cv names c = Some bs
     \<and> length bs = (length (readable cv (drop (ca_cursor c) (ca_files c))) + ca_batch c - 1) div ca_batch c
     \<and> concat (chunks (ca_batch c) (readable cv (drop (ca_cursor c) (ca_files c)))) = readable cv (drop (ca_cursor c) (ca_files c))
     \<and> list_all2 (\<lambda>imgs host. length host = ca_batch c * nat (3 * ca_h c * ca_w c)
          \<and> paint cv (ca_w c) (ca_h c) 0 imgs (replicate (ca_batch c * nat (3 * ca_h c * ca_w c)) (1/2)) = Some host)
         (chunks (ca_batch c) (readable cv (drop (ca_cursor c) (ca_files c)))) bs"
proof -
  have "\<exists>bs. all_batches cv names c = Some bs \<and> list_all2 (\<lambda>imgs host. length host = ca_batch c * nat (3 * ca_h c * ca_w c)
          \<and> paint cv (ca_w c) (ca_h c) 0 imgs (replicate (ca_batch c * nat (3 * ca_h c * ca_w c)) (1/2)) = Some host)
         (chunks (ca_batch c) (readable cv (drop (ca_cursor c) (ca_files c)))) bs"
    using assms
  proof (induction "length (readable cv (drop (ca_cursor c) (ca_files c)))" arbitrary: c rule: less_induct)
    case less
    let ?rest = "readable cv (drop (ca_cursor c) (ca_files c))" and ?n = "ca_batch c * nat (3 * ca_h c * ca_w c)"
    obtain k t where k: "paint cv (ca_w c) (ca_h c) 0 (take (ca_batch c) ?rest) (replicate ?n (1/2)) = Some t" "length t = ?n"
      "get_batch cv names c = Some (if ?rest = [] then None else Some (t, map (\<lambda>m. ca_input_tensor c = [] \<or> ca_input_tensor c = m) names), c\<lparr>ca_cursor := ca_cursor c + k\<rparr>)"
      "readable cv (drop (ca_cursor c + k) (ca_files c)) = drop (ca_batch c) ?rest"
      using get_batch_next [OF less.prems] by blast
    show ?case
    proof (cases "?rest = []")
      case True
      then show ?thesis using k(3) by (simp add: all_batches.simps [of cv names c] chunks.simps [of _ "[]"])
    next
      case False
      let ?c = "c\<lparr>ca_cursor := ca_cursor c + k\<rparr>"
      have "length (drop (ca_batch c) ?rest) < length ?rest" using False less.prems(3) by (cases ?rest) auto
      then obtain bs where bs: "all_batches cv names ?c = Some bs" "list_all2 (\<lambda>imgs host. length host = ?n
          \<and> paint cv (ca_w c) (ca_h c) 0 imgs (replicate ?n (1/2)) = Some host) (chunks (ca_batch c) (drop (ca_batch c) ?rest)) bs"
        using less.hyps [of ?c] less.prems k(4) by (auto dest: in_set_dropD)
      have "chunks (ca_batch c) ?rest = take (ca_batch c) ?rest # chunks (ca_batch c) (drop (ca_batch c) ?rest)"
        using False less.prems(3) by (subst chunks.simps) simp
      then show ?thesis using bs k False by (simp add: all_batches.simps [of cv names c])
    qed
  qed
  then obtain bs where bs: "all_batches cv names c = Some bs" "list_all2 (\<lambda>imgs host. length host = ca_batch c * nat (3 * ca_h c * ca_w c)
          \<and> paint cv (ca_w c) (ca_h c) 0 imgs (replicate (ca_batch c * nat (3 * ca_h c * ca_w c)) (1/2)) = Some host)
         (chunks (ca_batch c) (readable cv (drop (ca_cursor c) (ca_files c)))) bs" by blast
  show ?thesis
  proof (intro exI [of _ bs] conjI)
    let ?rest = "readable cv (drop (ca_cursor c) (ca_files c))"
    show "length bs = (length ?rest + ca_batch c - 1) div ca_batch c"
      using list_all2_lengthD [OF bs(2)] length_chunks [OF assms(3), of ?rest] by (rule trans [OF sym])
    show "concat (chunks (ca_batch c) ?rest) = ?rest" by (rule concat_chunks [OF assms(3)])
  qed (rule bs)+
qed

subsection \<open>Property\<close>



end
