(* ===== verification/Build_Engine.thy ===== *)
theory Build_Engine
  imports Int8_Calibrator Command_Line
begin

text \<open>
  The engine builder \<open>src/edge-ai-detector-tensorrt-ros2/tools/build_engine.cpp\<close>: its options, the builder
  configuration it makes of them (workspace, optimisation profile, precision flags, calibrator) and its exit codes.

  TensorRT and the ONNX parser are parameters: whether the model parses, the shape and name of its first input, the platform's
  precisions, and the serialised engine for a configuration. \<open>createNetworkV2\<close> and the printed text are left out.
\<close>

subsection \<open>Options\<close>

definition be_opt :: "string list \<Rightarrow> string \<Rightarrow> string \<Rightarrow> string" where
  "be_opt argv k d = (case first_value (tl argv) k of Some v \<Rightarrow> v | None \<Rightarrow> d)"

definition be_flag :: "string list \<Rightarrow> string \<Rightarrow> bool" where
  "be_flag argv k \<longleftrightarrow> k \<in> set (tl argv)"

record build_options =
  bo_onnx :: string
  bo_out :: string
  bo_cdir :: string
  bo_ccache :: string
  bo_w :: int
  bo_h :: int
  bo_batch :: int
  bo_workspace :: int
  bo_int8 :: bool
  bo_fp16 :: bool

definition build_options_of :: "string list \<Rightarrow> build_options" where
  "build_options_of argv = \<lparr>bo_onnx = be_opt argv ''--onnx'' [], bo_out = be_opt argv ''--out'' ''model.engine'', bo_cdir = be_opt argv ''--calib-dir'' [],
     bo_ccache = be_opt argv ''--calib-cache'' ''calib.table'', bo_w = atoi (be_opt argv ''--width'' ''640''), bo_h = atoi (be_opt argv ''--height'' ''640''),
     bo_batch = atoi (be_opt argv ''--calib-batch'' ''8''), bo_workspace = strtol (be_opt argv ''--workspace'' ''2048''),
     bo_int8 = be_flag argv ''--int8'', bo_fp16 = be_flag argv ''--fp16''\<rparr>"

subsection \<open>Configuration\<close>

record build_config =
  bc_workspace :: u64
  bc_profile :: "(string \<times> int list) option"
  bc_int8 :: bool
  bc_fp16 :: bool
  bc_calib :: "calibrator option"

record builder_env =
  bd_parses :: "string \<Rightarrow> bool"
  bd_input :: "string \<times> int list"
  bd_fast_fp16 :: bool
  bd_dir :: "string \<Rightarrow> (string \<times> bool) list option"
  bd_build :: "build_config \<Rightarrow> byte list option"
  bd_creatable :: "string \<Rightarrow> bool"

definition is_dynamic :: "int list \<Rightarrow> bool" where
  "is_dynamic dims \<longleftrightarrow> (\<exists>d \<in> set dims. d < 0)"

text \<open>The calibrator: \<open>None\<close> when its constructor ends the process, since the directory cannot be read
  (an exception nobody catches) or the device memory of a negative batch cannot be allocated (abort).\<close>

definition build_calib :: "builder_env \<Rightarrow> build_options \<Rightarrow> calibrator option" where
  "build_calib env bo =
     (case bd_dir env (bo_cdir bo) of None \<Rightarrow> None
      | Some entries \<Rightarrow> if bo_batch bo < 0 then None
          else Some (calib_new entries (bo_ccache bo) (bo_w bo) (bo_h bo) (nat (bo_batch bo)) (fst (bd_input env))))"

definition build_config_of :: "builder_env \<Rightarrow> build_options \<Rightarrow> build_config option" where
  "build_config_of env bo =
     (let c = \<lparr>bc_workspace = of_int (bo_workspace bo) * 1024 * 1024,
               bc_profile = (if is_dynamic (snd (bd_input env)) then Some (fst (bd_input env), [1, 3, bo_h bo, bo_w bo]) else None),
               bc_int8 = bo_int8 bo, bc_fp16 = (bo_fp16 bo \<or> bo_int8 bo) \<and> bd_fast_fp16 env, bc_calib = None\<rparr>
      in if bo_int8 bo \<and> bo_cdir bo \<noteq> []
         then (case build_calib env bo of None \<Rightarrow> None | Some k \<Rightarrow> Some (c\<lparr>bc_calib := Some k\<rparr>))
         else Some c)"

subsection \<open>The program\<close>

datatype build_exit = Exit int | Killed

definition build_main :: "builder_env \<Rightarrow> string list \<Rightarrow> files \<Rightarrow> build_exit \<times> files" where
  "build_main env argv fs =
     (let bo = build_options_of argv in
      if bo_onnx bo = [] then (Exit 2, fs)
      else if \<not> bd_parses env (bo_onnx bo) then (Exit 1, fs)
      else case build_config_of env bo of None \<Rightarrow> (Killed, fs)
        | Some c \<Rightarrow> (case bd_build env c of None \<Rightarrow> (Exit 1, fs)
           | Some engine \<Rightarrow> (Exit 0, if bd_creatable env (bo_out bo) then fs(bo_out bo \<mapsto> engine) else fs)))"

text \<open>Only \<open>--calib-dir\<close> installs a calibrator: without it an INT8 build has none, so no calibration cache is read.\<close>

lemma build_without_directory:
  "bo_cdir bo = [] \<Longrightarrow> \<exists>c. build_config_of env bo = Some c \<and> bc_int8 c = bo_int8 bo \<and> bc_calib c = None"
  by (simp add: build_config_of_def Let_def)

text \<open>The program reports success whenever the build succeeded, also when the engine could not be stored.\<close>

lemma build_main_success:
  "fst (build_main env argv fs) = Exit 0 \<longleftrightarrow> bo_onnx (build_options_of argv) \<noteq> [] \<and> bd_parses env (bo_onnx (build_options_of argv))
     \<and> (\<exists>c e. build_config_of env (build_options_of argv) = Some c \<and> bd_build env c = Some e)"
  by (auto simp: build_main_def Let_def split: option.splits)

lemma build_main_writes:
  "fst (build_main env argv fs) = Exit 0 \<Longrightarrow> bd_creatable env (bo_out (build_options_of argv)) \<Longrightarrow>
   \<exists>c. build_config_of env (build_options_of argv) = Some c \<and> snd (build_main env argv fs) (bo_out (build_options_of argv)) = bd_build env c"
  by (auto simp: build_main_def Let_def split: option.splits if_splits)

subsection \<open>Property\<close>


text \<open>A directory with one image and another file, and a builder that accepts everything.\<close>

definition sim_argv :: "string list" where
  "sim_argv = [''build_engine'', ''--onnx'', ''m.onnx'', ''--int8'', ''--calib-dir'', ''d'', ''--width'', ''4'', ''--height'', ''4'', ''--calib-batch'', ''2'']"

definition sim_builder :: builder_env where
  "sim_builder = \<lparr>bd_parses = (\<lambda>_. True), bd_input = (''images'', [1, 3, 4, 4]), bd_fast_fp16 = True,
     bd_dir = (\<lambda>_. Some [(''a.png'', True), (''notes.txt'', True)]), bd_build = (\<lambda>_. Some [1, 2, 3]), bd_creatable = (\<lambda>_. True)\<rparr>"

definition sim_cv :: cv_env where
  "sim_cv = \<lparr>cv_imread = (\<lambda>f. if f = ''a.png'' then Some \<lparr>im_cols = 1, im_rows = 1, im_px = (\<lambda>_ _. (0, 0, 0))\<rparr> else None), cv_resize = (\<lambda>img _ _. im_px img)\<rparr>"

lemma sim_options:
  "bo_onnx (build_options_of sim_argv) = ''m.onnx''" "bo_int8 (build_options_of sim_argv)" "bo_cdir (build_options_of sim_argv) = ''d''"
  "bo_w (build_options_of sim_argv) = 4" "bo_h (build_options_of sim_argv) = 4" "bo_batch (build_options_of sim_argv) = 2"
  by code_simp+


end
