(* ===== verification/Can_Bridge.thy ===== *)
theory Can_Bridge
  imports Can_Frame Command_Line
begin

text \<open>
  The vcan telemetry bridge \<open>src/vcan-socketcan-telemetry-bridge\<close>: the frame layout and byte order
  helpers of \<open>can_common.h\<close>, the simulator \<open>can_tx.c\<close> and the receiver \<open>can_rx.c\<close>.

  The mathematics library's \<open>sin\<close> and \<open>exp\<close> are a parameter (\<open>libm\<close>) with their range as contract; all
  other arithmetic is binary64, rounded after every operation. A conversion of a \<open>double\<close> to an
  integer type that cannot hold it is undefined in C and gives \<open>None\<close>. The kernel's answers
  (socket calls, results of \<open>write\<close> and \<open>read\<close>) and the moment the signal arrives are arguments: the
  loops run over the list of answers and stop when the list ends.
\<close>

subsection \<open>Layout\<close>

definition CANID_ENGINE_DATA :: u32 where
  "CANID_ENGINE_DATA = 0x0C0"

definition CANID_VEHICLE_DATA :: u32 where
  "CANID_VEHICLE_DATA = 0x0D0"

definition RPM_SCALE :: rat where "RPM_SCALE = f64 (25/100)"
definition ECT_OFFSET :: int where "ECT_OFFSET = -40"
definition THROTTLE_SCALE :: rat where "THROTTLE_SCALE = f64 (4/10)"
definition SPEED_SCALE :: rat where "SPEED_SCALE = f64 (1/100)"

definition ALERT_RPM_REDLINE :: rat where "ALERT_RPM_REDLINE = 6500"
definition ALERT_ECT_MAX_C :: rat where "ALERT_ECT_MAX_C = 110"
definition ALERT_SPEED_MAX_KMH :: rat where "ALERT_SPEED_MAX_KMH = 180"

text \<open>The helpers take the offset of the field in the eight data bytes.\<close>

definition be16_put :: "nat \<Rightarrow> u16 \<Rightarrow> byte list \<Rightarrow> byte list" where
  "be16_put p v d = d[p := ucast (drop_bit 8 v), p + 1 := ucast (and v 0xFF)]"

definition be16_get :: "byte list \<Rightarrow> nat \<Rightarrow> u16" where
  "be16_get d p = or (push_bit 8 (ucast (d ! p))) (ucast (d ! (p + 1)))"

definition be24_get :: "byte list \<Rightarrow> nat \<Rightarrow> u32" where
  "be24_get d p = or (or (push_bit 16 (ucast (d ! p))) (push_bit 8 (ucast (d ! (p + 1))))) (ucast (d ! (p + 2)))"

definition be24_put :: "nat \<Rightarrow> u32 \<Rightarrow> byte list \<Rightarrow> byte list" where
  "be24_put p v d = d[p := ucast (drop_bit 16 v), p + 1 := ucast (drop_bit 8 v), p + 2 := ucast (and v 0xFF)]"

subsection \<open>Transmitter\<close>

record libm =
  lm_sin :: "rat \<Rightarrow> rat"
  lm_exp :: "rat \<Rightarrow> rat"

text \<open>Conversions of a \<open>double\<close> to an integer type.\<close>

definition to_u16 :: "rat \<Rightarrow> u16 option" where
  "to_u16 x = (if 0 \<le> ftrunc x \<and> ftrunc x < 2 ^ 16 then Some (word_of_int (ftrunc x)) else None)"

definition to_u32 :: "rat \<Rightarrow> u32 option" where
  "to_u32 x = (if 0 \<le> ftrunc x \<and> ftrunc x < 2 ^ 32 then Some (word_of_int (ftrunc x)) else None)"

definition to_long :: "rat \<Rightarrow> int option" where
  "to_long x = (if - (2 ^ 63) \<le> ftrunc x \<and> ftrunc x < 2 ^ 63 then Some (ftrunc x) else None)"

text \<open>Command line: \<open>None\<close> is the usage error (exit code 2).\<close>

record tx_options =
  to_iface :: string
  to_hz :: rat
  to_redline :: bool

fun tx_args :: "string list \<Rightarrow> tx_options \<Rightarrow> tx_options option" where
  "tx_args [] opts = Some opts"
| "tx_args (a # as) opts =
     (if a = ''--hz'' \<and> as \<noteq> [] then tx_args (tl as) (opts\<lparr>to_hz := atof (hd as)\<rparr>)
      else if a = ''--redline'' then tx_args as (opts\<lparr>to_redline := True\<rparr>)
      else if a = [] \<or> hd a \<noteq> CHR ''-'' then tx_args as (opts\<lparr>to_iface := a\<rparr>)
      else None)"

text \<open>\<open>hz > 0 ? hz : 10.0\<close>.\<close>

definition eff_hz :: "rat \<Rightarrow> rat" where
  "eff_hz hz = (if 0 < hz then hz else 10)"

record drive =
  dr_throttle :: rat
  dr_rpm :: rat
  dr_speed :: rat
  dr_ect :: rat
  dr_mil :: bool

text \<open>The synthetic drive cycle at time \<open>t\<close>, forced past the thresholds by \<open>--redline\<close>, then clamped.\<close>

definition drive_cycle :: "libm \<Rightarrow> rat \<Rightarrow> drive" where
  "drive_cycle m t =
     (let throttle = f64 (40 + f64 (40 * lm_sin m (f64 (t * f64 (15/100)))));
          rpm = f64 (f64 (900 + f64 (30 * throttle)) + f64 (400 * lm_sin m (f64 (t * f64 (9/10)))));
          speed = max 0 (f64 (f64 (f64 (2/100) * rpm) - 20));
          ect = f64 (f64 (80 + f64 (15 * f64 (1 - lm_exp m (f64 (- t / 40))))) + f64 (3 * lm_sin m (f64 (t * f64 (5/100)))))
      in \<lparr>dr_throttle = throttle, dr_rpm = rpm, dr_speed = speed, dr_ect = ect, dr_mil = False\<rparr>)"

definition force_redline :: "bool \<Rightarrow> drive \<Rightarrow> drive" where
  "force_redline redline d =
     (if redline then d\<lparr>dr_rpm := f64 (dr_rpm d + 2500), dr_ect := f64 (dr_ect d + 40), dr_mil := True\<rparr> else d)"

definition clamp_rpm :: "drive \<Rightarrow> drive" where
  "clamp_rpm d =
     (let rpm = (if dr_rpm d < 0 then 0 else dr_rpm d)
      in d\<lparr>dr_rpm := (if f64 (16383 * RPM_SCALE) < rpm then f64 (16383 * RPM_SCALE) else rpm)\<rparr>)"

definition drive_at :: "libm \<Rightarrow> bool \<Rightarrow> rat \<Rightarrow> drive" where
  "drive_at m redline t = clamp_rpm (force_redline redline (drive_cycle m t))"

definition engine_frame :: "drive \<Rightarrow> can_frame option" where
  "engine_frame d =
     (case to_u16 (f64 (dr_rpm d / RPM_SCALE)) of None \<Rightarrow> None
      | Some raw \<Rightarrow> Some \<lparr>cf_id = CANID_ENGINE_DATA, cf_dlc = 8,
          cf_data = (be16_put 0 raw (replicate 8 0))
            [2 := word_of_int (cround (dr_ect d) - ECT_OFFSET), 3 := word_of_int (cround (f64 (dr_throttle d / THROTTLE_SCALE))),
             4 := if dr_mil d then 1 else 0]\<rparr>)"

definition vehicle_frame :: "drive \<Rightarrow> u32 \<Rightarrow> can_frame" where
  "vehicle_frame d odo =
     \<lparr>cf_id = CANID_VEHICLE_DATA, cf_dlc = 8,
      cf_data = be24_put 2 odo (be16_put 0 (word_of_int (cround (f64 (dr_speed d / SPEED_SCALE)))) (replicate 8 0))\<rparr>"

text \<open>Metres driven in one tick.\<close>

definition odo_step :: "rat \<Rightarrow> rat \<Rightarrow> u32 option" where
  "odo_step hz speed = to_u32 (f64 (f64 (speed / f64 (36/10)) / eff_hz hz))"

text \<open>The absolute deadline: nanoseconds carried into seconds.\<close>

function carry_ns :: "int \<Rightarrow> int \<Rightarrow> int \<times> int" where
  "carry_ns sec nsec = (if 1000000000 \<le> nsec then carry_ns (sec + 1) (nsec - 1000000000) else (sec, nsec))"
  by pat_completeness auto
termination
  by (relation "measure (\<lambda>(s, n). nat n)") auto

declare carry_ns.simps [simp del]

record tx_state =
  tx_t :: rat
  tx_odo :: u32
  tx_sec :: int
  tx_nsec :: int
  tx_sent :: "can_frame list"

definition tx_start :: "int \<times> int \<Rightarrow> tx_state" where
  "tx_start now = \<lparr>tx_t = 0, tx_odo = 0, tx_sec = fst now, tx_nsec = snd now, tx_sent = []\<rparr>"

text \<open>One iteration, with the results of its two writes: whether the loop goes on, and the state.
  A full write returns \<open>sizeof(struct can_frame)\<close>, 16.\<close>

definition tx_iter :: "libm \<Rightarrow> rat \<Rightarrow> bool \<Rightarrow> int \<Rightarrow> int \<times> int \<Rightarrow> tx_state \<Rightarrow> (bool \<times> tx_state) option" where
  "tx_iter m hz redline period_ns w s =
     (let d = drive_at m redline (tx_t s) in
      case odo_step hz (dr_speed d) of None \<Rightarrow> None
      | Some dm \<Rightarrow>
        let s1 = s\<lparr>tx_odo := tx_odo s + dm\<rparr> in
        case engine_frame d of None \<Rightarrow> None
        | Some e \<Rightarrow>
          if fst w \<noteq> 16 then Some (False, s1)
          else let s2 = s1\<lparr>tx_sent := tx_sent s1 @ [e]\<rparr> in
          if snd w \<noteq> 16 then Some (False, s2)
          else let s3 = s2\<lparr>tx_sent := tx_sent s2 @ [vehicle_frame d (tx_odo s2)], tx_t := f64 (tx_t s2 + f64 (1 / eff_hz hz))\<rparr>;
                   (sec, nsec) = carry_ns (tx_sec s3) (tx_nsec s3 + period_ns)
               in Some (True, s3\<lparr>tx_sec := sec, tx_nsec := nsec\<rparr>))"

fun tx_loop :: "libm \<Rightarrow> rat \<Rightarrow> bool \<Rightarrow> int \<Rightarrow> (int \<times> int) list \<Rightarrow> tx_state \<Rightarrow> tx_state option" where
  "tx_loop m hz redline period_ns [] s = Some s"
| "tx_loop m hz redline period_ns (w # ws) s =
     (case tx_iter m hz redline period_ns w s of None \<Rightarrow> None
      | Some (go, t) \<Rightarrow> if go then tx_loop m hz redline period_ns ws t else Some t)"

text \<open>Opening the socket, shared by the two programs: \<open>None\<close> is exit code 1.\<close>

definition bridge_socket :: "can_sys \<Rightarrow> string \<Rightarrow> int option" where
  "bridge_socket sys iface =
     (if sys_socket sys < 0 then None
      else case sys_ifindex sys (ifr_name iface) of None \<Rightarrow> None
        | Some ix \<Rightarrow> if sys_bind sys ix then Some (sys_socket sys) else None)"

text \<open>\<open>main\<close> of \<open>can_tx\<close>: exit code and the frames sent; \<open>None\<close> is undefined behaviour.\<close>

definition can_tx_main :: "libm \<Rightarrow> can_sys \<Rightarrow> int \<times> int \<Rightarrow> (int \<times> int) list \<Rightarrow> string list \<Rightarrow> (int \<times> can_frame list) option" where
  "can_tx_main m sys now ws argv =
     (case tx_args (tl argv) \<lparr>to_iface = ''vcan0'', to_hz = 10, to_redline = False\<rparr> of
        None \<Rightarrow> Some (2, [])
      | Some opts \<Rightarrow>
        (case bridge_socket sys (to_iface opts) of None \<Rightarrow> Some (1, [])
         | Some s \<Rightarrow>
           (case to_long (f64 (1000000000 / eff_hz (to_hz opts))) of None \<Rightarrow> None
            | Some period_ns \<Rightarrow>
              (case tx_loop m (to_hz opts) (to_redline opts) period_ns ws (tx_start now) of None \<Rightarrow> None
               | Some t \<Rightarrow> Some (0, tx_sent t)))))"

subsection \<open>Receiver\<close>

text \<open>The kernel filter: a frame passes when it agrees with a filter under its mask.\<close>

definition CAN_SFF_MASK :: u32 where
  "CAN_SFF_MASK = 0x7FF"

definition rx_filter :: "(u32 \<times> u32) list" where
  "rx_filter = [(CANID_ENGINE_DATA, CAN_SFF_MASK), (CANID_VEHICLE_DATA, CAN_SFF_MASK)]"

definition filter_passes :: "(u32 \<times> u32) list \<Rightarrow> can_frame \<Rightarrow> bool" where
  "filter_passes fs f \<longleftrightarrow> (\<exists>(fid, fmask) \<in> set fs. and (cf_id f) fmask = and fid fmask)"

datatype rx_read = ReadError | ReadShort | ReadFrame can_frame

record rx_state =
  rx_last_speed :: rat
  rx_count :: u64
  rx_alerts :: u64

definition rx_start :: rx_state where
  "rx_start = \<lparr>rx_last_speed = 0, rx_count = 0, rx_alerts = 0\<rparr>"

definition rx_rpm :: "can_frame \<Rightarrow> rat" where
  "rx_rpm f = f64 (of_nat (unat (be16_get (cf_data f) 0)) * RPM_SCALE)"

definition rx_ect :: "can_frame \<Rightarrow> int" where
  "rx_ect f = uint (cf_data f ! 2) + ECT_OFFSET"

definition rx_throttle :: "can_frame \<Rightarrow> rat" where
  "rx_throttle f = f64 (of_nat (unat (cf_data f ! 3)) * THROTTLE_SCALE)"

definition rx_mil :: "can_frame \<Rightarrow> bool" where
  "rx_mil f = (and (cf_data f ! 4) 1 \<noteq> 0)"

definition rx_speed :: "can_frame \<Rightarrow> rat" where
  "rx_speed f = f64 (of_nat (unat (be16_get (cf_data f) 0)) * SPEED_SCALE)"

definition rx_odo :: "can_frame \<Rightarrow> u32" where
  "rx_odo f = be24_get (cf_data f) 2"

definition rx_frame :: "can_frame \<Rightarrow> rx_state \<Rightarrow> rx_state" where
  "rx_frame f s0 =
     (let s = s0\<lparr>rx_count := rx_count s0 + 1\<rparr> in
      if cf_id f = CANID_ENGINE_DATA \<and> 5 \<le> cf_dlc f then
        (let s1 = (if ALERT_RPM_REDLINE < rx_rpm f then s\<lparr>rx_alerts := rx_alerts s + 1\<rparr> else s)
         in if ALERT_ECT_MAX_C < of_int (rx_ect f) then s1\<lparr>rx_alerts := rx_alerts s1 + 1\<rparr> else s1)
      else if cf_id f = CANID_VEHICLE_DATA \<and> 5 \<le> cf_dlc f then
        (let s1 = s\<lparr>rx_last_speed := rx_speed f\<rparr>
         in if ALERT_SPEED_MAX_KMH < rx_speed f then s1\<lparr>rx_alerts := rx_alerts s1 + 1\<rparr> else s1)
      else s)"

fun rx_loop :: "rx_read list \<Rightarrow> rx_state \<Rightarrow> rx_state" where
  "rx_loop [] s = s"
| "rx_loop (ReadError # rs) s = s"
| "rx_loop (ReadShort # rs) s = rx_loop rs s"
| "rx_loop (ReadFrame f # rs) s = rx_loop rs (rx_frame f s)"

text \<open>\<open>main\<close> of \<open>can_rx\<close>: exit code and the counters at the end; \<open>filter_ok\<close> is the result of \<open>setsockopt\<close>.\<close>

definition rx_iface :: "string list \<Rightarrow> string" where
  "rx_iface argv = (if 1 < length argv \<and> (argv ! 1 = [] \<or> hd (argv ! 1) \<noteq> CHR ''-'') then argv ! 1 else ''vcan0'')"

definition can_rx_main :: "can_sys \<Rightarrow> bool \<Rightarrow> rx_read list \<Rightarrow> string list \<Rightarrow> int \<times> rx_state" where
  "can_rx_main sys filter_ok reads argv =
     (case bridge_socket sys (rx_iface argv) of None \<Rightarrow> (1, rx_start)
      | Some s \<Rightarrow> if \<not> filter_ok then (1, rx_start) else (0, rx_loop reads rx_start))"

subsection \<open>Byte order\<close>

lemma and_0xFF: "and v 0xFF = take_bit 8 (v :: 'a::len word)"
  by (simp add: take_bit_eq_mask mask_eq_exp_minus_1)

lemma be16_roundtrip [codec_simps]: "p + 1 < length d \<Longrightarrow> be16_get (be16_put p v d) p = v"
  unfolding be16_get_def be16_put_def and_0xFF by simp (rule bit_word_eqI, auto simp: bit_simps not_less)

lemma be24_roundtrip [codec_simps]: "p + 2 < length d \<Longrightarrow> be24_get (be24_put p v d) p = take_bit 24 v"
  unfolding be24_get_def be24_put_def and_0xFF
  by simp (rule bit_word_eqI, rename_tac n, case_tac "16 \<le> n", auto simp: bit_simps not_less)

subsection \<open>The deadline\<close>

lemma carry_ns_div_mod: "0 \<le> nsec \<Longrightarrow> carry_ns sec nsec = (sec + nsec div 1000000000, nsec mod 1000000000)"
proof (induction sec nsec rule: carry_ns.induct)
  case (1 sec nsec)
  define c :: int where "c = 1000000000"
  have c: "0 < c" by (simp add: c_def)
  note step = carry_ns.simps [of sec nsec, folded c_def]
  show ?case unfolding c_def [symmetric]
  proof (cases "c \<le> nsec")
    case True
    have "carry_ns sec nsec = (sec + 1 + (nsec - c) div c, (nsec - c) mod c)"
      using "1.IH" [folded c_def, OF True] True step by simp
    then show "carry_ns sec nsec = (sec + nsec div c, nsec mod c)"
      by (subst div_pos_geq [OF c True], subst mod_pos_geq [OF c True]) simp
  next
    case False
    then show "carry_ns sec nsec = (sec + nsec div c, nsec mod c)" using "1.prems" step by simp
  qed
qed

subsection \<open>Range of the drive cycle\<close>

definition libm_ok :: "libm \<Rightarrow> bool" where
  "libm_ok m \<longleftrightarrow> (\<forall>x. -1 \<le> lm_sin m x \<and> lm_sin m x \<le> 1) \<and> (\<forall>x \<le> 0. 0 \<le> lm_exp m x \<and> lm_exp m x \<le> 1)"

lemma f64_between:
  "of_int a \<le> x \<Longrightarrow> x \<le> of_int b \<Longrightarrow> \<bar>a\<bar> \<le> 2 ^ 53 \<Longrightarrow> \<bar>b\<bar> \<le> 2 ^ 53 \<Longrightarrow> of_int a \<le> f64 x \<and> f64 x \<le> of_int b"
  using f64.rnd_ge_int [of a x] f64.rnd_le_int [of x b] by blast

lemma scales:
  "RPM_SCALE = 1/4" "2/5 \<le> THROTTLE_SCALE" "THROTTLE_SCALE \<le> 401/1000" "99/10000 \<le> SPEED_SCALE" "SPEED_SCALE \<le> 101/10000"
  "f64 (2/100) \<le> 201/10000" "0 \<le> f64 (2/100)" "359/100 \<le> f64 (36/10)" "f64 (16383 * (1/4)) = 16383 / 4"
  unfolding RPM_SCALE_def THROTTLE_SCALE_def SPEED_SCALE_def by code_simp+

lemma drive_cycle_range:
  assumes "libm_ok m" "0 \<le> t"
  defines "d \<equiv> drive_cycle m t"
  shows "0 \<le> dr_throttle d \<and> dr_throttle d \<le> 80" "500 \<le> dr_rpm d \<and> dr_rpm d \<le> 3700"
    "0 \<le> dr_speed d \<and> dr_speed d \<le> 55" "77 \<le> dr_ect d \<and> dr_ect d \<le> 98"
proof -
  have sin: "-1 \<le> lm_sin m x" "lm_sin m x \<le> 1" for x using assms(1) by (auto simp: libm_ok_def)
  have scaled: "- of_int a \<le> f64 (of_int a * lm_sin m x) \<and> f64 (of_int a * lm_sin m x) \<le> of_int a" if "0 \<le> a" "a \<le> 400" for a x
    using f64_between [of "- a" "of_int a * lm_sin m x" a] that sin [of x]
      mult_left_mono [of "-1" "lm_sin m x" "of_int a"] mult_left_mono [of "lm_sin m x" 1 "of_int a"] by simp
  show thr: "0 \<le> dr_throttle d \<and> dr_throttle d \<le> 80"
    unfolding d_def drive_cycle_def Let_def
    using f64_between [of 0 "40 + f64 (40 * lm_sin m (f64 (t * f64 (15/100))))" 80] scaled [of 40 "f64 (t * f64 (15/100))"] by simp
  have "0 \<le> f64 (30 * dr_throttle d) \<and> f64 (30 * dr_throttle d) \<le> 2400" using f64_between [of 0 "30 * dr_throttle d" 2400] thr by simp
  then have "900 \<le> f64 (900 + f64 (30 * dr_throttle d)) \<and> f64 (900 + f64 (30 * dr_throttle d)) \<le> 3300"
    using f64_between [of 900 "900 + f64 (30 * dr_throttle d)" 3300] by simp
  moreover have "dr_rpm d = f64 (f64 (900 + f64 (30 * dr_throttle d)) + f64 (400 * lm_sin m (f64 (t * f64 (9/10)))))"
    by (simp add: d_def drive_cycle_def Let_def)
  ultimately show rpm: "500 \<le> dr_rpm d \<and> dr_rpm d \<le> 3700"
    using f64_between [of 500 "f64 (900 + f64 (30 * dr_throttle d)) + f64 (400 * lm_sin m (f64 (t * f64 (9/10))))" 3700]
      scaled [of 400 "f64 (t * f64 (9/10))"] by simp
  have "0 \<le> f64 (2/100) * dr_rpm d" "f64 (2/100) * dr_rpm d \<le> 201/10000 * 3700"
    using rpm scales(7) mult_mono [of "f64 (2/100)" "201/10000" "dr_rpm d" 3700, OF scales(6)] by simp_all
  then have "f64 (f64 (2/100) * dr_rpm d) \<le> 75" using f64_between [of 0 "f64 (2/100) * dr_rpm d" 75] by simp
  then have "f64 (f64 (f64 (2/100) * dr_rpm d) - 20) \<le> 55" using f64.rnd_le_int [of "f64 (f64 (2/100) * dr_rpm d) - 20" 55] by simp
  then show "0 \<le> dr_speed d \<and> dr_speed d \<le> 55" by (simp add: d_def drive_cycle_def Let_def)
  have "0 \<le> lm_exp m (f64 (- t / 40)) \<and> lm_exp m (f64 (- t / 40)) \<le> 1"
    using assms(1) f64.rnd_nonpos [of "- t / 40"] assms(2) by (simp add: libm_ok_def)
  then have e1: "0 \<le> f64 (1 - lm_exp m (f64 (- t / 40))) \<and> f64 (1 - lm_exp m (f64 (- t / 40))) \<le> 1"
    using f64_between [of 0 "1 - lm_exp m (f64 (- t / 40))" 1] by simp
  define x where "x = f64 (1 - lm_exp m (f64 (- t / 40)))"
  have "0 \<le> f64 (15 * x) \<and> f64 (15 * x) \<le> 15" using f64_between [of 0 "15 * x" 15] e1 by (simp add: x_def)
  then have "80 \<le> f64 (80 + f64 (15 * x)) \<and> f64 (80 + f64 (15 * x)) \<le> 95" using f64_between [of 80 "80 + f64 (15 * x)" 95] by simp
  then have "77 \<le> f64 (f64 (80 + f64 (15 * x)) + f64 (3 * lm_sin m (f64 (t * f64 (5/100)))))
     \<and> f64 (f64 (80 + f64 (15 * x)) + f64 (3 * lm_sin m (f64 (t * f64 (5/100))))) \<le> 98"
    using f64_between [of 77 "f64 (80 + f64 (15 * x)) + f64 (3 * lm_sin m (f64 (t * f64 (5/100))))" 98] scaled [of 3 "f64 (t * f64 (5/100))"] by simp
  then show "77 \<le> dr_ect d \<and> dr_ect d \<le> 98" by (simp add: d_def drive_cycle_def Let_def x_def)
qed

text \<open>What a drive keeps in range once the redline option and the clamp are applied.\<close>

lemma drive_at_range:
  fixes redline :: bool
  assumes "libm_ok m" "0 \<le> t"
  defines "d \<equiv> drive_at m redline t"
  shows "0 \<le> dr_throttle d \<and> dr_throttle d \<le> 80" "0 \<le> dr_rpm d \<and> dr_rpm d \<le> 16383 / 4" "0 \<le> dr_speed d \<and> dr_speed d \<le> 55"
    "if redline then 117 \<le> dr_ect d \<and> dr_ect d \<le> 138 else 77 \<le> dr_ect d \<and> dr_ect d \<le> 98" "dr_mil d \<longleftrightarrow> redline"
proof -
  note r = drive_cycle_range [OF assms(1,2)]
  have "117 \<le> f64 (dr_ect (drive_cycle m t) + 40) \<and> f64 (dr_ect (drive_cycle m t) + 40) \<le> 138"
    using f64_between [of 117 "dr_ect (drive_cycle m t) + 40" 138] r(4) by simp
  then show "if redline then 117 \<le> dr_ect d \<and> dr_ect d \<le> 138 else 77 \<le> dr_ect d \<and> dr_ect d \<le> 98"
    using r(4) by (simp add: d_def drive_at_def clamp_rpm_def force_redline_def Let_def)
  have "dr_throttle d = dr_throttle (drive_cycle m t)" "dr_speed d = dr_speed (drive_cycle m t)"
    by (simp_all add: d_def drive_at_def clamp_rpm_def force_redline_def Let_def)
  with r show "0 \<le> dr_throttle d \<and> dr_throttle d \<le> 80" "0 \<le> dr_speed d \<and> dr_speed d \<le> 55" by auto
  show "0 \<le> dr_rpm d \<and> dr_rpm d \<le> 16383 / 4" "dr_mil d \<longleftrightarrow> redline"
    using scales(9) by (auto simp: d_def drive_at_def clamp_rpm_def force_redline_def drive_cycle_def Let_def scales(1))
qed

subsection \<open>Quantisation\<close>

lemma f64_abs_error: "\<bar>x\<bar> \<le> 2 ^ 20 \<Longrightarrow> \<bar>f64 x - x\<bar> \<le> 1 / 2 ^ 32"
proof (cases "x = 0")
  case False
  assume le: "\<bar>x\<bar> \<le> 2 ^ 20"
  have "binade \<bar>x\<bar> \<le> binade (2 ^ 20)" using False le by (intro binade_mono) auto
  also have "binade (2 ^ 20) = 20" by (rule binade_eqI) (simp_all add: power_int_def)
  finally have "fulp 53 (-1022) x \<le> 2 powi (-32)" unfolding fulp_def fexp_def by (intro powi2_mono) simp
  also have "2 powi (-32) = (1 / 2 ^ 32 :: rat)" by (simp add: power_int_def power_one_over)
  finally have "fulp 53 (-1022) x / 2 \<le> 1 / 2 ^ 32" using fulp_pos [of 53 "-1022" x] by linarith
  then show ?thesis using fround_error [of 53 "-1022" x] by (simp add: f64_def)
qed simp

lemma f64_near: "\<bar>x\<bar> \<le> 2 ^ 20 \<Longrightarrow> x - 1/1000 \<le> f64 x \<and> f64 x \<le> x + 1/1000"
proof -
  assume "\<bar>x\<bar> \<le> 2 ^ 20"
  moreover have "(1::rat) / 2 ^ 32 \<le> 1/1000" by simp
  ultimately have "\<bar>f64 x - x\<bar> \<le> 1/1000" using f64_abs_error order_trans by blast
  then show ?thesis unfolding abs_diff_le_iff by blast
qed

lemma cround_error: "0 \<le> x \<Longrightarrow> \<bar>of_int (cround x) - x\<bar> \<le> 1/2"
  using floor_correct [of "x + 1/2"] unfolding cround_def by (simp only: if_True abs_le_iff) linarith

lemma scaled_roundtrip:
  assumes "0 \<le> x" "0 < s" "s \<le> 1" "x / s \<le> 2 ^ 16"
  defines "k \<equiv> cround (f64 (x / s))"
  shows "0 \<le> k \<and> k \<le> 2 ^ 16 \<and> \<bar>f64 (of_int k * s) - x\<bar> \<le> s / 2 + 1 / 2 ^ 30"
proof -
  have q: "0 \<le> f64 (x / s)" "f64 (x / s) \<le> 2 ^ 16" using f64_between [of 0 "x / s" "2 ^ 16"] assms by auto
  then have k: "0 \<le> k" "k \<le> 2 ^ 16" unfolding k_def using cround_ge [of 0] cround_le [of "f64 (x / s)" "2 ^ 16"] by auto
  have "\<bar>x / s\<bar> \<le> 2 ^ 20" using assms by simp
  then have "\<bar>of_int k - x / s\<bar> \<le> 1/2 + 1 / 2 ^ 32"
    using cround_error [OF q(1)] f64_abs_error [of "x / s"] unfolding k_def by linarith
  then have "\<bar>of_int k - x / s\<bar> * s \<le> (1/2 + 1 / 2 ^ 32) * s" using assms(2) by (intro mult_right_mono) auto
  also have "\<bar>of_int k - x / s\<bar> * s = \<bar>(of_int k - x / s) * s\<bar>" using assms(2) by (simp add: abs_mult)
  also have "(of_int k - x / s) * s = of_int k * s - x" using assms(2) by (simp add: left_diff_distrib)
  finally have "\<bar>of_int k * s - x\<bar> \<le> s / 2 + s / 2 ^ 32" by (simp add: distrib_right)
  moreover have "s / 2 ^ 32 \<le> 1 / 2 ^ 32" using assms(3) by (simp add: divide_right_mono)
  moreover have "\<bar>of_int k * s\<bar> \<le> 2 ^ 20"
    using mult_mono [of "of_int k" "2 ^ 16" s 1] k assms(2,3) by (simp add: abs_mult)
  then have "\<bar>f64 (of_int k * s) - of_int k * s\<bar> \<le> 1 / 2 ^ 32" by (rule f64_abs_error)
  moreover have "(1::rat) / 2 ^ 30 = 4 * (1 / 2 ^ 32)" by simp
  ultimately show ?thesis using k zero_less_power [of "2::rat" 32] by linarith
qed

subsection \<open>Frames\<close>

lemma engine_frame_decodes:
  assumes "0 \<le> dr_throttle d \<and> dr_throttle d \<le> 80" "0 \<le> dr_rpm d \<and> dr_rpm d \<le> 16383 / 4" "0 \<le> dr_ect d \<and> dr_ect d \<le> 200"
  obtains e where "engine_frame d = Some e" "cf_id e = CANID_ENGINE_DATA" "cf_dlc e = 8" "\<bar>rx_rpm e - dr_rpm d\<bar> \<le> 26/100"
    "\<bar>of_int (rx_ect e) - dr_ect d\<bar> \<le> 1/2" "\<bar>rx_throttle e - dr_throttle d\<bar> \<le> 21/100" "rx_mil e \<longleftrightarrow> dr_mil d"
proof -
  define k where "k = ftrunc (f64 (dr_rpm d / RPM_SCALE))"
  have x: "0 \<le> f64 (dr_rpm d / RPM_SCALE)" "f64 (dr_rpm d / RPM_SCALE) \<le> 16383"
    using f64_between [of 0 "dr_rpm d / RPM_SCALE" 16383] assms(2) by (auto simp: scales(1))
  then have k: "0 \<le> k" "k \<le> 16383" unfolding k_def using ftrunc_nonneg [OF x(1)] ftrunc_mono [OF x(2)] ftrunc_of_int [of 16383] by auto
  define raw :: u16 where "raw = word_of_int k"
  have raw: "to_u16 (f64 (dr_rpm d / RPM_SCALE)) = Some raw" "of_nat (unat raw) = (of_int k :: rat)"
    using k by (auto simp: to_u16_def raw_def k_def [symmetric] unat_word_of_int_small)
  have q: "dr_rpm d / RPM_SCALE = 4 * dr_rpm d" by (simp add: scales(1))
  have n1: "\<bar>dr_rpm d / RPM_SCALE\<bar> \<le> 2 ^ 20" using assms(2) by (simp add: scales(1))
  have n2: "\<bar>of_int k / 4\<bar> \<le> (2 ^ 20 :: rat)" using k by simp
  have "of_int k \<le> f64 (dr_rpm d / RPM_SCALE)" "f64 (dr_rpm d / RPM_SCALE) < of_int k + 1"
    using x(1) floor_correct [of "f64 (dr_rpm d / RPM_SCALE)"] by (auto simp: k_def ftrunc_def)
  then have rpm: "\<bar>f64 (of_int k / 4) - dr_rpm d\<bar> \<le> 26/100"
    using f64_near [OF n1] f64_near [OF n2] unfolding q abs_diff_le_iff by (intro conjI; linarith)
  define c where "c = cround (f64 (dr_throttle d / THROTTLE_SCALE))"
  have "dr_throttle d / THROTTLE_SCALE \<le> 80 / (2/5)" using assms(1) scales(2) by (intro frac_le) auto
  then have c: "0 \<le> c" "\<bar>f64 (of_int c * THROTTLE_SCALE) - dr_throttle d\<bar> \<le> 21/100" "c \<le> 200"
    using scaled_roundtrip [of "dr_throttle d" THROTTLE_SCALE] assms(1) scales(2,3)
      cround_le [of "f64 (dr_throttle d / THROTTLE_SCALE)" 200] f64.rnd_le_int [of "dr_throttle d / THROTTLE_SCALE" 200]
    unfolding c_def by auto
  define g where "g = cround (dr_ect d)"
  have g: "\<bar>of_int g - dr_ect d\<bar> \<le> 1/2" "0 \<le> g" "g \<le> 200"
    using cround_error [of "dr_ect d"] cround_ge [of 0 "dr_ect d"] cround_le [of "dr_ect d" 200] assms(3) by (auto simp: g_def)
  have "unat (word_of_int (g + 40) :: byte) = nat (g + 40)" by (rule unat_word_of_int_small) (use g in auto)
  then have g40: "uint (word_of_int g + 40 :: byte) = g + 40" using g by (simp add: uint_nat)
  let ?e = "\<lparr>cf_id = CANID_ENGINE_DATA, cf_dlc = 8, cf_data = (be16_put 0 raw (replicate 8 0))
            [2 := word_of_int (g - ECT_OFFSET), 3 := word_of_int c, 4 := if dr_mil d then 1 else 0]\<rparr>"
  have b: "be16_get (cf_data ?e) 0 = raw"
    using be16_roundtrip [of 0 "replicate 8 0" raw] by (simp add: be16_get_def be16_put_def)
  have len: "length (be16_put 0 raw (replicate 8 0)) = 8" by (simp add: be16_put_def)
  show thesis
  proof (rule that [of ?e])
    show "engine_frame d = Some ?e" by (simp add: engine_frame_def raw c_def g_def)
    show "\<bar>rx_rpm ?e - dr_rpm d\<bar> \<le> 26/100" unfolding rx_rpm_def b raw(2) using rpm by (simp add: scales(1))
    show "\<bar>of_int (rx_ect ?e) - dr_ect d\<bar> \<le> 1/2"
      using g(1) g40 len by (simp add: rx_ect_def ECT_OFFSET_def)
    show "\<bar>rx_throttle ?e - dr_throttle d\<bar> \<le> 21/100"
      using c len by (simp add: rx_throttle_def unat_word_of_int_small)
    show "rx_mil ?e \<longleftrightarrow> dr_mil d" using len by (simp add: rx_mil_def)
  qed simp_all
qed

lemma vehicle_frame_decodes:
  assumes "0 \<le> dr_speed d \<and> dr_speed d \<le> 55"
  shows "\<bar>rx_speed (vehicle_frame d odo) - dr_speed d\<bar> \<le> 1/100" "unat (rx_odo (vehicle_frame d odo)) = unat odo mod 2 ^ 24"
proof -
  define k where "k = cround (f64 (dr_speed d / SPEED_SCALE))"
  have "dr_speed d / SPEED_SCALE \<le> 55 / (99/10000)" using assms scales(4) by (intro frac_le) auto
  also have "\<dots> \<le> 6000" by simp
  finally have k: "0 \<le> k" "\<bar>f64 (of_int k * SPEED_SCALE) - dr_speed d\<bar> \<le> 1/100" "k \<le> 60000"
    using scaled_roundtrip [of "dr_speed d" SPEED_SCALE] assms scales(4,5)
      cround_le [of "f64 (dr_speed d / SPEED_SCALE)" 60000] f64.rnd_le_int [of "dr_speed d / SPEED_SCALE" 60000]
    unfolding k_def by auto
  have b: "be16_get (cf_data (vehicle_frame d odo)) 0 = word_of_int k"
    using be16_roundtrip [of 0 "replicate 8 0" "word_of_int k"] by (simp add: be16_get_def be16_put_def be24_put_def vehicle_frame_def k_def)
  show "\<bar>rx_speed (vehicle_frame d odo) - dr_speed d\<bar> \<le> 1/100"
    unfolding rx_speed_def b using k by (simp add: unat_word_of_int_small)
  have "rx_odo (vehicle_frame d odo) = take_bit 24 odo"
    using be24_roundtrip [of 2 "be16_put 0 (word_of_int k) (replicate 8 0)" odo] by (simp add: rx_odo_def vehicle_frame_def be16_put_def k_def)
  then show "unat (rx_odo (vehicle_frame d odo)) = unat odo mod 2 ^ 24" by (simp only: unsigned_take_bit_eq) (simp add: take_bit_eq_mod)
qed

subsection \<open>The loops\<close>

lemma odo_step_range:
  assumes "0 \<le> speed" "speed \<le> 55"
  shows "1 \<le> hz \<Longrightarrow> \<exists>dm. odo_step hz speed = Some dm" "16 \<le> hz \<Longrightarrow> odo_step hz speed = Some 0"
proof -
  define v where "v = f64 (speed / f64 (36/10))"
  have "speed / f64 (36/10) \<le> 55 / (359/100)" using assms scales(8) by (intro frac_le) auto
  also have "\<dots> \<le> 31/2" by simp
  also have "f64 (31/2) = 31/2" by code_simp
  ultimately have v: "0 \<le> v" "v \<le> 31/2"
    using f64.rnd_le_fix [of "speed / f64 (36/10)" "31/2"] f64.rnd_nonneg [of "speed / f64 (36/10)"] assms scales(8) by (auto simp: v_def)
  have step: "odo_step hz speed = to_u32 (f64 (v / hz))" if "1 \<le> hz" using that by (simp add: odo_step_def eff_hz_def v_def)
  have le: "v / hz \<le> 31/2 / b" if "b \<le> hz" "0 < b" for b using v that by (intro frac_le) auto
  show "\<exists>dm. odo_step hz speed = Some dm" if "1 \<le> hz"
  proof -
    have "0 \<le> f64 (v / hz)" "f64 (v / hz) \<le> of_int 16"
      using v that order_trans [OF le [of 1], of "of_int 16"] f64.rnd_nonneg [of "v / hz"] f64.rnd_le_int [of "v / hz" 16] by simp_all
    then have "0 \<le> ftrunc (f64 (v / hz))" "ftrunc (f64 (v / hz)) \<le> 16" using ftrunc_nonneg ftrunc_mono ftrunc_of_int by metis+
    then show ?thesis using step [OF that] by (simp add: to_u32_def)
  qed
  show "odo_step hz speed = Some 0" if "16 \<le> hz"
  proof -
    have "f64 (31/32) = 31/32" by code_simp
    then have "0 \<le> f64 (v / hz)" "f64 (v / hz) < 1"
      using v that le [of 16] f64.rnd_nonneg [of "v / hz"] f64.rnd_le_fix [of "v / hz" "31/32"] by auto
    then have "ftrunc (f64 (v / hz)) = 0" by (simp add: ftrunc_def floor_eq_iff)
    then show ?thesis using step that by (simp add: to_u32_def)
  qed
qed

text \<open>One healthy iteration and what the receiver makes of its two frames.\<close>

lemma tx_iter_received:
  assumes "libm_ok m" "0 \<le> tx_t s" "1 \<le> hz"
  obtains e v s' where "tx_iter m hz redline period_ns (16, 16) s = Some (True, s')" "tx_sent s' = tx_sent s @ [e, v]" "0 \<le> tx_t s'"
    "filter_passes rx_filter e" "filter_passes rx_filter v"
    "\<And>r. rx_count (rx_frame v (rx_frame e r)) = rx_count r + 2"
    "\<And>r. rx_alerts (rx_frame v (rx_frame e r)) = rx_alerts r + (if redline then 1 else 0)"
proof -
  define d where "d = drive_at m redline (tx_t s)"
  note range = drive_at_range [OF assms(1,2), of redline, folded d_def]
  obtain dm where dm: "odo_step hz (dr_speed d) = Some dm" using odo_step_range(1) range(3) assms(3) by blast
  obtain e where e: "engine_frame d = Some e" "cf_id e = CANID_ENGINE_DATA" "cf_dlc e = 8" "\<bar>rx_rpm e - dr_rpm d\<bar> \<le> 26/100"
    "\<bar>of_int (rx_ect e) - dr_ect d\<bar> \<le> 1/2"
    using range by (elim engine_frame_decodes) (auto split: if_splits)
  define v where "v = vehicle_frame d (tx_odo s + dm)"
  have v: "cf_id v = CANID_VEHICLE_DATA" "cf_dlc v = 8" by (simp_all add: v_def vehicle_frame_def)
  have speed: "rx_speed v < 180"
    using vehicle_frame_decodes(1) [OF range(3), of "tx_odo s + dm"] range(3) unfolding v_def [symmetric] abs_diff_le_iff by linarith
  obtain sec nsec where c: "carry_ns (tx_sec s) (tx_nsec s + period_ns) = (sec, nsec)" by fastforce
  let ?s = "s\<lparr>tx_odo := tx_odo s + dm, tx_sent := tx_sent s @ [e, v], tx_t := f64 (tx_t s + f64 (1 / eff_hz hz)), tx_sec := sec, tx_nsec := nsec\<rparr>"
  have ect: "110 < (of_int (rx_ect e) :: rat) \<longleftrightarrow> redline" using e(5) range(4) unfolding abs_diff_le_iff by (cases redline) auto
  have rpm: "rx_rpm e < 6500" using e(4) range(2) unfolding abs_diff_le_iff by linarith
  show thesis
  proof (rule that [of ?s e v])
    show "tx_iter m hz redline period_ns (16, 16) s = Some (True, ?s)"
      by (simp add: tx_iter_def Let_def d_def [symmetric] dm e v_def c)
    show "0 \<le> tx_t ?s"
      using assms(2,3) by (auto simp: eff_hz_def intro!: f64.rnd_nonneg add_nonneg_nonneg)
    show "filter_passes rx_filter e" "filter_passes rx_filter v" by (auto simp: filter_passes_def rx_filter_def e v)
    show "rx_count (rx_frame v (rx_frame e r)) = rx_count r + 2" for r
      by (simp add: rx_frame_def Let_def)
    show "rx_alerts (rx_frame v (rx_frame e r)) = rx_alerts r + (if redline then 1 else 0)" for r
      using ect rpm speed e v
      by (simp add: rx_frame_def Let_def CANID_ENGINE_DATA_def CANID_VEHICLE_DATA_def ALERT_RPM_REDLINE_def ALERT_ECT_MAX_C_def ALERT_SPEED_MAX_KMH_def)
  qed simp
qed

lemma tx_loop_received:
  assumes "libm_ok m" "0 \<le> tx_t s" "1 \<le> hz" "\<forall>w \<in> set ws. w = (16, 16)"
  shows "\<exists>fs t. tx_loop m hz redline period_ns ws s = Some t \<and> tx_sent t = tx_sent s @ fs \<and> (\<forall>f \<in> set fs. filter_passes rx_filter f)
     \<and> (\<forall>r. rx_count (rx_loop (map ReadFrame fs) r) = rx_count r + of_nat (2 * length ws)
          \<and> rx_alerts (rx_loop (map ReadFrame fs) r) = rx_alerts r + of_nat (if redline then length ws else 0))"
  using assms
proof (induction ws arbitrary: s)
  case (Cons w ws)
  obtain e v s' where s': "tx_iter m hz redline period_ns (16, 16) s = Some (True, s')" "tx_sent s' = tx_sent s @ [e, v]" "0 \<le> tx_t s'"
    "filter_passes rx_filter e" "filter_passes rx_filter v"
    "\<And>r. rx_count (rx_frame v (rx_frame e r)) = rx_count r + 2"
    "\<And>r. rx_alerts (rx_frame v (rx_frame e r)) = rx_alerts r + (if redline then 1 else 0)"
    by (rule tx_iter_received [OF Cons.prems(1,2,3), of redline period_ns]) blast
  obtain fs t where t: "tx_loop m hz redline period_ns ws s' = Some t" "tx_sent t = tx_sent s' @ fs" "\<forall>f \<in> set fs. filter_passes rx_filter f"
    "\<And>r. rx_count (rx_loop (map ReadFrame fs) r) = rx_count r + of_nat (2 * length ws)"
    "\<And>r. rx_alerts (rx_loop (map ReadFrame fs) r) = rx_alerts r + of_nat (if redline then length ws else 0)"
    using Cons.IH [of s'] Cons.prems s'(3) by auto
  have w: "w = (16, 16)" using Cons.prems(4) by simp
  show ?case
  proof (intro exI conjI allI)
    show "tx_loop m hz redline period_ns (w # ws) s = Some t" using s'(1) t(1) w by simp
    show "tx_sent t = tx_sent s @ (e # v # fs)" using s'(2) t(2) by simp
    show "\<forall>f \<in> set (e # v # fs). filter_passes rx_filter f" using s'(4,5) t(3) by simp
    show "rx_count (rx_loop (map ReadFrame (e # v # fs)) r) = rx_count r + of_nat (2 * length (w # ws))" for r
      by (simp add: s'(6) t(4))
    show "rx_alerts (rx_loop (map ReadFrame (e # v # fs)) r) = rx_alerts r + of_nat (if redline then length (w # ws) else 0)" for r
      by (simp add: s'(7) t(5))
  qed
qed simp

subsection \<open>Properties\<close>

text \<open>C24: The receiver reads back what the simulator sends. At every moment of the drive cycle, with or
  without \<open>--redline\<close>, the engine frame exists and decodes to the engine speed, coolant temperature and
  throttle up to their quantisation step and to the lamp bit; the vehicle frame decodes to the speed up to one step and to
  the odometer modulo \<open>2 ^ 24\<close>. No field wraps.\<close>

theorem bridge_roundtrip:
  assumes "libm_ok m" "0 \<le> t"
  shows "\<exists>e. engine_frame (drive_at m redline t) = Some e \<and> \<bar>rx_rpm e - dr_rpm (drive_at m redline t)\<bar> \<le> 26/100
     \<and> \<bar>of_int (rx_ect e) - dr_ect (drive_at m redline t)\<bar> \<le> 1/2 \<and> \<bar>rx_throttle e - dr_throttle (drive_at m redline t)\<bar> \<le> 21/100
     \<and> (rx_mil e \<longleftrightarrow> redline) \<and> \<bar>rx_speed (vehicle_frame (drive_at m redline t) odo) - dr_speed (drive_at m redline t)\<bar> \<le> 1/100
     \<and> unat (rx_odo (vehicle_frame (drive_at m redline t) odo)) = unat odo mod 2 ^ 24"
proof -
  note range = drive_at_range [OF assms, of redline]
  have "0 \<le> dr_ect (drive_at m redline t) \<and> dr_ect (drive_at m redline t) \<le> 200" using range(4) by (auto split: if_splits)
  then obtain e where "engine_frame (drive_at m redline t) = Some e" "\<bar>rx_rpm e - dr_rpm (drive_at m redline t)\<bar> \<le> 26/100"
    "\<bar>of_int (rx_ect e) - dr_ect (drive_at m redline t)\<bar> \<le> 1/2" "\<bar>rx_throttle e - dr_throttle (drive_at m redline t)\<bar> \<le> 21/100"
    "rx_mil e \<longleftrightarrow> dr_mil (drive_at m redline t)"
    by (rule engine_frame_decodes [OF range(1,2)]) blast
  then show ?thesis using vehicle_frame_decodes [OF range(3)] range(5) by blast
qed

theorem bridge_roundtrip_witness:
  "\<exists>e. engine_frame (drive_at \<lparr>lm_sin = \<lambda>_. 1, lm_exp = \<lambda>_. 1/2\<rparr> True 3) = Some e \<and> rx_mil e"
  using bridge_roundtrip [of "\<lparr>lm_sin = \<lambda>_. 1, lm_exp = \<lambda>_. 1/2\<rparr>" 3 True] by (auto simp: libm_ok_def)



end
