(* ===== verification/Bmp280.thy ===== *)
theory Bmp280
  imports Prelude
begin

text \<open>
  The BMP280 kernel driver \<open>src/i2c-sensor-kernel-driver/bmp280_simple.c\<close>.

  \<open>u8\<close>, \<open>u16\<close>, \<open>s16\<close>, \<open>u32\<close> and \<open>s32\<close> are words of their width; a signed one is read by \<open>sint\<close>, its
  right shift is \<open>signed_drop_bit\<close> and its arithmetic wraps, as the kernel is built with
  \<open>-fno-strict-overflow\<close>. The I2C adapter with the chip behind it is a parameter: a record of what each
  transfer returns and does to the adapter's state. A block read returns a negative error
  (\<open>Inl\<close>) or the bytes received (\<open>Inr\<close>), whose number is the call's return value. \<open>bd_lock\<close> is whether the mutex of
  the device data is held.
\<close>

subsection \<open>Data\<close>

type_synonym s16 = "16 word"
type_synonym s32 = "32 word"

record bmp280_calib =
  dig_t1 :: u16
  dig_t2 :: s16
  dig_t3 :: s16
  dig_p1 :: u16
  dig_p2 :: s16
  dig_p3 :: s16
  dig_p4 :: s16
  dig_p5 :: s16
  dig_p6 :: s16
  dig_p7 :: s16
  dig_p8 :: s16
  dig_p9 :: s16

record bmp280_data =
  bd_lock :: bool
  bd_calib :: bmp280_calib

record 's i2c_bus =
  bus_block_read :: bool
  bus_read_byte :: "byte \<Rightarrow> 's \<Rightarrow> int \<times> 's"
  bus_write_byte :: "byte \<Rightarrow> byte \<Rightarrow> 's \<Rightarrow> int \<times> 's"
  bus_read_block :: "byte \<Rightarrow> nat \<Rightarrow> 's \<Rightarrow> (int + byte list) \<times> 's"

definition BMP280_REG_ID :: byte where "BMP280_REG_ID = 0xD0"
definition BMP280_REG_RESET :: byte where "BMP280_REG_RESET = 0xE0"
definition BMP280_REG_CTRL_MEAS :: byte where "BMP280_REG_CTRL_MEAS = 0xF4"
definition BMP280_REG_CONFIG :: byte where "BMP280_REG_CONFIG = 0xF5"
definition BMP280_REG_PRESS_MSB :: byte where "BMP280_REG_PRESS_MSB = 0xF7"
definition BMP280_REG_CALIB_START :: byte where "BMP280_REG_CALIB_START = 0x88"
definition BMP280_CHIP_ID :: int where "BMP280_CHIP_ID = 0x58"
definition BMP280_RESET_MAGIC :: byte where "BMP280_RESET_MAGIC = 0xB6"
definition BMP280_CTRL_MEAS_VAL :: byte where "BMP280_CTRL_MEAS_VAL = 0x27"
definition BMP280_CONFIG_VAL :: byte where "BMP280_CONFIG_VAL = 0x68"

definition ENOMEM :: int where "ENOMEM = 12"
definition EIO :: int where "EIO = 5"
definition ENODEV :: int where "ENODEV = 19"
definition EOPNOTSUPP :: int where "EOPNOTSUPP = 95"

subsection \<open>Reading\<close>

definition le16 :: "byte list \<Rightarrow> nat \<Rightarrow> u16" where
  "le16 b i = or (ucast (b ! i)) (push_bit 8 (ucast (b ! (i + 1))))"

definition calib_of :: "byte list \<Rightarrow> bmp280_calib" where
  "calib_of buf = \<lparr>dig_t1 = le16 buf 0, dig_t2 = le16 buf 2, dig_t3 = le16 buf 4, dig_p1 = le16 buf 6, dig_p2 = le16 buf 8,
     dig_p3 = le16 buf 10, dig_p4 = le16 buf 12, dig_p5 = le16 buf 14, dig_p6 = le16 buf 16, dig_p7 = le16 buf 18,
     dig_p8 = le16 buf 20, dig_p9 = le16 buf 22\<rparr>"

definition bmp280_read_calib :: "'s i2c_bus \<Rightarrow> bmp280_data \<Rightarrow> 's \<Rightarrow> int \<times> bmp280_data \<times> 's" where
  "bmp280_read_calib bus d s =
     (case bus_read_block bus BMP280_REG_CALIB_START 24 s of
        (Inl ret, s1) \<Rightarrow> (ret, d, s1)
      | (Inr buf, s1) \<Rightarrow> if length buf \<noteq> 24 then (- EIO, d, s1) else (0, d\<lparr>bd_calib := calib_of buf\<rparr>, s1))"

definition adc_of :: "byte \<Rightarrow> byte \<Rightarrow> byte \<Rightarrow> s32" where
  "adc_of msb lsb xlsb = or (or (push_bit 12 (ucast msb)) (push_bit 4 (ucast lsb))) (ucast (drop_bit 4 xlsb))"

text \<open>Error, or the pair \<open>(adc_t, adc_p)\<close>.\<close>

definition bmp280_read_raw :: "'s i2c_bus \<Rightarrow> 's \<Rightarrow> (int + s32 \<times> s32) \<times> 's" where
  "bmp280_read_raw bus s =
     (case bus_read_block bus BMP280_REG_PRESS_MSB 6 s of
        (Inl ret, s1) \<Rightarrow> (Inl ret, s1)
      | (Inr buf, s1) \<Rightarrow> if length buf \<noteq> 6 then (Inl (- EIO), s1)
          else (Inr (adc_of (buf ! 3) (buf ! 4) (buf ! 5), adc_of (buf ! 0) (buf ! 1) (buf ! 2)), s1))"

subsection \<open>Compensation\<close>

text \<open>Temperature in 0.01 degC, and \<open>t_fine\<close>.\<close>

definition bmp280_compensate_temp :: "bmp280_calib \<Rightarrow> s32 \<Rightarrow> s32 \<times> s32" where
  "bmp280_compensate_temp c adc_t =
     (let t1 = ucast (dig_t1 c) :: s32;
          var1 = signed_drop_bit 11 ((signed_drop_bit 3 adc_t - push_bit 1 t1) * scast (dig_t2 c));
          var2 = signed_drop_bit 14 (signed_drop_bit 12 ((signed_drop_bit 4 adc_t - t1) * (signed_drop_bit 4 adc_t - t1)) * scast (dig_t3 c));
          t_fine = var1 + var2
      in (signed_drop_bit 8 (t_fine * 5 + 128), t_fine))"

definition bmp280_compensate_press :: "bmp280_calib \<Rightarrow> s32 \<Rightarrow> s32 \<Rightarrow> u32" where
  "bmp280_compensate_press c adc_p t_fine =
     (let var1 = signed_drop_bit 1 t_fine - 64000;
          var2 = signed_drop_bit 11 (signed_drop_bit 2 var1 * signed_drop_bit 2 var1) * scast (dig_p6 c);
          var2 = var2 + push_bit 1 (var1 * scast (dig_p5 c));
          var2 = signed_drop_bit 2 var2 + push_bit 16 (scast (dig_p4 c));
          var1 = signed_drop_bit 18 (signed_drop_bit 3 (scast (dig_p3 c) * signed_drop_bit 13 (signed_drop_bit 2 var1 * signed_drop_bit 2 var1))
                   + signed_drop_bit 1 (scast (dig_p2 c) * var1));
          var1 = signed_drop_bit 15 ((32768 + var1) * ucast (dig_p1 c))
      in if var1 = 0 then 0
         else let p = ((1048576 - adc_p) - signed_drop_bit 12 var2) * 3125;
                  p = (if p < 0x80000000 then push_bit 1 p div var1 else (p div var1) * 2);
                  var1 = signed_drop_bit 12 (scast (dig_p9 c) * drop_bit 13 (drop_bit 3 p * drop_bit 3 p));
                  var2 = signed_drop_bit 13 (drop_bit 2 p * scast (dig_p8 c))
              in p + signed_drop_bit 4 (var1 + var2 + scast (dig_p7 c)))"

subsection \<open>Operations of the driver\<close>

text \<open>Error, or temperature and pressure. The lock is taken and given back on every path.\<close>

definition bmp280_measure :: "'s i2c_bus \<Rightarrow> bmp280_data \<Rightarrow> 's \<Rightarrow> (int + s32 \<times> u32) \<times> bmp280_data \<times> 's" where
  "bmp280_measure bus d s =
     (let d1 = d\<lparr>bd_lock := True\<rparr> in
      case bmp280_read_raw bus s of
        (Inl ret, s1) \<Rightarrow> (Inl ret, d1\<lparr>bd_lock := False\<rparr>, s1)
      | (Inr (adc_t, adc_p), s1) \<Rightarrow>
          let (temp, t_fine) = bmp280_compensate_temp (bd_calib d1) adc_t;
              press = bmp280_compensate_press (bd_calib d1) adc_p t_fine
          in (Inr (temp, press), d1\<lparr>bd_lock := False\<rparr>, s1))"

definition temperature_show :: "'s i2c_bus \<Rightarrow> bmp280_data \<Rightarrow> 's \<Rightarrow> (int + string) \<times> bmp280_data \<times> 's" where
  "temperature_show bus d s =
     (case bmp280_measure bus d s of
        (Inl ret, r) \<Rightarrow> (Inl ret, r)
      | (Inr (t_c100, p_pa), r) \<Rightarrow> (Inr (int_to_string (sint (t_c100 * 10)) @ [CHR 0x0A]), r))"

definition pressure_show :: "'s i2c_bus \<Rightarrow> bmp280_data \<Rightarrow> 's \<Rightarrow> (int + string) \<times> bmp280_data \<times> 's" where
  "pressure_show bus d s =
     (case bmp280_measure bus d s of
        (Inl ret, r) \<Rightarrow> (Inl ret, r)
      | (Inr (t_c100, p_pa), r) \<Rightarrow> (Inr (nat_to_string (unat p_pa) @ [CHR 0x0A]), r))"

definition zero_data :: bmp280_data where
  "zero_data = \<lparr>bd_lock = False, bd_calib = calib_of (replicate 24 0)\<rparr>"

text \<open>\<open>probe\<close>: the return code and the device data it leaves installed, if it got that far; \<open>alloc\<close> is whether
  \<open>devm_kzalloc\<close> succeeds. On an error the driver core releases the data.\<close>

definition bmp280_probe :: "'s i2c_bus \<Rightarrow> bool \<Rightarrow> 's \<Rightarrow> int \<times> bmp280_data option \<times> 's" where
  "bmp280_probe bus alloc s =
     (if \<not> bus_block_read bus then (- EOPNOTSUPP, None, s)
      else case bus_read_byte bus BMP280_REG_ID s of (chip, s1) \<Rightarrow>
        if chip < 0 then (chip, None, s1)
        else if chip \<noteq> BMP280_CHIP_ID then (- ENODEV, None, s1)
        else if \<not> alloc then (- ENOMEM, None, s1)
        else case bus_write_byte bus BMP280_REG_RESET BMP280_RESET_MAGIC s1 of (ret, s2) \<Rightarrow>
          if ret \<noteq> 0 then (ret, None, s2)
          else case bmp280_read_calib bus zero_data s2 of (ret, d, s3) \<Rightarrow>
            if ret \<noteq> 0 then (ret, None, s3)
            else case bus_write_byte bus BMP280_REG_CONFIG BMP280_CONFIG_VAL s3 of (ret, s4) \<Rightarrow>
              if ret \<noteq> 0 then (ret, None, s4)
              else case bus_write_byte bus BMP280_REG_CTRL_MEAS BMP280_CTRL_MEAS_VAL s4 of (ret, s5) \<Rightarrow>
                if ret \<noteq> 0 then (ret, None, s5) else (0, Some d, s5))"

definition bmp280_remove :: "'s i2c_bus \<Rightarrow> 's \<Rightarrow> 's" where
  "bmp280_remove bus s = snd (bus_write_byte bus BMP280_REG_CTRL_MEAS (and BMP280_CTRL_MEAS_VAL (not 0x03)) s)"

subsection \<open>Signed arithmetic within range\<close>

lemma s32_exact:
  fixes a b :: s32
  shows "- (2 ^ 31) \<le> sint a + sint b \<Longrightarrow> sint a + sint b < 2 ^ 31 \<Longrightarrow> sint (a + b) = sint a + sint b"
    "- (2 ^ 31) \<le> sint a - sint b \<Longrightarrow> sint a - sint b < 2 ^ 31 \<Longrightarrow> sint (a - b) = sint a - sint b"
    "- (2 ^ 31) \<le> sint a * sint b \<Longrightarrow> sint a * sint b < 2 ^ 31 \<Longrightarrow> sint (a * b) = sint a * sint b"
  unfolding sint_word_add sint_word_ariths by (simp_all add: signed_take_bit_int_eq_self)

lemma s32_shr: "sint (signed_drop_bit n w) = sint w div 2 ^ n"
  by (simp add: sint_signed_drop_bit_eq drop_bit_eq_div)

lemma u16_range: "0 \<le> uint (w :: u16) \<and> uint w < 2 ^ 16"
  using uint_ge_0 [of w] uint_lt2p [of w] by simp

lemma s32_of_u16: "sint (ucast (w :: u16) :: s32) = uint w"
proof -
  define k where "k = uint w"
  have "0 \<le> k" "k < 2 ^ 16" using u16_range [of w] by (auto simp: k_def)
  then have "signed_take_bit 31 k = k" "take_bit 32 k = k" by (auto intro!: signed_take_bit_int_eq_self take_bit_int_eq_self)
  then show ?thesis by (simp add: signed_ucast_eq k_def)
qed

lemma s32_of_s16: "sint (scast (w :: s16) :: s32) = sint w"
  by (rule sint_up_scast) (simp add: is_up)

lemma s16_range: "- (2 ^ 15) \<le> sint (w :: s16) \<and> sint w < 2 ^ 15"
  using sint_ge [of w] sint_lt [of w] by simp

subsection \<open>The specification of the compensation\<close>

text \<open>The datasheet's formula over the integers, and that none of its intermediate values needs more than
  32 bits.\<close>

definition fine_temp :: "bmp280_calib \<Rightarrow> int \<Rightarrow> int" where
  "fine_temp c adc = ((adc div 8 - 2 * uint (dig_t1 c)) * sint (dig_t2 c)) div 2 ^ 11
     + (((adc div 16 - uint (dig_t1 c)) ^ 2 div 2 ^ 12) * sint (dig_t3 c)) div 2 ^ 14"

definition centi_temp :: "bmp280_calib \<Rightarrow> int \<Rightarrow> int" where
  "centi_temp c adc = (fine_temp c adc * 5 + 128) div 256"

definition temp_fits :: "bmp280_calib \<Rightarrow> int \<Rightarrow> bool" where
  "temp_fits c adc \<longleftrightarrow> \<bar>(adc div 8 - 2 * uint (dig_t1 c)) * sint (dig_t2 c)\<bar> < 2 ^ 31 \<and> (adc div 16 - uint (dig_t1 c)) ^ 2 < 2 ^ 31
     \<and> \<bar>((adc div 16 - uint (dig_t1 c)) ^ 2 div 2 ^ 12) * sint (dig_t3 c)\<bar> < 2 ^ 31"

lemma fine_temp_range:
  assumes "temp_fits c adc"
  shows "- (2 ^ 21) \<le> fine_temp c adc \<and> fine_temp c adc \<le> 2 ^ 21"
proof -
  have d: "- (2 ^ 20) \<le> x div 2 ^ 11 \<and> x div 2 ^ 11 \<le> 2 ^ 20" "- (2 ^ 20) \<le> x div 2 ^ 14 \<and> x div 2 ^ 14 \<le> 2 ^ 20" if "\<bar>x\<bar> < 2 ^ 31" for x :: int
    using that by auto
  show ?thesis
    using assms d(1) [of "(adc div 8 - 2 * uint (dig_t1 c)) * sint (dig_t2 c)"]
      d(2) [of "((adc div 16 - uint (dig_t1 c)) ^ 2 div 2 ^ 12) * sint (dig_t3 c)"]
    unfolding temp_fits_def fine_temp_def by simp
qed

lemma compensate_temp_fine:
  assumes "temp_fits c (sint adc)" "0 \<le> sint adc" "sint adc < 2 ^ 20"
  shows "sint (snd (bmp280_compensate_temp c adc)) = fine_temp c (sint adc)"
    and "sint (fst (bmp280_compensate_temp c adc)) = centi_temp c (sint adc)"
proof -
  define t1 :: s32 where "t1 = ucast (dig_t1 c)"
  define k1 where "k1 = uint (dig_t1 c)"
  have t1: "sint t1 = k1" "0 \<le> k1" "k1 < 2 ^ 16" using u16_range by (auto simp: t1_def k1_def s32_of_u16)
  have shr: "sint (signed_drop_bit 3 adc) = sint adc div 8" "sint (signed_drop_bit 4 adc) = sint adc div 16" by (simp_all add: s32_shr)
  have two: "push_bit 1 t1 = t1 + t1" by (simp add: push_bit_eq_mult)
  have s2: "sint (push_bit 1 t1) = 2 * k1" unfolding two using t1 s32_exact(1) [of t1 t1] by simp
  have a: "sint (signed_drop_bit 3 adc - push_bit 1 t1) = sint adc div 8 - 2 * k1"
    using s32_exact(2) [of "signed_drop_bit 3 adc" "push_bit 1 t1"] shr s2 t1 assms(2,3) by simp
  have b: "sint (signed_drop_bit 4 adc - t1) = sint adc div 16 - k1"
    using s32_exact(2) [of "signed_drop_bit 4 adc" t1] shr t1 assms(2,3) by simp
  let ?v1 = "signed_drop_bit 11 ((signed_drop_bit 3 adc - push_bit 1 t1) * scast (dig_t2 c))"
  let ?sq = "(signed_drop_bit 4 adc - t1) * (signed_drop_bit 4 adc - t1)"
  let ?v2 = "signed_drop_bit 14 (signed_drop_bit 12 ?sq * scast (dig_t3 c))"
  have v1: "sint ?v1 = ((sint adc div 8 - 2 * uint (dig_t1 c)) * sint (dig_t2 c)) div 2 ^ 11"
    using s32_exact(3) [of "signed_drop_bit 3 adc - push_bit 1 t1" "scast (dig_t2 c)"] assms(1)
    unfolding s32_shr a k1_def s32_of_s16 temp_fits_def by (simp add: abs_less_iff)
  have sq: "sint ?sq = (sint adc div 16 - uint (dig_t1 c)) ^ 2"
    using s32_exact(3) [of "signed_drop_bit 4 adc - t1" "signed_drop_bit 4 adc - t1"] assms(1)
      order_trans [OF _ zero_le_square [of "sint adc div 16 - uint (dig_t1 c)"], of "- (2 ^ 31)"]
    by (simp add: b k1_def temp_fits_def power2_eq_square)
  have v2: "sint ?v2 = (((sint adc div 16 - uint (dig_t1 c)) ^ 2 div 2 ^ 12) * sint (dig_t3 c)) div 2 ^ 14"
    using s32_exact(3) [of "signed_drop_bit 12 ?sq" "scast (dig_t3 c)"] assms(1) unfolding s32_shr sq s32_of_s16 temp_fits_def by (simp add: abs_less_iff)
  have fine: "snd (bmp280_compensate_temp c adc) = ?v1 + ?v2" by (simp add: bmp280_compensate_temp_def Let_def t1_def)
  note range = fine_temp_range [OF assms(1)]
  have sum: "sint ?v1 + sint ?v2 = fine_temp c (sint adc)" unfolding v1 v2 fine_temp_def ..
  show f: "sint (snd (bmp280_compensate_temp c adc)) = fine_temp c (sint adc)"
    unfolding fine using s32_exact(1) [of ?v1 ?v2] sum range by simp
  define tf where "tf = snd (bmp280_compensate_temp c adc)"
  have "sint (tf * 5) = fine_temp c (sint adc) * 5" using s32_exact(3) [of tf 5] f range by (simp add: tf_def)
  then have "sint (tf * 5 + 128) = fine_temp c (sint adc) * 5 + 128" using s32_exact(1) [of "tf * 5" 128] range by simp
  moreover have "fst (bmp280_compensate_temp c adc) = signed_drop_bit 8 (tf * 5 + 128)" by (simp add: bmp280_compensate_temp_def Let_def tf_def)
  ultimately show "sint (fst (bmp280_compensate_temp c adc)) = centi_temp c (sint adc)" by (simp add: s32_shr centi_temp_def)
qed

subsection \<open>Raw values\<close>

lemma byte_to_word: "ucast (w :: byte) = (word_of_int (uint w) :: s32)"
  by simp

lemma byte_shift: "ucast (drop_bit 4 x) = (word_of_int (uint (x :: byte) div 16) :: s32)"
proof -
  have "uint (drop_bit 4 x) = uint x div 16"
    unfolding unsigned_drop_bit_eq using uint_lt2p [of x] by (simp add: drop_bit_eq_div take_bit_eq_mod)
  then show ?thesis by (simp only: byte_to_word)
qed

lemma adc_of_sum: "adc_of a b x = push_bit 12 (ucast a) + push_bit 4 (ucast b) + ucast (drop_bit 4 x)"
  unfolding adc_of_def
  by (subst disjunctive_add_eq_or [symmetric], (rule bit_word_eqI, auto simp: bit_simps dest: bit_imp_le_length)[1])+ simp

lemma adc_of_value: "sint (adc_of a b x) = 4096 * uint a + 16 * uint b + uint x div 16"
  and adc_of_range: "0 \<le> sint (adc_of a b x)" "sint (adc_of a b x) < 2 ^ 20"
proof -
  define i j k where "i = uint a" and "j = uint b" and "k = uint x"
  have r: "0 \<le> i" "i < 256" "0 \<le> j" "j < 256" "0 \<le> k" "k < 256"
    using uint_lt2p [of a] uint_lt2p [of b] uint_lt2p [of x] by (auto simp: i_def j_def k_def)
  have "adc_of a b x = word_of_int (4096 * i + 16 * j + k div 16)"
    unfolding adc_of_sum byte_shift by (simp add: push_bit_eq_mult i_def j_def k_def)
  then have "sint (adc_of a b x) = signed_take_bit 31 (4096 * i + 16 * j + k div 16)" by (simp only: signed_of_int) simp
  also have "\<dots> = 4096 * i + 16 * j + k div 16" using r by (intro signed_take_bit_int_eq_self) auto
  finally show eq: "sint (adc_of a b x) = 4096 * uint a + 16 * uint b + uint x div 16" by (simp add: i_def j_def k_def)
  show "0 \<le> sint (adc_of a b x)" "sint (adc_of a b x) < 2 ^ 20"
    unfolding eq unfolding i_def [symmetric] j_def [symmetric] k_def [symmetric] using r by auto
qed

subsection \<open>The driver on any adapter\<close>

lemma measure_unlocks:
  "bmp280_measure bus d s = (r, d', s') \<Longrightarrow> d' = d\<lparr>bd_lock := False\<rparr>"
  by (auto simp: bmp280_measure_def Let_def split: prod.splits sum.splits)

lemma probe_installs_iff:
  "bmp280_probe bus alloc s = (ret, od, s') \<Longrightarrow> (od \<noteq> None \<longleftrightarrow> ret = 0)"
  by (auto simp: bmp280_probe_def EOPNOTSUPP_def ENODEV_def ENOMEM_def BMP280_CHIP_ID_def split: prod.splits if_splits)

subsection \<open>The chip\<close>

text \<open>What the driver relies on of a BMP280 behind a working adapter: transfers succeed, reads return the
  registers and change nothing, the reset leaves the calibration memory alone, and a write to a control
  register sets that register.\<close>

definition calib_bytes :: "(byte \<Rightarrow> byte) \<Rightarrow> byte list" where
  "calib_bytes regs = map (\<lambda>i. regs (BMP280_REG_CALIB_START + of_nat i)) [0..<24]"

definition chip_on :: "'s i2c_bus \<Rightarrow> ('s \<Rightarrow> byte \<Rightarrow> byte) \<Rightarrow> bool" where
  "chip_on bus regs \<longleftrightarrow> bus_block_read bus \<and> (\<forall>r s. bus_read_byte bus r s = (uint (regs s r), s))
     \<and> (\<forall>r n s. bus_read_block bus r n s = (Inr (map (\<lambda>i. regs s (r + of_nat i)) [0..<n]), s))
     \<and> (\<forall>v s. fst (bus_write_byte bus BMP280_REG_RESET v s) = 0
          \<and> calib_bytes (regs (snd (bus_write_byte bus BMP280_REG_RESET v s))) = calib_bytes (regs s))
     \<and> (\<forall>r v s. r \<in> {BMP280_REG_CONFIG, BMP280_REG_CTRL_MEAS} \<longrightarrow>
          fst (bus_write_byte bus r v s) = 0 \<and> regs (snd (bus_write_byte bus r v s)) = (regs s)(r := v))"

text \<open>The 20-bit temperature word of the registers.\<close>

definition chip_adc_t :: "(byte \<Rightarrow> byte) \<Rightarrow> int" where
  "chip_adc_t regs = 4096 * uint (regs 0xFA) + 16 * uint (regs 0xFB) + uint (regs 0xFC) div 16"

lemma probe_chip:
  assumes "chip_on bus regs" "regs s BMP280_REG_ID = 0x58"
  shows "\<exists>s'. bmp280_probe bus True s = (0, Some \<lparr>bd_lock = False, bd_calib = calib_of (calib_bytes (regs s))\<rparr>, s')
     \<and> regs s' BMP280_REG_CONFIG = BMP280_CONFIG_VAL \<and> regs s' BMP280_REG_CTRL_MEAS = BMP280_CTRL_MEAS_VAL"
proof -
  obtain s2 where s2: "bus_write_byte bus BMP280_REG_RESET BMP280_RESET_MAGIC s = (0, s2)" "calib_bytes (regs s2) = calib_bytes (regs s)"
    using assms(1) unfolding chip_on_def by (metis prod.collapse)
  obtain s4 where s4: "bus_write_byte bus BMP280_REG_CONFIG BMP280_CONFIG_VAL s2 = (0, s4)"
    "regs s4 = (regs s2)(BMP280_REG_CONFIG := BMP280_CONFIG_VAL)"
    using assms(1) unfolding chip_on_def by (metis prod.collapse insertCI)
  obtain s5 where s5: "bus_write_byte bus BMP280_REG_CTRL_MEAS BMP280_CTRL_MEAS_VAL s4 = (0, s5)"
    "regs s5 = (regs s4)(BMP280_REG_CTRL_MEAS := BMP280_CTRL_MEAS_VAL)"
    using assms(1) unfolding chip_on_def by (metis prod.collapse insertCI)
  have "bus_block_read bus" "bus_read_byte bus BMP280_REG_ID s = (0x58, s)" using assms by (simp_all add: chip_on_def)
  moreover have "bus_read_block bus BMP280_REG_CALIB_START 24 s2 = (Inr (calib_bytes (regs s2)), s2)"
    using assms(1) by (simp add: chip_on_def calib_bytes_def)
  then have "bmp280_read_calib bus zero_data s2 = (0, zero_data\<lparr>bd_calib := calib_of (calib_bytes (regs s))\<rparr>, s2)"
    by (simp add: bmp280_read_calib_def s2(2)) (simp add: calib_bytes_def)
  ultimately have "bmp280_probe bus True s = (0, Some \<lparr>bd_lock = False, bd_calib = calib_of (calib_bytes (regs s))\<rparr>, s5)"
    using s2(1) s4(1) s5(1) by (simp add: bmp280_probe_def BMP280_CHIP_ID_def zero_data_def)
  then show ?thesis using s4(2) s5(2) by (simp add: BMP280_REG_CONFIG_def BMP280_REG_CTRL_MEAS_def)
qed

lemma show_chip:
  assumes "chip_on bus regs" "temp_fits c (chip_adc_t (regs u))" "d = \<lparr>bd_lock = False, bd_calib = c\<rparr>"
  shows "temperature_show bus d u = (Inr (int_to_string (10 * centi_temp c (chip_adc_t (regs u))) @ [CHR 0x0A]), d, u)"
proof -
  define adc where "adc = adc_of (regs u 0xFA) (regs u 0xFB) (regs u 0xFC)"
  have adc: "sint adc = chip_adc_t (regs u)" by (simp add: adc_def chip_adc_t_def adc_of_value)
  obtain t tf where t: "bmp280_compensate_temp c adc = (t, tf)" by fastforce
  have centi: "sint t = centi_temp c (chip_adc_t (regs u))"
    using compensate_temp_fine(2) [OF _ adc_of_range, of c "regs u 0xFA" "regs u 0xFB" "regs u 0xFC", folded adc_def] assms(2) adc t by simp
  have "\<bar>centi_temp c (chip_adc_t (regs u))\<bar> \<le> 2 ^ 16" using fine_temp_range [OF assms(2)] by (auto simp: centi_temp_def)
  then have "sint (t * 10) = 10 * centi_temp c (chip_adc_t (regs u))" using s32_exact(3) [of t 10] centi by simp
  moreover have "bmp280_read_raw bus u = (Inr (adc, adc_of (regs u 0xF7) (regs u 0xF8) (regs u 0xF9)), u)"
    using assms(1) by (simp add: bmp280_read_raw_def chip_on_def adc_def BMP280_REG_PRESS_MSB_def)
  ultimately show ?thesis using assms(3) t by (simp add: temperature_show_def bmp280_measure_def Let_def)
qed

subsection \<open>Properties\<close>

text \<open>C25: The 32-bit compensation computes the datasheet's formula. For every calibration and every
  20-bit reading for which no intermediate value of the formula leaves 32 bits, the wrapping fixed-point
  code returns exactly the integer formula for \<open>t_fine\<close> and for the temperature in hundredths of a degree.\<close>

theorem compensate_temp_exact:
  assumes "temp_fits c (sint adc)" "0 \<le> sint adc" "sint adc < 2 ^ 20"
  shows "sint (fst (bmp280_compensate_temp c adc)) = centi_temp c (sint adc)
     \<and> sint (snd (bmp280_compensate_temp c adc)) = fine_temp c (sint adc)"
  using compensate_temp_fine [OF assms] by simp

text \<open>The example of the datasheet (section 3.12).\<close>

definition datasheet_calib :: bmp280_calib where
  "datasheet_calib = \<lparr>dig_t1 = 27504, dig_t2 = 26435, dig_t3 = -1000, dig_p1 = 36477, dig_p2 = -10685, dig_p3 = 3024, dig_p4 = 2855,
     dig_p5 = 140, dig_p6 = -7, dig_p7 = 15500, dig_p8 = -14600, dig_p9 = 6000\<rparr>"

lemma datasheet_pressure:
  "bmp280_compensate_press datasheet_calib 415148 (snd (bmp280_compensate_temp datasheet_calib 519888)) = 100656"
  by code_simp

theorem compensate_temp_exact_witness:
  "sint (fst (bmp280_compensate_temp datasheet_calib 519888)) = 2508"
proof -
  have "temp_fits datasheet_calib (sint (519888 :: s32))" "centi_temp datasheet_calib (sint (519888 :: s32)) = 2508"
    by code_simp+
  then show ?thesis using compensate_temp_exact [of datasheet_calib 519888] by simp
qed


definition sim_bus :: "(byte \<Rightarrow> byte) i2c_bus" where
  "sim_bus = \<lparr>bus_block_read = True, bus_read_byte = (\<lambda>r s. (uint (s r), s)),
     bus_write_byte = (\<lambda>r v s. (0, if r = BMP280_REG_RESET then s else s(r := v))),
     bus_read_block = (\<lambda>r n s. (Inr (map (\<lambda>i. s (r + of_nat i)) [0..<n]), s))\<rparr>"

definition sim_regs :: "byte \<Rightarrow> byte" where
  "sim_regs r = (case map_of [(0x88, 0x70), (0x89, 0x6B), (0x8A, 0x43), (0x8B, 0x67), (0x8C, 0x18), (0x8D, 0xFC), (0xD0, 0x58),
     (0xFA, 0x7E), (0xFB, 0xED)] r of Some v \<Rightarrow> v | None \<Rightarrow> 0)"

text \<open>The simulated chip holds the temperature calibration and reading of the datasheet's example.\<close>

definition sim_calib :: bmp280_calib where
  "sim_calib = \<lparr>dig_t1 = 27504, dig_t2 = 26435, dig_t3 = -1000, dig_p1 = 0, dig_p2 = 0, dig_p3 = 0, dig_p4 = 0, dig_p5 = 0, dig_p6 = 0,
     dig_p7 = 0, dig_p8 = 0, dig_p9 = 0\<rparr>"

lemma sim_chip: "chip_on sim_bus id" "calib_of (calib_bytes sim_regs) = sim_calib" "chip_adc_t sim_regs = 519888" "sim_regs BMP280_REG_ID = 0x58"
proof -
  show "chip_on sim_bus id"
    by (simp add: chip_on_def sim_bus_def BMP280_REG_RESET_def BMP280_REG_CONFIG_def BMP280_REG_CTRL_MEAS_def)
  have "calib_bytes sim_regs = [0x70, 0x6B, 0x43, 0x67, 0x18, 0xFC, 0, 0, 0, 0, 0, 0, 0, 0, 0, 0, 0, 0, 0, 0, 0, 0, 0, 0]"
    by (simp add: calib_bytes_def sim_regs_def upt_rec BMP280_REG_CALIB_START_def)
  moreover have "calib_of [0x70, 0x6B, 0x43, 0x67, 0x18, 0xFC, 0, 0, 0, 0, 0, 0, 0, 0, 0, 0, 0, 0, 0, 0, 0, 0, 0, 0] = sim_calib" by code_simp
  ultimately show "calib_of (calib_bytes sim_regs) = sim_calib" by simp
qed (simp_all add: chip_adc_t_def sim_regs_def BMP280_REG_ID_def)


end
