(* ===== verification/Uboot_Diag.thy ===== *)
theory Uboot_Diag
  imports Prelude
begin

text \<open>
  The U-Boot board diagnostics of \<open>src/uboot-fast-boot-gpio\<close>: the \<open>diag\<close> command
  (\<open>cmd_diag.c\<close>) and the early status LED (\<open>status_led_init.c\<close>).

  U-Boot itself is a parameter: \<open>ub_env\<close> is the environment, \<open>ub_strtoul\<close> its number conversion, and the GPIO
  calls act on a state of U-Boot's own. \<open>ulong\<close> is 64 bits wide. DRAM is a function from word index to
  content; what a store does to it is the argument \<open>wr\<close>, so that faulty memory can be described. The \<open>int\<close> that
  counts the blinks is exact; \<open>bs_delay\<close> adds up the milliseconds waited.
\<close>

subsection \<open>U-Boot\<close>

record 's uboot =
  ub_env :: "string \<Rightarrow> string option"
  ub_strtoul :: "string \<Rightarrow> u64"
  ub_gpio_request :: "int \<Rightarrow> string \<Rightarrow> 's \<Rightarrow> int \<times> 's"
  ub_gpio_direction_output :: "int \<Rightarrow> int \<Rightarrow> 's \<Rightarrow> 's"
  ub_gpio_free :: "int \<Rightarrow> 's \<Rightarrow> 's"

definition CMD_RET_SUCCESS :: int where "CMD_RET_SUCCESS = 0"
definition CMD_RET_FAILURE :: int where "CMD_RET_FAILURE = 1"
definition CMD_RET_USAGE :: int where "CMD_RET_USAGE = -1"
definition EBUSY :: int where "EBUSY = 16"

type_synonym dram = "nat \<Rightarrow> u64"

record 's board =
  bs_gpio :: 's
  bs_mem :: dram
  bs_delay :: nat

definition CONFIG_CUSTOM_STATUS_LED_GPIO :: int where
  "CONFIG_CUSTOM_STATUS_LED_GPIO = 42"

subsection \<open>Status LED\<close>

text \<open>\<open>(int)simple_strtoul(s, NULL, 10)\<close>.\<close>

definition to_int32 :: "u64 \<Rightarrow> int" where
  "to_int32 w = sint (ucast w :: u32)"

definition status_led_gpio :: "'s uboot \<Rightarrow> int" where
  "status_led_gpio ub = (case ub_env ub ''status_led_gpio'' of Some s \<Rightarrow> to_int32 (ub_strtoul ub s) | None \<Rightarrow> CONFIG_CUSTOM_STATUS_LED_GPIO)"

definition led_set :: "'s uboot \<Rightarrow> bool \<Rightarrow> 's \<Rightarrow> int \<times> 's" where
  "led_set ub led_on s =
     (let gpio = status_led_gpio ub in
      case ub_gpio_request ub gpio ''status-led'' s of (ret, s1) \<Rightarrow>
        if ret \<noteq> 0 \<and> ret \<noteq> - EBUSY then (CMD_RET_FAILURE, s1)
        else (CMD_RET_SUCCESS, ub_gpio_free ub gpio (ub_gpio_direction_output ub gpio (if led_on then 1 else 0) s1)))"

text \<open>The early hook uses the configured pin and returns the error code itself.\<close>

definition custom_status_led_on :: "'s uboot \<Rightarrow> 's \<Rightarrow> int \<times> 's" where
  "custom_status_led_on ub s =
     (let gpio = CONFIG_CUSTOM_STATUS_LED_GPIO in
      case ub_gpio_request ub gpio ''status-led'' s of (ret, s1) \<Rightarrow>
        if ret \<noteq> 0 \<and> ret \<noteq> - EBUSY then (ret, s1)
        else (0, ub_gpio_free ub gpio (ub_gpio_direction_output ub gpio 1 s1)))"

subsection \<open>The subcommands\<close>

record diag_report =
  di_dram_mib :: nat
  di_relocaddr :: u64
  di_boot_params :: u64
  di_bootargs :: string
  di_led :: int

definition do_diag_info :: "'s uboot \<Rightarrow> u64 \<Rightarrow> u64 \<Rightarrow> u64 \<Rightarrow> diag_report" where
  "do_diag_info ub ram_size relocaddr boot_params =
     \<lparr>di_dram_mib = unat (drop_bit 20 ram_size), di_relocaddr = relocaddr, di_boot_params = boot_params,
      di_bootargs = (case ub_env ub ''bootargs'' of Some s \<Rightarrow> s | None \<Rightarrow> ''(unset)''), di_led = status_led_gpio ub\<rparr>"

definition mem_pattern :: "nat \<Rightarrow> u64" where
  "mem_pattern i = or 0xA5A50000 (of_nat i)"

text \<open>The two loops over the words: save and write the pattern, then compare and restore.\<close>

fun mem_fill :: "(nat \<Rightarrow> u64 \<Rightarrow> dram \<Rightarrow> dram) \<Rightarrow> nat list \<Rightarrow> u64 list \<Rightarrow> dram \<Rightarrow> u64 list \<times> dram" where
  "mem_fill wr [] saved m = (saved, m)"
| "mem_fill wr (i # is) saved m = mem_fill wr is (saved @ [m i]) (wr i (mem_pattern i) m)"

fun mem_check :: "(nat \<Rightarrow> u64 \<Rightarrow> dram \<Rightarrow> dram) \<Rightarrow> nat list \<Rightarrow> u64 list \<Rightarrow> nat \<Rightarrow> dram \<Rightarrow> nat \<times> dram" where
  "mem_check wr [] saved errors m = (errors, m)"
| "mem_check wr (i # is) saved errors m =
     mem_check wr is saved (if m i \<noteq> mem_pattern i then errors + 1 else errors) (wr i (saved ! i) m)"

definition do_diag_mem :: "(nat \<Rightarrow> u64 \<Rightarrow> dram \<Rightarrow> dram) \<Rightarrow> dram \<Rightarrow> int \<times> nat \<times> dram" where
  "do_diag_mem wr m =
     (case mem_fill wr [0..<256] [] m of (saved, m1) \<Rightarrow>
      case mem_check wr [0..<256] saved 0 m1 of (errors, m2) \<Rightarrow>
        (if errors \<noteq> 0 then CMD_RET_FAILURE else CMD_RET_SUCCESS, errors, m2))"

text \<open>\<open>while (n-- > 0)\<close>.\<close>

function blink :: "'s uboot \<Rightarrow> int \<Rightarrow> 's \<times> nat \<Rightarrow> 's \<times> nat" where
  "blink ub n (s, ms) =
     (if 0 < n then blink ub (n - 1) (snd (led_set ub False (snd (led_set ub True s))), ms + 120 + 120) else (s, ms))"
  by pat_completeness auto
termination
  by (relation "measure (\<lambda>(ub, n, s). nat n)") auto

declare blink.simps [simp del]

subsection \<open>The command\<close>

text \<open>\<open>do_diag\<close>: the return code and the board after it. The report of \<open>info\<close> is printed only.\<close>

definition do_diag :: "'s uboot \<Rightarrow> (nat \<Rightarrow> u64 \<Rightarrow> dram \<Rightarrow> dram) \<Rightarrow> string list \<Rightarrow> 's board \<Rightarrow> int \<times> 's board" where
  "do_diag ub wr argv b =
     (if length argv < 2 then (CMD_RET_USAGE, b)
      else if argv ! 1 = ''info'' then (CMD_RET_SUCCESS, b)
      else if argv ! 1 = ''mem'' then
        (case do_diag_mem wr (bs_mem b) of (ret, errors, m) \<Rightarrow> (ret, b\<lparr>bs_mem := m\<rparr>))
      else if argv ! 1 = ''led'' then
        (if length argv < 3 then (CMD_RET_USAGE, b)
         else if argv ! 2 = ''on'' then (case led_set ub True (bs_gpio b) of (ret, s) \<Rightarrow> (ret, b\<lparr>bs_gpio := s\<rparr>))
         else if argv ! 2 = ''off'' then (case led_set ub False (bs_gpio b) of (ret, s) \<Rightarrow> (ret, b\<lparr>bs_gpio := s\<rparr>))
         else if argv ! 2 = ''blink'' then
           (let n = (if 3 < length argv then to_int32 (ub_strtoul ub (argv ! 3)) else 3)
            in case blink ub n (bs_gpio b, bs_delay b) of (s, ms) \<Rightarrow> (CMD_RET_SUCCESS, b\<lparr>bs_gpio := s, bs_delay := ms\<rparr>))
         else (CMD_RET_USAGE, b))
      else (CMD_RET_USAGE, b))"

subsection \<open>Memory with faulty cells\<close>

text \<open>Memory whose word \<open>i\<close> holds \<open>hold i v\<close> after \<open>v\<close> was written to it.\<close>

definition cellwise :: "(nat \<Rightarrow> u64 \<Rightarrow> u64) \<Rightarrow> nat \<Rightarrow> u64 \<Rightarrow> dram \<Rightarrow> dram" where
  "cellwise hold i v m = m(i := hold i v)"

lemma mem_fill_run:
  "distinct is \<Longrightarrow> mem_fill (cellwise hold) is saved m
     = (saved @ map m is, \<lambda>j. if j \<in> set is then hold j (mem_pattern j) else m j)"
  by (induction "is" arbitrary: saved m) (auto simp: cellwise_def fun_eq_iff)

lemma mem_check_run:
  "distinct is \<Longrightarrow> mem_check (cellwise hold) is saved errors m
     = (errors + length (filter (\<lambda>i. m i \<noteq> mem_pattern i) is), \<lambda>j. if j \<in> set is then hold j (saved ! j) else m j)"
proof (induction "is" arbitrary: errors m)
  case (Cons i "is")
  have "filter (\<lambda>j. cellwise hold i (saved ! i) m j \<noteq> mem_pattern j) is = filter (\<lambda>j. m j \<noteq> mem_pattern j) is"
    using Cons.prems by (intro filter_cong) (auto simp: cellwise_def)
  then show ?case using Cons by (auto simp: fun_eq_iff) (auto simp: cellwise_def)
qed simp

lemma diag_mem_run:
  defines "bad hold \<equiv> filter (\<lambda>i. hold i (mem_pattern i) \<noteq> mem_pattern i) [0..<256]"
  shows "do_diag_mem (cellwise hold) m =
    (if bad hold \<noteq> [] then CMD_RET_FAILURE else CMD_RET_SUCCESS, length (bad hold), \<lambda>j. if j < 256 then hold j (m j) else m j)"
proof -
  have "filter (\<lambda>i. (if i \<in> set [0..<256] then hold i (mem_pattern i) else m i) \<noteq> mem_pattern i) [0..<256] = bad hold"
    unfolding bad_def by (rule filter_cong) auto
  then show ?thesis by (simp add: do_diag_mem_def mem_fill_run mem_check_run fun_eq_iff)
qed

subsection \<open>GPIO\<close>

text \<open>What the code relies on of the GPIO calls: a request of a free pin takes it and one of a taken pin
  is refused with \<open>-EBUSY\<close>, an output sets the level, and a free releases the pin whoever holds it.\<close>

definition gpio_ok :: "'s uboot \<Rightarrow> ('s \<Rightarrow> int \<Rightarrow> string option) \<Rightarrow> ('s \<Rightarrow> int \<Rightarrow> int) \<Rightarrow> bool" where
  "gpio_ok ub owner level \<longleftrightarrow>
     (\<forall>g l s. case ub_gpio_request ub g l s of (ret, t) \<Rightarrow> level t = level s
        \<and> (if owner s g = None then ret = 0 \<and> owner t = (owner s)(g := Some l) else ret = - EBUSY \<and> owner t = owner s))
     \<and> (\<forall>g v s. owner (ub_gpio_direction_output ub g v s) = owner s \<and> level (ub_gpio_direction_output ub g v s) = (level s)(g := v))
     \<and> (\<forall>g s. owner (ub_gpio_free ub g s) = (owner s)(g := None) \<and> level (ub_gpio_free ub g s) = level s)"

lemma led_set_run:
  assumes "gpio_ok ub owner level"
  obtains t where "led_set ub led_on s = (CMD_RET_SUCCESS, t)" "owner t = (owner s)(status_led_gpio ub := None)"
    "level t = (level s)(status_led_gpio ub := if led_on then 1 else 0)"
proof -
  obtain ret s1 where r: "ub_gpio_request ub (status_led_gpio ub) ''status-led'' s = (ret, s1)" by fastforce
  have q: "case ub_gpio_request ub (status_led_gpio ub) ''status-led'' s of (ret, t) \<Rightarrow> level t = level s
        \<and> (if owner s (status_led_gpio ub) = None then ret = 0 \<and> owner t = (owner s)(status_led_gpio ub := Some ''status-led'')
           else ret = - EBUSY \<and> owner t = owner s)"
    using assms by (simp add: gpio_ok_def)
  have "(ret = 0 \<or> ret = - EBUSY) \<and> level s1 = level s \<and> (owner s1)(status_led_gpio ub := None) = (owner s)(status_led_gpio ub := None)"
    using q unfolding r by (auto split: if_splits)
  then show thesis
    using that assms by (auto simp: led_set_def Let_def r gpio_ok_def)
qed

lemma blink_run:
  assumes "gpio_ok ub owner level"
  shows "\<exists>t. blink ub n (s, ms) = (t, ms + 240 * nat n) \<and> (0 < n \<longrightarrow> owner t = (owner s)(status_led_gpio ub := None)
     \<and> level t = (level s)(status_led_gpio ub := 0)) \<and> (n \<le> 0 \<longrightarrow> t = s)"
proof (induction "nat n" arbitrary: n s ms)
  case 0
  then show ?case by (simp add: blink.simps)
next
  case (Suc k)
  obtain s1 where s1: "led_set ub True s = (CMD_RET_SUCCESS, s1)" "owner s1 = (owner s)(status_led_gpio ub := None)"
    "level s1 = (level s)(status_led_gpio ub := 1)"
    using led_set_run [OF assms, of True s] by auto
  obtain s2 where s2: "led_set ub False s1 = (CMD_RET_SUCCESS, s2)" "owner s2 = (owner s1)(status_led_gpio ub := None)"
    "level s2 = (level s1)(status_led_gpio ub := 0)"
    using led_set_run [OF assms, of False s1] by auto
  have n: "0 < n" "k = nat (n - 1)" "nat n = Suc (nat (n - 1))" using Suc(2) by auto
  obtain t where t: "blink ub (n - 1) (s2, ms + 240) = (t, ms + 240 + 240 * nat (n - 1))"
    "0 < n - 1 \<longrightarrow> owner t = (owner s2)(status_led_gpio ub := None) \<and> level t = (level s2)(status_led_gpio ub := 0)" "n - 1 \<le> 0 \<longrightarrow> t = s2"
    using Suc(1) [OF n(2), of s2 "ms + 240"] by auto
  have "blink ub n (s, ms) = (t, ms + 240 * nat n)" using n(1,3) t(1) by (subst blink.simps) (simp add: s1 s2 ac_simps)
  then show ?case using t(2,3) n(1) s1 s2 by (cases "n = 1") auto
qed

subsection \<open>Properties\<close>

text \<open>C27: The memory walk reports and restores. On memory with any faulty cells it counts exactly the words
  that do not hold their test pattern, fails when there is one, touches only the first 256 words and writes
  every one of them back; so on sound memory it succeeds and leaves the whole memory as it was.\<close>

theorem diag_mem_walk:
  "do_diag_mem (cellwise hold) m =
     (if \<exists>i < 256. hold i (mem_pattern i) \<noteq> mem_pattern i then CMD_RET_FAILURE else CMD_RET_SUCCESS,
      card {i. i < 256 \<and> hold i (mem_pattern i) \<noteq> mem_pattern i}, \<lambda>j. if j < 256 then hold j (m j) else m j)
   \<and> do_diag_mem (\<lambda>i v m. m(i := v)) m = (CMD_RET_SUCCESS, 0, m)"
proof -
  have "distinct (filter (\<lambda>i. hold i (mem_pattern i) \<noteq> mem_pattern i) [0..<256])" by simp
  from distinct_card [OF this] have "length (filter (\<lambda>i. hold i (mem_pattern i) \<noteq> mem_pattern i) [0..<256])
    = card {i. i < 256 \<and> hold i (mem_pattern i) \<noteq> mem_pattern i}" by (simp add: conj_commute)
  moreover have "filter (\<lambda>i. hold i (mem_pattern i) \<noteq> mem_pattern i) [0..<256] \<noteq> [] \<longleftrightarrow> (\<exists>i < 256. hold i (mem_pattern i) \<noteq> mem_pattern i)"
    by (auto simp: filter_empty_conv)
  moreover have "(\<lambda>i v m. m(i := v)) = cellwise (\<lambda>_ v. v)" by (simp add: cellwise_def fun_eq_iff)
  ultimately show ?thesis by (simp add: diag_mem_run)
qed

text \<open>C35: The LED commands. \<open>diag led on\<close> and \<open>off\<close> always succeed on working GPIO calls, \<open>blink\<close> ends after
  its count of cycles of 240 ms with the LED off. But each of them frees the pin even when the request was
  refused because other code holds it: afterwards nobody holds the pin, whoever did before.\<close>

theorem diag_led:
  assumes "gpio_ok ub owner level"
  shows "(\<exists>t. do_diag ub wr [''diag'', ''led'', if led_on then ''on'' else ''off''] b = (CMD_RET_SUCCESS, b\<lparr>bs_gpio := t\<rparr>)
       \<and> level t = (level (bs_gpio b))(status_led_gpio ub := if led_on then 1 else 0) \<and> owner t = (owner (bs_gpio b))(status_led_gpio ub := None))
   \<and> (\<exists>t. do_diag ub wr [''diag'', ''led'', ''blink'', cnt] b
         = (CMD_RET_SUCCESS, b\<lparr>bs_gpio := t, bs_delay := bs_delay b + 240 * nat (to_int32 (ub_strtoul ub cnt))\<rparr>)
       \<and> (0 < to_int32 (ub_strtoul ub cnt) \<longrightarrow> level t (status_led_gpio ub) = 0 \<and> owner t (status_led_gpio ub) = None))"
proof -
  obtain t where t: "led_set ub led_on (bs_gpio b) = (CMD_RET_SUCCESS, t)" "owner t = (owner (bs_gpio b))(status_led_gpio ub := None)"
    "level t = (level (bs_gpio b))(status_led_gpio ub := if led_on then 1 else 0)"
    by (rule led_set_run [OF assms])
  obtain u where u: "blink ub (to_int32 (ub_strtoul ub cnt)) (bs_gpio b, bs_delay b) = (u, bs_delay b + 240 * nat (to_int32 (ub_strtoul ub cnt)))"
    "0 < to_int32 (ub_strtoul ub cnt) \<longrightarrow> owner u = (owner (bs_gpio b))(status_led_gpio ub := None)
       \<and> level u = (level (bs_gpio b))(status_led_gpio ub := 0)"
    using blink_run [OF assms] by blast
  have "do_diag ub wr [''diag'', ''led'', if led_on then ''on'' else ''off''] b = (CMD_RET_SUCCESS, b\<lparr>bs_gpio := t\<rparr>)"
    using t(1) by (cases led_on) (auto simp: do_diag_def)
  moreover have "do_diag ub wr [''diag'', ''led'', ''blink'', cnt] b
     = (CMD_RET_SUCCESS, b\<lparr>bs_gpio := u, bs_delay := bs_delay b + 240 * nat (to_int32 (ub_strtoul ub cnt))\<rparr>)"
    using u(1) by (simp add: do_diag_def Let_def)
  ultimately show ?thesis using t(2,3) u(2) by (intro conjI exI [of _ t] exI [of _ u]) auto
qed

text \<open>A simulated GPIO bank: owner and level of every pin.\<close>

definition sim_uboot :: "((int \<Rightarrow> string option) \<times> (int \<Rightarrow> int)) uboot" where
  "sim_uboot = \<lparr>ub_env = Map.empty, ub_strtoul = (\<lambda>s. of_nat (length s)),
     ub_gpio_request = (\<lambda>g l (ow, lv). if ow g = None then (0, (ow(g := Some l), lv)) else (- EBUSY, (ow, lv))),
     ub_gpio_direction_output = (\<lambda>g v (ow, lv). (ow, lv(g := v))), ub_gpio_free = (\<lambda>g (ow, lv). (ow(g := None), lv))\<rparr>"

theorem diag_led_witness:
  "\<exists>t. do_diag sim_uboot (\<lambda>i v m. m(i := v)) [''diag'', ''led'', ''on'']
       \<lparr>bs_gpio = ([42 \<mapsto> ''watchdog''], \<lambda>_. 0), bs_mem = (\<lambda>_. 0), bs_delay = 0\<rparr>
     = (CMD_RET_SUCCESS, \<lparr>bs_gpio = t, bs_mem = (\<lambda>_. 0), bs_delay = 0\<rparr>) \<and> snd t 42 = 1 \<and> fst t 42 = None"
proof -
  have ok: "gpio_ok sim_uboot fst snd" by (auto simp: gpio_ok_def sim_uboot_def)
  have led: "status_led_gpio sim_uboot = 42" by (simp add: status_led_gpio_def sim_uboot_def CONFIG_CUSTOM_STATUS_LED_GPIO_def)
  show ?thesis
    using diag_led [OF ok, of "\<lambda>i v m. m(i := v)" True "\<lparr>bs_gpio = ([42 \<mapsto> ''watchdog''], \<lambda>_. 0), bs_mem = (\<lambda>_. 0), bs_delay = 0\<rparr>"]
    by (auto simp: led)
qed

end
