(* ===== verification/Telemetry_App.thy ===== *)
theory Telemetry_App
  imports Command_Line
begin

text \<open>
  The telemetry daemon of the Yocto layer (\<open>telemetry_app.cpp\<close> of \<open>src/yocto-meta-custom-bsp\<close>): every five seconds it
  reads the first number of three files and logs them with a running counter. A file is its text, \<open>None\<close> when it
  cannot be opened; the endless loop runs over the list of what the files hold in each round. The log is a list of lines with
  numeric fields. \<open>f >> v\<close> is the formatted input of the standard library in the classic locale: blanks, a sign, digits with a decimal
  point, an exponent; it fails on anything else and outside the range of \<open>double\<close>.
\<close>

subsection \<open>Reading a number\<close>

definition decimal_fraction :: "string \<Rightarrow> string \<times> string" where
  "decimal_fraction r = (case r of [] \<Rightarrow> ([], [])
     | c # r' \<Rightarrow> if c = CHR ''.'' then (takeWhile is_digit r', dropWhile is_digit r') else ([], r))"

text \<open>The exponent a text goes on with: \<open>None\<close> when it is begun and has no digits.\<close>

definition decimal_exponent :: "string \<Rightarrow> int option" where
  "decimal_exponent r = (case r of [] \<Rightarrow> Some 0
     | c # r' \<Rightarrow> if c = CHR ''e'' \<or> c = CHR ''E''
               then if takeWhile is_digit (snd (sign_split r')) = [] then None else Some (exponent_value r)
               else Some 0)"

definition extract_double :: "string \<Rightarrow> rat option" where
  "extract_double s = (case sign_split (dropWhile is_space s) of (neg, t) \<Rightarrow>
     case decimal_fraction (dropWhile is_digit t) of (fr, r) \<Rightarrow>
       if takeWhile is_digit t = [] \<and> fr = [] then None
       else case decimal_exponent r of None \<Rightarrow> None
       | Some e \<Rightarrow>
           (let v = f64 ((of_nat (digits_value t) + of_nat (digits_value fr) / 10 ^ length fr) * 10 powi e)
            in if 2 ^ 1024 \<le> v then None else Some (if neg then - v else v)))"

definition read_first_double :: "string option \<Rightarrow> rat \<Rightarrow> rat" where
  "read_first_double file scale = (case file of None \<Rightarrow> -1
     | Some s \<Rightarrow> (case extract_double s of Some v \<Rightarrow> f64 (v * scale) | None \<Rightarrow> -1))"

subsection \<open>The loop\<close>

record board_files =
  bf_uptime :: "string option"
  bf_loadavg :: "string option"
  bf_thermal :: "string option"

record log_line =
  ll_tick :: u64
  ll_uptime :: rat
  ll_load1 :: rat
  ll_cpu_c :: rat

definition telemetry_round :: "board_files \<Rightarrow> u64 \<Rightarrow> log_line \<times> u64" where
  "telemetry_round b tick =
     (let uptime = read_first_double (bf_uptime b) 1;
          loadavg = read_first_double (bf_loadavg b) 1;
          temp_c = read_first_double (bf_thermal b) (f64 (1/1000))
      in (\<lparr>ll_tick = tick, ll_uptime = uptime, ll_load1 = loadavg, ll_cpu_c = temp_c\<rparr>, tick + 1))"

fun telemetry_main :: "board_files list \<Rightarrow> u64 \<Rightarrow> log_line list" where
  "telemetry_main [] tick = []"
| "telemetry_main (b # bs) tick = (case telemetry_round b tick of (line, tick') \<Rightarrow> line # telemetry_main bs tick')"

subsection \<open>Digits\<close>

definition digits_text :: "string \<Rightarrow> bool" where
  "digits_text ds \<longleftrightarrow> list_all is_digit ds"

definition ends_number :: "string \<Rightarrow> bool" where
  "ends_number r \<longleftrightarrow> (case r of [] \<Rightarrow> True | c # _ \<Rightarrow> \<not> is_digit c \<and> c \<noteq> CHR ''.'' \<and> c \<noteq> CHR ''e'' \<and> c \<noteq> CHR ''E'')"

lemma of_digit_char: "d < 10 \<Longrightarrow> (of_char (digit_char d) :: nat) = 48 + d"
  by (simp add: digit_char_def)

lemma digits_nat_to_string: "digits_text (nat_to_string n) \<and> nat_to_string n \<noteq> []"
proof (induction n rule: nat_to_string.induct)
  case (1 n)
  have "is_digit (digit_char (n mod 10))" "n < 10 \<Longrightarrow> is_digit (digit_char n)" by (simp_all add: is_digit_def of_digit_char)
  then show ?case using 1 by (subst (1 2) nat_to_string.simps) (auto simp: digits_text_def)
qed

lemma takeWhile_digits:
  assumes "digits_text ds" "r = [] \<or> \<not> is_digit (hd r)"
  shows "takeWhile is_digit (ds @ r) = ds" "dropWhile is_digit (ds @ r) = r"
  using assms by (induction ds) (cases r; auto simp: digits_text_def)+

lemma takeWhile_all: "digits_text ds \<Longrightarrow> takeWhile is_digit ds = ds"
  using takeWhile_digits(1) [of ds "[]"] by simp

lemma foldl_digits: "foldl (\<lambda>a c. 10 * a + (of_char c - 48)) 0 (nat_to_string n) = n"
proof (induction n rule: nat_to_string.induct)
  case (1 n)
  show ?case using 1 by (subst nat_to_string.simps) (simp add: of_digit_char)
qed

lemma digits_value_text: "digits_text ds \<Longrightarrow> r = [] \<or> \<not> is_digit (hd r) \<Longrightarrow> digits_value (ds @ r) = digits_value ds"
  by (simp only: digits_value_def takeWhile_digits takeWhile_all)

lemma digits_value_nat: "digits_value (nat_to_string n) = n"
  by (simp only: digits_value_def takeWhile_all digits_nat_to_string foldl_digits)

lemma digit_first: "is_digit c \<Longrightarrow> \<not> is_space c \<and> c \<noteq> CHR ''-'' \<and> c \<noteq> CHR ''+''"
  by (auto simp: is_digit_def is_space_def)

lemma sign_not_space: "\<not> is_space (CHR ''-'')" "\<not> is_digit (CHR ''.'')"
  by (simp_all add: is_space_def is_digit_def)

subsection \<open>Decimal texts\<close>

text \<open>A sign, an integer part and a fraction, as the kernel prints them.\<close>

definition decimal_text :: "bool \<Rightarrow> string \<Rightarrow> string \<Rightarrow> string" where
  "decimal_text neg a b = (if neg then [CHR ''-''] else []) @ a @ (if b = [] then [] else CHR ''.'' # b)"

definition decimal_value :: "string \<Rightarrow> string \<Rightarrow> rat" where
  "decimal_value a b = of_nat (digits_value a) + of_nat (digits_value b) / 10 ^ length b"

lemma split_decimal:
  assumes "digits_text a" "a \<noteq> []"
  shows "sign_split (dropWhile is_space (decimal_text neg a b @ r)) = (neg, a @ (if b = [] then [] else CHR ''.'' # b) @ r)"
proof -
  obtain c a' where "a = c # a'" "is_digit c" using assms by (cases a) (auto simp: digits_text_def)
  then show ?thesis using digit_first [of c] sign_not_space by (simp add: decimal_text_def sign_split_def)
qed

lemma ends_exponent: "ends_number r \<Longrightarrow> decimal_exponent r = Some 0 \<and> (r = [] \<or> \<not> is_digit (hd r)) \<and> decimal_fraction r = ([], r)"
  by (cases r) (auto simp: ends_number_def decimal_exponent_def decimal_fraction_def)

lemma extract_decimal:
  assumes "digits_text a" "a \<noteq> []" "digits_text b" "ends_number r" "f64 (decimal_value a b) < 2 ^ 1024"
  shows "extract_double (decimal_text neg a b @ r) = Some (if neg then - f64 (decimal_value a b) else f64 (decimal_value a b))"
proof -
  let ?r = "(if b = [] then [] else CHR ''.'' # b) @ r"
  note e = ends_exponent [OF assms(4)]
  have r: "?r = [] \<or> \<not> is_digit (hd ?r)" using e sign_not_space(2) by simp
  have a: "takeWhile is_digit (a @ ?r) = a" "dropWhile is_digit (a @ ?r) = ?r" "digits_value (a @ ?r) = digits_value a"
    using takeWhile_digits [OF assms(1) r] digits_value_text [OF assms(1) r] by blast+
  have f: "decimal_fraction ?r = (b, r)"
    using e takeWhile_digits [OF assms(3), of r] by (cases "b = []") (simp_all add: decimal_fraction_def)
  show ?thesis
    using assms(2,5) unfolding extract_double_def split_decimal [OF assms(1,2)] case_prod_conv a f Let_def decimal_value_def e [THEN conjunct1]
    by simp
qed

text \<open>A file that starts with the number \<open>q\<close>, and what is read from it.\<close>

definition file_shows :: "string option \<Rightarrow> rat \<Rightarrow> bool" where
  "file_shows file q \<longleftrightarrow> (\<exists>neg a b r. file = Some (decimal_text neg a b @ r) \<and> digits_text a \<and> a \<noteq> [] \<and> digits_text b \<and> ends_number r
     \<and> q = (if neg then - decimal_value a b else decimal_value a b) \<and> \<bar>q\<bar> \<le> 2 ^ 53)"

lemma decimal_value_nonneg: "0 \<le> decimal_value a b"
  by (simp add: decimal_value_def)

lemma f64_small: "\<bar>q\<bar> \<le> 2 ^ 53 \<Longrightarrow> f64 q < 2 ^ 1024"
proof -
  assume "\<bar>q\<bar> \<le> 2 ^ 53"
  then have "q \<le> of_int (2 ^ 53)" by simp
  then have "f64 q \<le> of_int (2 ^ 53)" by (rule f64.rnd_le_int) simp
  then show ?thesis by (rule le_less_trans) simp
qed

lemma read_shown:
  assumes "file_shows file q"
  shows "read_first_double file scale = f64 (f64 q * scale)"
proof -
  obtain neg a b r where f: "file = Some (decimal_text neg a b @ r)" "digits_text a" "a \<noteq> []" "digits_text b" "ends_number r"
      "q = (if neg then - decimal_value a b else decimal_value a b)" "\<bar>q\<bar> \<le> 2 ^ 53"
    using assms unfolding file_shows_def by blast
  have "f64 (decimal_value a b) < 2 ^ 1024" using f(6,7) by (intro f64_small) (cases neg; simp)
  from extract_decimal [OF f(2-5) this, of neg] show ?thesis
    by (simp add: read_first_double_def f(1,6) f64.rnd_minus)
qed

lemma integer_shows:
  assumes "\<bar>k\<bar> \<le> 2 ^ 53"
  shows "file_shows (Some (int_to_string k @ [CHR 0x0A])) (of_int k)"
proof -
  let ?a = "nat_to_string (nat \<bar>k\<bar>)"
  have v: "decimal_value ?a [] = of_int \<bar>k\<bar>" by (simp add: decimal_value_def digits_value_nat digits_value_def [of "[]"] of_nat_nat)
  have "int_to_string k = decimal_text (k < 0) ?a []" by (simp add: int_to_string_def decimal_text_def)
  moreover have "ends_number [CHR 0x0A]" by (simp add: ends_number_def is_digit_def)
  moreover have "of_int \<bar>k\<bar> \<le> (of_int (2 ^ 53) :: rat)" using assms by (rule of_int_le_iff [THEN iffD2])
  then have "\<bar>of_int k :: rat\<bar> \<le> 2 ^ 53" by simp
  ultimately show ?thesis
    using digits_nat_to_string [of "nat \<bar>k\<bar>"] v unfolding file_shows_def
    by (intro exI [of _ "k < 0"] exI [of _ ?a] exI [of _ "[]"] exI [of _ "[CHR 0x0A]"]) (auto simp: digits_text_def)
qed

subsection \<open>The log\<close>

lemma telemetry_lines:
  "length (telemetry_main bs t) = length bs"
  "i < length bs \<Longrightarrow> telemetry_main bs t ! i = fst (telemetry_round (bs ! i) (t + of_nat i))"
proof (induction bs arbitrary: t i)
  case (Cons b bs)
  case 1
  then show ?case using Cons(1) by (simp add: telemetry_round_def Let_def)
  case 2
  then show ?case using Cons(2) [of "i - 1" "t + 1"] by (cases i) (simp_all add: telemetry_round_def Let_def add.assoc)
qed simp_all

text \<open>Two roundings from a count of thousandths.\<close>

lemma milli_error:
  assumes "\<bar>k\<bar> \<le> 2 ^ 53"
  shows "\<bar>f64 (of_int k * f64 (1/1000)) - of_int k / 1000\<bar> \<le> \<bar>of_int k\<bar> / 1000 / 2 ^ 51"
proof (cases "k = 0")
  case False
  define s where "s = f64 (1/1000)"
  define K where "K = \<bar>rat_of_int k\<bar>"
  have s: "\<bar>s - 1/1000\<bar> \<le> (1/1000) / 2 ^ 53"
    unfolding s_def f64_def using fround_rel_error [of "-1022" "1/1000" 53] by (simp add: power_int_minus field_simps)
  also have "(1/1000) / 2 ^ 53 \<le> (1/2000 :: rat)" by simp
  finally have s2: "1/2000 \<le> s" "s \<le> 1/500" unfolding abs_le_iff by linarith+
  have K: "1 \<le> K" using False unfolding K_def by linarith
  have ks: "\<bar>of_int k * s\<bar> = K * s" using s2 by (simp add: abs_mult K_def)
  have "2 powi (- 1022) \<le> (1/2000 :: rat)" by (simp add: power_int_minus field_simps)
  also have "\<dots> \<le> K * s" using mult_mono [OF K s2(1)] K by simp
  finally have "\<bar>f64 (of_int k * s) - of_int k * s\<bar> \<le> K * s / 2 ^ 53"
    unfolding f64_def using fround_rel_error [of "-1022" "of_int k * s" 53] ks by simp
  moreover have "K * s / 2 ^ 53 \<le> K * (1/500) / 2 ^ 53" using s2(2) K by (intro divide_right_mono mult_left_mono) auto
  moreover have "\<bar>of_int k * s - of_int k / 1000\<bar> = K * \<bar>s - 1/1000\<bar>"
    unfolding K_def by (simp add: abs_mult [symmetric] right_diff_distrib)
  moreover have "K * \<bar>s - 1/1000\<bar> \<le> K * ((1/1000) / 2 ^ 53)" using s K by (intro mult_left_mono) auto
  moreover have "K * (1/500) / 2 ^ 53 + K * ((1/1000) / 2 ^ 53) \<le> K / 1000 / 2 ^ 51" using K by (simp add: field_simps)
  ultimately show ?thesis unfolding s_def [symmetric] K_def [symmetric] by linarith
qed (simp add: f64_def fround_def)

text \<open>A thermal zone at one degree below zero reads like a missing one.\<close>

lemma minus_one_degree: "read_first_double (Some (int_to_string (-1000) @ [CHR 0x0A])) (f64 (1/1000)) = read_first_double None (f64 (1/1000))"
proof -
  have "f64 (1000 * f64 (1/1000)) = 1" by code_simp
  then have "f64 (- 1000 * f64 (1/1000)) = -1" using f64.rnd_minus [of "1000 * f64 (1/1000)"] by simp
  moreover have "f64 (-1000) = -1000" using f64.rnd_int [of "-1000"] by simp
  ultimately show ?thesis
    using read_shown [OF integer_shows [of "-1000"], of "f64 (1/1000)"] by (simp add: read_first_double_def [of None])
qed



end
