(* ===== verification/Spec2Isabelle.thy ===== *)
theory Spec2Isabelle
  imports Queue_Threads Latency_Tracker Zcv_Main Gst_Threads Node_Lifecycle Trt_Logger Build_Engine Can_Bridge Bmp280 Uboot_Diag Telemetry_App
begin

text \<open>
  Verification of an embedded software portfolio (\<^verbatim>\<open>src/\<close>): a zero-copy V4L2 capture engine, a multi-threaded
  GStreamer to RTSP pipeline, an edge-AI detector on TensorRT and ROS 2, a SocketCAN telemetry bridge, a BMP280 kernel driver,
  U-Boot board diagnostics and a telemetry daemon of a Yocto layer. The programs are independent of each other; inside each one the parts below interact.

  \<^bold>\<open>Programs and theories\<close>

  \<^item> \<^verbatim>\<open>gstreamer-multithread-pipeline\<close>. The appsink callbacks of \<open>Pipeline\<close> push frames into two bounded \<open>FrameQueue\<close>s
    and latencies into \<open>LatencyTracker\<close>; the feeder thread of \<open>RtspServer\<close> and the raw consumer of \<open>main\<close> pop them.
    Theories \<open>Frame_Queue\<close> (\<^verbatim>\<open>frame_queue.hpp\<close>: the record \<open>frame_queue\<close>, one definition per method), \<open>Queue_Threads\<close> (its
    condition variable, as a step relation over producers and consumers), \<open>Rolling_Window\<close> and \<open>Latency_Tracker\<close>
    (\<^verbatim>\<open>latency_tracker.hpp\<close>), \<open>Pipeline\<close> (\<^verbatim>\<open>pipeline.cpp\<close>: construction of the element graph, both callbacks, start, stop,
    destructor), \<open>Rtsp_Server\<close> (\<^verbatim>\<open>rtsp_server.cpp\<close>: attach, shutdown, the feeder thread interleaved with the callbacks),
    \<open>Gst_Main\<close> (\<^verbatim>\<open>main.cpp\<close>: options, main loop, exit paths) and \<open>Gst_Threads\<close> (its main thread, feeder, raw consumer and reporter, interleaved).
  \<^item> \<^verbatim>\<open>edge-ai-detector-tensorrt-ros2\<close>. The worker of \<open>DetectorNode\<close> pulls a \<open>Frame\<close> from \<open>GstSource\<close>, letterboxes it, runs
    \<open>TrtEngine\<close>, decodes the output, publishes to ROS and the CAN bus and records a \<open>BenchmarkTrace\<close>. Theories \<open>Gst_Source\<close>
    (\<^verbatim>\<open>gst_source.cpp\<close>), \<open>Letterbox\<close> (the letterbox of \<^verbatim>\<open>detector_node.cpp\<close>), \<open>Trt_Engine\<close> (\<^verbatim>\<open>trt_engine.cpp\<close>),
    \<open>Yolo_Postprocess\<close> (\<^verbatim>\<open>yolo_postprocess.cpp\<close>), \<open>Socketcan_Publisher\<close> (\<^verbatim>\<open>socketcan_publisher.cpp\<close>), \<open>Benchmark\<close>
    (\<^verbatim>\<open>benchmark.hpp\<close>) and \<open>Detector_Node\<close>, the composition of all of them (\<^verbatim>\<open>DetectorNode::run\<close> and \<^verbatim>\<open>publish\<close>).
    \<open>Node_Lifecycle\<close> interleaves the main thread (\<^verbatim>\<open>main\<close>, constructor, destructor), that worker, the report timer and signals.
    Offline, \<open>build_engine\<close> configures a TensorRT build and its \<open>Int8EntropyCalibrator\<close>: \<open>Int8_Calibrator\<close> and \<open>Build_Engine\<close>.
    \<open>Trt_Logger\<close> is the logger handed to TensorRT.
  \<^item> \<^verbatim>\<open>zero-copy-v4l2-capture\<close>. \<open>V4l2_Capture\<close> (\<^verbatim>\<open>v4l2_capture.cpp\<close>: open, map, export, queue, dequeue, release, stop, close),
    \<open>V4l2_Stats\<close> (sequence accounting, FourCC strings) and \<open>Zcv_Main\<close> (\<^verbatim>\<open>main.cpp\<close>).
  \<^item> \<^verbatim>\<open>vcan-socketcan-telemetry-bridge\<close>. \<open>Can_Bridge\<close>: \<^verbatim>\<open>can_common.h\<close>, the simulator \<^verbatim>\<open>can_tx.c\<close> and the receiver \<^verbatim>\<open>can_rx.c\<close>.
  \<^item> \<^verbatim>\<open>i2c-sensor-kernel-driver\<close>: \<open>Bmp280\<close>. \<^verbatim>\<open>uboot-fast-boot-gpio\<close>: \<open>Uboot_Diag\<close>.
    \<^verbatim>\<open>yocto-meta-custom-bsp\<close>: \<open>Telemetry_App\<close> (\<^verbatim>\<open>telemetry_app.cpp\<close>).
  \<^item> Shared: \<open>Prelude\<close> (types, generic lemmas, fact collections), \<open>Floats\<close> (binary32 and binary64 rounding), \<open>Effects\<close>
    (actions with exceptions and undefined behaviour, Hoare triples, termination, the \<open>EINTR\<close> retry loop), \<open>Transitions\<close> (invariants and
    bounded threads of step relations), \<open>Command_Line\<close> and \<open>Can_Frame\<close>.

  \<^bold>\<open>How code is modelled\<close>

  A class is a record, each method a definition on it. Unsigned machine integers are words of their width; C \<open>int\<close> is
  \<open>int\<close> where the code or a hypothesis keeps it in range. Floating-point numbers are rationals, rounded after every operation as the
  code's types demand. Undefined behaviour is a value (\<open>None\<close>, or \<open>Undef\<close> of an outcome), so that its absence is a
  theorem; exceptions are values with their message. Resources (descriptors, mappings, references, device memory) are ghost
  sets or multisets of the world, so that leaks and double releases show. What other software does is a parameter: the
  kernel (\<open>v4l2_os\<close>, \<open>can_sys\<close>, \<open>i2c_bus\<close>), GStreamer (\<open>gst_env\<close>, \<open>launch_env\<close>, the accessors of a sample), TensorRT and CUDA
  (\<open>trt_env\<close>, \<open>exec_env\<close>, \<open>builder_env\<close>), OpenCV (\<open>cv_env\<close>), \<open>sin\<close> and \<open>exp\<close> (\<open>libm\<close>), U-Boot (\<open>uboot\<close>), and the order \<open>std::sort\<close> gives to
  equal scores (locale \<open>score_sort\<close>). What a theorem needs of them is a named hypothesis with a witness.

  Loops end by structural recursion or a measure; the capture loop and the \<open>EINTR\<close> loop, which may run for ever, are partial functions,
  and the theorems say when they return. Loops that wait for the outside run over the list of its answers (\<open>tick\<close>, \<open>gm_event\<close>,
  \<open>rx_read\<close>, \<open>board_files\<close>), of any length, so no fuel is needed. Threads are step relations; the theorems hold for every interleaving.

  \<^bold>\<open>Interfaces\<close>

  \<open>drop_oldest_queue\<close> (what the users of the queue rely on; interpreted on \<open>FrameQueue\<close>), \<open>ring_window\<close> (interpreted on \<open>LatencyTracker\<close> and
  \<open>RollingStats\<close>), \<open>fp_rounding\<close> (interpreted on \<open>float\<close> and \<open>double\<close>), \<open>score_sort\<close> (interpreted on the stable sort), \<open>invariant_system\<close>
  (interpreted on the queue's threads, the detector's frames and threads, the RTSP threads and those of the streaming program) and \<open>bounded_thread\<close> (interpreted on the RTSP
  feeder, the four threads of the streaming program and the two of the detector). The severities of \<open>Trt_Logger\<close> are an instance of \<open>linorder\<close>.

  \<^bold>\<open>What is shown\<close>

  \<^item> The queue refines a sliding window over the pushed frames, its counters account for every frame, no wake-up is lost and closing drains it.
  \<^item> The pipeline object stays well formed under all operations, has the documented topology, and delivers the newest samples;
    the feeder streams a subsequence with relative timestamps in every interleaving and ends after a bounded number of its steps; the program releases everything on every exit path, and after a stop
    its threads end in a bounded number of steps.
  \<^item> Suppression equals greedy suppression and is sound and complete; decoding and the letterbox stay inside their buffers;
    engine sessions and frames leak nothing; the detector as a whole has no undefined behaviour, publishes one message per valid
    frame and one CSV row per message, and gives every resource back; its threads compute what the sequential run computes, use nothing
    outside its lifetime and shut down in at most six steps. Calibration ends and sees every image once.
  \<^item> A capture session leaks nothing whatever fails, buffers cycle between program and driver, and frames and gaps are accounted for.
  \<^item> CAN detections, telemetry frames and FourCC codes decode to what was encoded; the driver's integer compensation equals the exact
    formula and its attributes report the chip; the DRAM walk restores memory and counts faulty cells.
  \<^item> The telemetry daemon logs what the kernel shows, with an error bound for the scaled temperature.
  \<^item> Where the code deviates from what it announces, a theorem or lemma shows it: reads outside a tensor with too many configured
    classes, a capture restarted without requeueing, drops hidden by a wrapped sequence number, a redline that cannot be
    reached, a GPIO taken from its owner, an allocation lost when TensorRT refuses an address.

  \<^bold>\<open>Not modelled\<close>

  Infinities and NaN; formatting and printing of numbers and messages (the logging macros, progress and report lines);
  weak memory ordering (the step relations interleave atomically at lock and atomic accesses); ROS itself; the registration tables of the kernel module and of the U-Boot
  command; build files, device trees, recipes, scripts and the DBC file.
\<close>

end
